(* ===== verification/Prelude.thy ===== *)
theory Prelude
  imports Main "HOL-Library.Word"
begin

text \<open>
  Shared vocabulary of the development: the machine integers of the program, the exceptions
  it throws, the shape of an operation that may throw while it changes an object, and the
  generic lemmas on words, lists and association lists that the component theories use.

  \<^item> \<open>std::size_t\<close> and \<open>uint64_t\<close> are \<open>u64\<close> (arithmetic wraps as it does in C++);
  \<^item> \<open>int64_t\<close> is \<open>int\<close>, with \<open>to_i64\<close> and \<open>to_u64\<close> for the \<open>static_cast\<close>s between
    the two and \<open>wrap_i64\<close> for the two's complement result of an atomic \<open>fetch_add\<close>;
  \<^item> an exception is a value of \<open>exn\<close>; an operation that may throw returns \<open>exn + 'a\<close>.
\<close>

section \<open>Machine integers\<close>

type_synonym u64 = "64 word"
type_synonym i32 = "32 word"

definition to_i64 :: "u64 \<Rightarrow> int" where
  "to_i64 w = sint w"

definition to_u64 :: "int \<Rightarrow> u64" where
  "to_u64 i = word_of_int i"

definition wrap_i64 :: "int \<Rightarrow> int" where
  "wrap_i64 i = sint (word_of_int i :: u64)"

lemma unat_u64_less: "unat (w :: u64) < 2 ^ 64"
  using unsigned_less [of w, where ?'a = nat] by simp

named_theorems word_nat "readings of words as natural numbers, under the bounds that make them exact"

lemma unat_add_exact [word_nat]:
  fixes a b :: "'a::len word"
  assumes "unat a + unat b < 2 ^ LENGTH('a)"
  shows "unat (a + b) = unat a + unat b"
  using assms by (simp add: unat_word_ariths)

lemma unat_sub_exact [word_nat]:
  fixes a b :: "'a::len word"
  assumes "unat b \<le> unat a"
  shows "unat (a - b) = unat a - unat b"
  using assms by (simp add: unat_sub word_le_nat_alt)

lemma to_i64_small:
  assumes "unat w < 2 ^ 63"
  shows "to_i64 w = int (unat w)"
proof -
  have "uint w < 2 ^ 63"
    using assms by (metis of_nat_less_iff of_nat_numeral of_nat_power uint_nat)
  moreover have "0 \<le> uint w" by simp
  ultimately have "signed_take_bit 63 (uint w) = uint w"
    using order_trans [of "- (2 ^ 63) :: int" 0 "uint w"]
    by (intro signed_take_bit_int_eq_self) auto
  then show ?thesis
    by (simp add: to_i64_def sint_uint uint_nat [symmetric])
qed

lemma unat_to_u64:
  assumes "0 \<le> i" and "i < 2 ^ 64"
  shows "unat (to_u64 i) = nat i"
  using assms by (simp add: to_u64_def unat_eq_nat_uint uint_word_of_int)

lemma wrap_i64_id:
  assumes "- (2 ^ 63) \<le> i" and "i < 2 ^ 63"
  shows "wrap_i64 i = i"
  using assms by (simp add: wrap_i64_def sint_sbintrunc' signed_take_bit_int_eq_self)

lemma to_u64_of_nat: "to_u64 (int n) = of_nat n"
  by (simp add: to_u64_def)

section \<open>Exceptions and results\<close>

text \<open>
  The exceptions of the library, with their message where the code gives a fixed one, and
  the ways an execution can go wrong without an exception: a failing \<open>assert\<close>, the use of a null
  or dangling pointer, the overflow of a signed integer, and a quotient that is no finite number.
\<close>

datatype exn =
    runtime_error string
  | invalid_argument string
  | out_of_range string
  | logic_error string
  | out_of_memory string
  | bad_alloc string
  | cucascade_out_of_memory string u64 u64
  | bad_function_call
  | bad_optional_access
  | assertion_failure
  | invalid_dereference
  | signed_overflow
  | not_a_number

type_synonym 'a outcome = "exn + 'a"

definition returns :: "'a outcome \<Rightarrow> bool" where
  "returns r = (case r of Inl _ \<Rightarrow> False | Inr _ \<Rightarrow> True)"

lemma returns_simps [simp]: "\<not> returns (Inl e)" "returns (Inr x)"
  by (simp_all add: returns_def)

section \<open>Decimal output\<close>

text \<open>\<open>std::to_string\<close> and \<open>operator<<\<close> on integers.\<close>

fun decimal :: "nat \<Rightarrow> string" where
  "decimal n = (if n < 10 then [char_of (48 + n)] else decimal (n div 10) @ [char_of (48 + n mod 10)])"

declare decimal.simps [simp del]

definition decimal_int :: "int \<Rightarrow> string" where
  "decimal_int i = (if i < 0 then CHR ''-'' # decimal (nat (- i)) else decimal (nat i))"

section \<open>Lists and association lists\<close>

fun list_of_option :: "'a option \<Rightarrow> 'a list" where
  "list_of_option None = []"
| "list_of_option (Some x) = [x]"

text \<open>
  A container keyed by pointers is an association list, so that sums over its entries are
  finite and executable. \<open>alist_set\<close> overwrites in place, \<open>alist_erase\<close> erases every
  entry of a key.
\<close>

fun alist_set :: "'k \<Rightarrow> 'v \<Rightarrow> ('k \<times> 'v) list \<Rightarrow> ('k \<times> 'v) list" where
  "alist_set k v [] = [(k, v)]"
| "alist_set k v ((k', v') # xs) = (if k' = k then (k, v) # xs else (k', v') # alist_set k v xs)"

definition alist_erase :: "'k \<Rightarrow> ('k \<times> 'v) list \<Rightarrow> ('k \<times> 'v) list" where
  "alist_erase k xs = filter (\<lambda>p. fst p \<noteq> k) xs"

lemma map_of_alist_set [simp]: "map_of (alist_set k v xs) = (map_of xs)(k \<mapsto> v)"
  by (induction k v xs rule: alist_set.induct) auto

lemma map_of_alist_erase [simp]: "map_of (alist_erase k xs) = (map_of xs)(k := None)"
  by (induction xs) (auto simp: alist_erase_def)

lemma alist_set_twice [simp]: "alist_set k w (alist_set k v xs) = alist_set k w xs"
  by (induction k v xs rule: alist_set.induct) auto

lemma keys_alist_set:
  "fst ` set (alist_set k v xs) = insert k (fst ` set xs)"
  by (induction k v xs rule: alist_set.induct) auto

lemma keys_alist_erase: "fst ` set (alist_erase k xs) = fst ` set xs - {k}"
  by (auto simp: alist_erase_def)

lemma distinct_alist_set:
  "distinct (map fst xs) \<Longrightarrow> distinct (map fst (alist_set k v xs))"
proof (induction k v xs rule: alist_set.induct)
  case (2 k v k' v' xs)
  have "set (map fst (alist_set k v xs)) = insert k (set (map fst xs))"
    using keys_alist_set [of k v xs] by simp
  with "2" show ?case by auto
qed simp

lemma distinct_alist_erase:
  "distinct (map fst xs) \<Longrightarrow> distinct (map fst (alist_erase k xs))"
  by (simp add: alist_erase_def distinct_map_filter)

text \<open>The sum of a measure over the entries of an association list.\<close>

definition alist_sum :: "('v \<Rightarrow> nat) \<Rightarrow> ('k \<times> 'v) list \<Rightarrow> nat" where
  "alist_sum f xs = sum_list (map (\<lambda>p. f (snd p)) xs)"

lemma alist_sum_simps [simp]:
  "alist_sum f [] = 0"
  "alist_sum f (p # xs) = f (snd p) + alist_sum f xs"
  by (simp_all add: alist_sum_def)

lemma alist_sum_cong:
  assumes "distinct (map fst xs)" and "\<And>k v. map_of xs k = Some v \<Longrightarrow> f v = g v"
  shows "alist_sum f xs = alist_sum g xs"
proof -
  have "f (snd p) = g (snd p)" if "p \<in> set xs" for p
    using assms(2) [of "fst p" "snd p"] map_of_is_SomeI [OF assms(1), of "fst p" "snd p"] that by simp
  then show ?thesis unfolding alist_sum_def by (metis (mono_tags, lifting) map_eq_conv)
qed

lemma alist_sum_new:
  "map_of xs k = None \<Longrightarrow> alist_sum f (alist_set k v xs) = alist_sum f xs + f v"
  by (induction k v xs rule: alist_set.induct) (auto split: if_splits)

lemma alist_sum_set:
  "map_of xs k = Some w \<Longrightarrow> alist_sum f (alist_set k v xs) + f w = alist_sum f xs + f v"
  by (induction k v xs rule: alist_set.induct) (auto split: if_splits)

lemma alist_sum_ge: "map_of xs k = Some w \<Longrightarrow> f w \<le> alist_sum f xs"
  by (induction xs) (auto split: if_splits)

lemma alist_sum_erase:
  assumes "distinct (map fst xs)" and "map_of xs k = Some w"
  shows "alist_sum f (alist_erase k xs) + f w = alist_sum f xs"
  using assms
proof (induction xs)
  case (Cons p xs)
  show ?case
  proof (cases "fst p = k")
    case True
    with Cons.prems have w: "snd p = w" and nin: "k \<notin> fst ` set xs"
      by (auto simp: image_iff)
    from nin have "alist_erase k xs = xs"
      by (auto simp: alist_erase_def filter_id_conv)
    with True w show ?thesis by (simp add: alist_erase_def)
  next
    case False
    with Cons show ?thesis by (cases p) (auto simp: alist_erase_def split: if_splits)
  qed
qed simp

lemma length_alist_set_new: "map_of xs k = None \<Longrightarrow> length (alist_set k v xs) = Suc (length xs)"
  by (induction k v xs rule: alist_set.induct) (auto split: if_splits)

lemma length_alist_set_old: "map_of xs k = Some w \<Longrightarrow> length (alist_set k v xs) = length xs"
  by (induction k v xs rule: alist_set.induct) (auto split: if_splits)

lemma length_alist_erase:
  assumes "distinct (map fst xs)" and "map_of xs k = Some w"
  shows "Suc (length (alist_erase k xs)) = length xs"
  using alist_sum_erase [OF assms, of "\<lambda>_. 1"] by (simp add: alist_sum_def sum_list_triv)

text \<open>The sum of a measure over the elements of a list that satisfy a predicate.\<close>

definition sum_where :: "('a \<Rightarrow> nat) \<Rightarrow> ('a \<Rightarrow> bool) \<Rightarrow> 'a list \<Rightarrow> nat" where
  "sum_where w P xs = sum_list (map (\<lambda>x. if P x then w x else 0) xs)"

lemma sum_where_simps [simp]:
  "sum_where w P [] = 0"
  "sum_where w P (x # xs) = (if P x then w x else 0) + sum_where w P xs"
  "sum_where w P (xs @ ys) = sum_where w P xs + sum_where w P ys"
  by (simp_all add: sum_where_def)

lemma sum_where_remove1:
  "x \<in> set xs \<Longrightarrow> sum_where w P (remove1 x xs) + (if P x then w x else 0) = sum_where w P xs"
  using sum_list_map_remove1 [of x xs "\<lambda>x. if P x then w x else 0"]
  by (simp add: sum_where_def)

lemma sum_where_cong:
  "(\<And>x. x \<in> set xs \<Longrightarrow> P x \<longleftrightarrow> Q x) \<Longrightarrow> sum_where w P xs = sum_where w Q xs"
  by (induction xs) auto

lemma sum_where_disj:
  "(\<And>x. x \<in> set xs \<Longrightarrow> R x \<longleftrightarrow> P x \<or> Q x) \<Longrightarrow> (\<And>x. \<not> (P x \<and> Q x)) \<Longrightarrow>
     sum_where w R xs = sum_where w P xs + sum_where w Q xs"
  by (induction xs) auto

lemma sum_where_none: "(\<And>x. x \<in> set xs \<Longrightarrow> \<not> P x) \<Longrightarrow> sum_where w P xs = 0"
  by (induction xs) auto

end
