(* ===== verification/Atomics.thy ===== *)
theory Atomics
  imports Prelude
begin

text \<open>
  The counters of \<open>include/utils/atomics.hpp\<close>: \<open>atomic_peak_tracker\<close> and
  \<open>atomic_bounded_counter\<close>. Every operation is given twice.

  \<^item> As one atomic step on the value held (\<open>try_add\<close>, \<open>add_bounded\<close>, ...), which is what the
    components above use. The second component of the result is the value the function returns,
    and in every branch it is also the value the counter holds afterwards. The templates
    are instantiated at \<open>size_t\<close> and \<open>int64_t\<close>; so are the definitions, at \<open>u64\<close> and \<open>int\<close>.
  \<^item> As the compare-and-swap loop that the code runs (\<open>try_add_loop\<close>, ...), against an
    environment that says, for each \<open>compare_exchange_weak\<close>, which value it meets in the
    atomic and whether it fails spuriously. \<open>None\<close> is a loop still spinning when the
    environment ends. The option in the result is the value the loop stores, if it stores one.
\<close>

section \<open>The peak tracker\<close>

definition update_peak :: "'a::linorder \<Rightarrow> 'a \<Rightarrow> 'a" where
  "update_peak peak current = (if current > peak then current else peak)"

lemma update_peak_max: "update_peak p c = max p c"
  by (auto simp: update_peak_def max_def)

lemma update_peak_ge [simp]: "p \<le> update_peak p c" "c \<le> update_peak p c"
  by (simp_all add: update_peak_max)

type_synonym 'a cas_env = "('a \<times> bool) list"

fun update_peak_loop :: "'a::linorder cas_env \<Rightarrow> 'a \<Rightarrow> 'a \<Rightarrow> 'a option option" where
  "update_peak_loop [] peak current = (if current > peak then None else Some None)"
| "update_peak_loop ((seen, spurious) # env) peak current =
     (if current > peak
      then if seen = peak \<and> \<not> spurious then Some (Some current)
           else update_peak_loop env seen current
      else Some None)"

section \<open>The bounded counter as one atomic step\<close>

definition add :: "'a::plus \<Rightarrow> 'a \<Rightarrow> 'a" where
  "add value diff = value + diff"

definition sub :: "'a::minus \<Rightarrow> 'a \<Rightarrow> 'a" where
  "sub value diff = value - diff"

definition try_add :: "'a::{linorder,plus,minus} \<Rightarrow> 'a \<Rightarrow> 'a \<Rightarrow> bool \<times> 'a" where
  "try_add current diff upper_bound =
     (if upper_bound < current \<or> upper_bound - current < diff
      then (False, current)
      else (True, current + diff))"

definition add_bounded :: "'a::{linorder,plus,minus,zero} \<Rightarrow> 'a \<Rightarrow> 'a \<Rightarrow> 'a \<times> 'a" where
  "add_bounded current diff upper_bound =
     (if current < upper_bound
      then let space_left = upper_bound - current; diff' = min diff space_left
           in (diff', current + diff')
      else (0, current))"

definition try_sub :: "'a::{linorder,plus,minus} \<Rightarrow> 'a \<Rightarrow> 'a \<Rightarrow> bool \<times> 'a" where
  "try_sub current diff lower_bound =
     (if current < lower_bound \<or> current - lower_bound < diff
      then (False, current)
      else (True, current - diff))"

definition sub_bounded :: "'a::{linorder,plus,minus,zero} \<Rightarrow> 'a \<Rightarrow> 'a \<Rightarrow> 'a \<times> 'a" where
  "sub_bounded current diff lower_bound =
     (if current > lower_bound
      then let space_above = current - lower_bound; diff' = min diff space_above
           in (diff', current - diff')
      else (0, current))"

section \<open>The compare-and-swap loops\<close>

fun try_add_loop ::
  "'a::{linorder,plus,minus} cas_env \<Rightarrow> 'a \<Rightarrow> 'a \<Rightarrow> 'a \<Rightarrow> ((bool \<times> 'a) \<times> 'a option) option"
where
  "try_add_loop [] current diff upper_bound =
     (if upper_bound < current \<or> upper_bound - current < diff
      then Some ((False, current), None) else None)"
| "try_add_loop ((seen, spurious) # env) current diff upper_bound =
     (if upper_bound < current \<or> upper_bound - current < diff
      then Some ((False, current), None)
      else if seen = current \<and> \<not> spurious
      then Some ((True, current + diff), Some (current + diff))
      else try_add_loop env seen diff upper_bound)"

fun try_sub_loop ::
  "'a::{linorder,plus,minus} cas_env \<Rightarrow> 'a \<Rightarrow> 'a \<Rightarrow> 'a \<Rightarrow> ((bool \<times> 'a) \<times> 'a option) option"
where
  "try_sub_loop [] current diff lower_bound =
     (if current < lower_bound \<or> current - lower_bound < diff
      then Some ((False, current), None) else None)"
| "try_sub_loop ((seen, spurious) # env) current diff lower_bound =
     (if current < lower_bound \<or> current - lower_bound < diff
      then Some ((False, current), None)
      else if seen = current \<and> \<not> spurious
      then Some ((True, current - diff), Some (current - diff))
      else try_sub_loop env seen diff lower_bound)"

text \<open>
  \<open>add_bounded\<close> takes \<open>diff\<close> by reference and narrows it in every iteration, so a retry
  starts from the narrowed value, not from the request.
\<close>

fun add_bounded_loop ::
  "'a::{linorder,plus,minus,zero} cas_env \<Rightarrow> 'a \<Rightarrow> 'a \<Rightarrow> 'a \<Rightarrow> (('a \<times> 'a) \<times> 'a option) option"
where
  "add_bounded_loop [] current diff upper_bound =
     (if current < upper_bound then None else Some ((0, current), None))"
| "add_bounded_loop ((seen, spurious) # env) current diff upper_bound =
     (if current < upper_bound
      then let space_left = upper_bound - current; diff' = min diff space_left
           in if seen = current \<and> \<not> spurious
              then Some ((diff', current + diff'), Some (current + diff'))
              else add_bounded_loop env seen diff' upper_bound
      else Some ((0, current), None))"

fun sub_bounded_loop ::
  "'a::{linorder,plus,minus,zero} cas_env \<Rightarrow> 'a \<Rightarrow> 'a \<Rightarrow> 'a \<Rightarrow> (('a \<times> 'a) \<times> 'a option) option"
where
  "sub_bounded_loop [] current diff lower_bound =
     (if current > lower_bound then None else Some ((0, current), None))"
| "sub_bounded_loop ((seen, spurious) # env) current diff lower_bound =
     (if current > lower_bound
      then let space_above = current - lower_bound; diff' = min diff space_above
           in if seen = current \<and> \<not> spurious
              then Some ((diff', current - diff'), Some (current - diff'))
              else sub_bounded_loop env seen diff' lower_bound
      else Some ((0, current), None))"

section \<open>What the atomic steps do, as numbers\<close>

lemma try_add_u64:
  fixes v d ub :: u64
  shows "fst (try_add v d ub) \<longleftrightarrow> unat v + unat d \<le> unat ub"
    and "fst (try_add v d ub) \<Longrightarrow> unat (snd (try_add v d ub)) = unat v + unat d"
    and "\<not> fst (try_add v d ub) \<Longrightarrow> snd (try_add v d ub) = v"
proof -
  have sum_lt: "unat v + unat d \<le> unat ub \<Longrightarrow> unat v + unat d < 2 ^ 64"
    using unat_u64_less [of ub] by simp
  have iff: "\<not> (ub < v \<or> ub - v < d) \<longleftrightarrow> unat v + unat d \<le> unat ub"
    by (auto simp: word_less_nat_alt unat_sub_exact not_less)
  show "fst (try_add v d ub) \<longleftrightarrow> unat v + unat d \<le> unat ub"
    using iff by (auto simp: try_add_def)
  then show "fst (try_add v d ub) \<Longrightarrow> unat (snd (try_add v d ub)) = unat v + unat d"
    using sum_lt by (simp add: try_add_def unat_add_exact split: if_splits)
  show "\<not> fst (try_add v d ub) \<Longrightarrow> snd (try_add v d ub) = v"
    by (auto simp: try_add_def split: if_splits)
qed

lemma try_add_bound:
  fixes v d ub :: u64
  shows "fst (try_add v d ub) \<Longrightarrow> snd (try_add v d ub) \<le> ub"
  using try_add_u64 [of v d ub] by (simp add: word_le_nat_alt)

lemma try_add_int:
  fixes v d ub :: int
  assumes "0 \<le> d"
  shows "try_add v d ub = (if v + d \<le> ub then (True, v + d) else (False, v))"
  using assms by (auto simp: try_add_def)

lemma add_bounded_u64:
  fixes v d ub :: u64
  shows "unat (fst (add_bounded v d ub)) = min (unat d) (unat ub - unat v)"
    and "unat (snd (add_bounded v d ub)) = unat v + min (unat d) (unat ub - unat v)"
proof -
  have m: "v < ub \<Longrightarrow> unat (min d (ub - v)) = min (unat d) (unat ub - unat v)"
    by (auto simp: min_def word_le_nat_alt word_less_nat_alt unat_sub_exact)
  have "v < ub \<Longrightarrow> unat v + min (unat d) (unat ub - unat v) < 2 ^ 64"
    using unat_u64_less [of ub] by (simp add: word_less_nat_alt)
  with m show "unat (fst (add_bounded v d ub)) = min (unat d) (unat ub - unat v)"
    and "unat (snd (add_bounded v d ub)) = unat v + min (unat d) (unat ub - unat v)"
    by (auto simp: add_bounded_def Let_def unat_add_exact word_less_nat_alt not_less)
qed

lemma sub_bounded_u64:
  fixes v d lb :: u64
  shows "unat (fst (sub_bounded v d lb)) = min (unat d) (unat v - unat lb)"
    and "unat (snd (sub_bounded v d lb)) = unat v - min (unat d) (unat v - unat lb)"
proof -
  have m: "lb < v \<Longrightarrow> unat (min d (v - lb)) = min (unat d) (unat v - unat lb)"
    by (auto simp: min_def word_le_nat_alt word_less_nat_alt unat_sub_exact)
  then show "unat (fst (sub_bounded v d lb)) = min (unat d) (unat v - unat lb)"
    and "unat (snd (sub_bounded v d lb)) = unat v - min (unat d) (unat v - unat lb)"
    by (auto simp: sub_bounded_def Let_def unat_sub_exact word_less_nat_alt not_less)
qed

lemma try_sub_u64:
  fixes v d lb :: u64
  shows "fst (try_sub v d lb) \<longleftrightarrow> unat lb + unat d \<le> unat v"
    and "fst (try_sub v d lb) \<Longrightarrow> unat (snd (try_sub v d lb)) = unat v - unat d"
  by (auto simp: try_sub_def word_less_nat_alt unat_sub_exact not_less split: if_splits)

section \<open>What the loops do under interference\<close>

lemma update_peak_loop_linearizable:
  assumes "update_peak_loop env peak current = Some w"
  shows "\<exists>v \<in> set (peak # map fst env).
           w = (if update_peak v current \<noteq> v then Some (update_peak v current) else None)"
  using assms
  by (induction env peak current rule: update_peak_loop.induct)
     (auto simp: update_peak_def split: if_splits)

text \<open>
  Linearizability of \<open>try_add\<close>: whatever the other threads store between the
  load and each compare-and-swap, a loop that returns has the result, and makes the store, of
  the atomic \<open>try_add\<close> at one of the values it saw.
\<close>

theorem try_add_loop_linearizable:
  assumes "try_add_loop env current diff ub = Some (r, w)"
  shows "\<exists>v \<in> set (current # map fst env).
           r = try_add v diff ub \<and> w = (if fst r then Some (snd r) else None)"
  using assms
  by (induction env current diff ub rule: try_add_loop.induct)
     (auto simp: try_add_def split: if_splits)

theorem try_add_loop_linearizable_witness:
  "\<exists>v \<in> set [(90::u64), 40].
     (True, 60) = try_add v 20 100 \<and> Some 60 = (if fst (True, 60 :: u64) then Some 60 else None)"
  using try_add_loop_linearizable
    [of "[(40, False), (40, False)]" "90::u64" 20 100 "(True, 60)" "Some 60"]
  by (simp add: try_add_def)

lemma try_sub_loop_linearizable:
  assumes "try_sub_loop env current diff lb = Some (r, w)"
  shows "\<exists>v \<in> set (current # map fst env).
           r = try_sub v diff lb \<and> w = (if fst r then Some (snd r) else None)"
  using assms
  by (induction env current diff lb rule: try_sub_loop.induct)
     (auto simp: try_sub_def split: if_splits)

text \<open>
  Progress: an attempt that meets the value last loaded and does not fail spuriously is the
  last one. \<open>undisturbed\<close> says that the environment has such an attempt.
\<close>

fun undisturbed :: "'a cas_env \<Rightarrow> 'a \<Rightarrow> bool" where
  "undisturbed [] current = False"
| "undisturbed ((seen, spurious) # env) current =
     ((seen = current \<and> \<not> spurious) \<or> undisturbed env seen)"

lemma try_add_loop_returns:
  "undisturbed env current \<Longrightarrow> try_add_loop env current diff ub \<noteq> None"
  by (induction env current diff ub rule: try_add_loop.induct) auto

lemma add_bounded_loop_returns:
  "undisturbed env current \<Longrightarrow> add_bounded_loop env current diff ub \<noteq> None"
  by (induction env current diff ub rule: add_bounded_loop.induct) (auto simp: Let_def)

text \<open>
  \<open>add_bounded\<close> under interference keeps the two bounds its callers need: it grants no more
  than was asked, and what it stores is a value it saw plus the grant, within the bound.
\<close>

lemma add_bounded_loop_safe:
  fixes current diff ub :: u64
  assumes "add_bounded_loop env current diff ub = Some ((g, v'), w)"
  shows "g \<le> diff"
    and "w = None \<Longrightarrow> g = 0"
    and "w = Some x \<Longrightarrow>
           \<exists>v \<in> set (current # map fst env).
             x = v' \<and> unat x = unat v + unat g \<and> unat x \<le> unat ub"
proof -
  have narrow: "c < ub \<Longrightarrow>
      unat (c + min d (ub - c)) = unat c + unat (min d (ub - c)) \<and> unat (c + min d (ub - c)) \<le> unat ub"
    for c d :: u64
    using add_bounded_u64 [of c d ub] by (simp add: add_bounded_def Let_def word_less_nat_alt)
  have "g \<le> diff \<and> (w = None \<longrightarrow> g = 0) \<and>
    (\<forall>x. w = Some x \<longrightarrow> (\<exists>v \<in> set (current # map fst env).
             x = v' \<and> unat x = unat v + unat g \<and> unat x \<le> unat ub))"
    using assms
  proof (induction env current diff ub rule: add_bounded_loop.induct)
    case (2 seen spurious env c d ub)
    show ?case
    proof (cases "c < ub")
      case True
      show ?thesis
      proof (cases "seen = c \<and> \<not> spurious")
        case stop: True
        with True "2.prems" have "g = min d (ub - c)" "v' = c + g" "w = Some (c + g)"
          by (auto simp: Let_def)
        with narrow [of c] True add_bounded_u64 [of c d ub] show ?thesis
          by (auto simp: add_bounded_def Let_def word_less_nat_alt)
      next
        case go: False
        with True "2.prems" have "add_bounded_loop env seen (min d (ub - c)) ub = Some ((g, v'), w)"
          by (auto simp: Let_def)
        from "2.IH" [OF True refl refl go this] show ?thesis by auto
      qed
    next
      case False
      with "2.prems" show ?thesis by (auto simp: Let_def)
    qed
  qed (auto split: if_splits)
  then show "g \<le> diff" "w = None \<Longrightarrow> g = 0"
    "w = Some x \<Longrightarrow> \<exists>v \<in> set (current # map fst env).
             x = v' \<and> unat x = unat v + unat g \<and> unat x \<le> unat ub"
    by auto
qed

text \<open>
  But \<open>add_bounded\<close> is not linearizable: a failed compare-and-swap leaves \<open>diff\<close>
  narrowed by a value that is no longer there. Here a request for 50 of 100 units that first
  saw 90 in use and then 0 is granted 10, although no value it saw explains that result.
\<close>

theorem add_bounded_not_linearizable:
  "add_bounded_loop [(0, False), (0, False)] (90::u64) 50 100 = Some ((10, 10), Some 10) \<and>
   add_bounded 90 50 (100::u64) \<noteq> (10, 10) \<and> add_bounded 0 50 (100::u64) \<noteq> (10, 10)"
  by (simp add: add_bounded_def Let_def)

end
