(* ===== verification/Memory_Common.thy ===== *)
theory Memory_Common
  imports Prelude
begin

unbundle bit_operations_syntax

text \<open>
  \<open>include/memory/common.hpp\<close> and \<open>src/memory/error.cpp\<close>: the tiers, the identifier of a
  memory space with its ordering and its 64-bit key, and the error codes of the library.
\<close>

section \<open>Tiers\<close>

datatype Tier = GPU | HOST | DISK | SIZE

fun tier_value :: "Tier \<Rightarrow> i32" where
  "tier_value GPU = 0"
| "tier_value HOST = 1"
| "tier_value DISK = 2"
| "tier_value SIZE = 3"

lemma tier_value_inj [simp]: "tier_value s = tier_value t \<longleftrightarrow> s = t"
  by (cases s; cases t) simp_all

instantiation Tier :: linorder
begin

definition less_eq_Tier :: "Tier \<Rightarrow> Tier \<Rightarrow> bool" where
  "less_eq_Tier s t \<longleftrightarrow> sint (tier_value s) \<le> sint (tier_value t)"

definition less_Tier :: "Tier \<Rightarrow> Tier \<Rightarrow> bool" where
  "less_Tier s t \<longleftrightarrow> sint (tier_value s) < sint (tier_value t)"

instance
proof
  fix s t u :: Tier
  show "s < t \<longleftrightarrow> s \<le> t \<and> \<not> t \<le> s" by (auto simp: less_eq_Tier_def less_Tier_def)
  show "s \<le> s" by (simp add: less_eq_Tier_def)
  show "s \<le> t \<Longrightarrow> t \<le> u \<Longrightarrow> s \<le> u" by (simp add: less_eq_Tier_def)
  show "s \<le> t \<Longrightarrow> t \<le> s \<Longrightarrow> s = t"
    by (cases s; cases t) (simp_all add: less_eq_Tier_def)
  show "s \<le> t \<or> t \<le> s" by (auto simp: less_eq_Tier_def)
qed

end

section \<open>Memory space identifiers\<close>

datatype memory_space_id = memory_space_id (tier: Tier) (device_id: i32)

text \<open>
  The defaulted \<open>operator<=>\<close> compares the members in order; \<open>space_id_before\<close> is the \<open><\<close> it gives.
\<close>

definition space_id_before :: "memory_space_id \<Rightarrow> memory_space_id \<Rightarrow> bool" where
  "space_id_before a b \<longleftrightarrow>
     tier a < tier b \<or> (tier a = tier b \<and> sint (device_id a) < sint (device_id b))"

instantiation memory_space_id :: linorder
begin

definition less_memory_space_id :: "memory_space_id \<Rightarrow> memory_space_id \<Rightarrow> bool" where
  "less_memory_space_id a b \<longleftrightarrow> space_id_before a b"

definition less_eq_memory_space_id :: "memory_space_id \<Rightarrow> memory_space_id \<Rightarrow> bool" where
  "less_eq_memory_space_id a b \<longleftrightarrow> \<not> space_id_before b a"

instance
proof
  fix a b c :: memory_space_id
  note defs = less_eq_memory_space_id_def less_memory_space_id_def space_id_before_def
  show "a < b \<longleftrightarrow> a \<le> b \<and> \<not> b \<le> a" by (auto simp: defs)
  show "a \<le> a" by (simp add: defs)
  show "a \<le> b \<Longrightarrow> b \<le> c \<Longrightarrow> a \<le> c" by (auto simp: defs not_less)
  show "a \<le> b \<Longrightarrow> b \<le> a \<Longrightarrow> a = b"
    by (auto simp: defs not_less signed_word_eqI intro!: memory_space_id.expand)
  show "a \<le> b \<or> b \<le> a" by (auto simp: defs)
qed

end

text \<open>
  \<open>uuid\<close> copies the eight bytes of the object into a \<open>size_t\<close>: on the little-endian targets of
  the library the tier is the low and the device the high half. \<open>std::hash\<close> returns it.
\<close>

definition uuid :: "memory_space_id \<Rightarrow> u64" where
  "uuid p = (ucast (tier_value (tier p)) :: u64) OR push_bit 32 (ucast (device_id p))"

definition memory_space_id_hash :: "memory_space_id \<Rightarrow> u64" where
  "memory_space_id_hash p = uuid p"

lemma uuid_low: "(ucast (uuid p) :: i32) = tier_value (tier p)"
  by (rule bit_word_eqI) (auto simp: uuid_def bit_simps)

lemma uuid_high: "(ucast (drop_bit 32 (uuid p)) :: i32) = device_id p"
  by (rule bit_word_eqI) (auto simp: uuid_def bit_simps dest: bit_imp_le_length)

text \<open>
  The 64-bit key loses nothing: two memory spaces have the same key, and so the
  same hash, exactly when they are the same tier and device, so the lookup table of the
  manager never mixes two spaces.
\<close>

theorem uuid_injective: "uuid p = uuid q \<longleftrightarrow> p = q"
  using uuid_low [of p] uuid_low [of q] uuid_high [of p] uuid_high [of q]
  by (metis memory_space_id.expand tier_value_inj)

section \<open>Error codes\<close>

datatype MemoryError = SUCCESS | ALLOCATION_FAILED | LIMIT_EXCEEDED | POOL_EXHAUSTED | ERROR_SIZE

fun error_value :: "MemoryError \<Rightarrow> int" where
  "error_value SUCCESS = 0"
| "error_value ALLOCATION_FAILED = 1"
| "error_value LIMIT_EXCEEDED = 2"
| "error_value POOL_EXHAUSTED = 3"
| "error_value ERROR_SIZE = 4"

definition category_name :: string where
  "category_name = ''cuCascadeMemorySystem''"

definition error_message :: "int \<Rightarrow> string" where
  "error_message ev =
     (if ev = error_value SUCCESS then ''Success''
      else if ev = error_value ALLOCATION_FAILED then ''System allocation failed''
      else if ev = error_value LIMIT_EXCEEDED then ''Reservation limit exceeded''
      else if ev = error_value POOL_EXHAUSTED then ''Internal memory pool exhausted''
      else ''Unknown memory error'')"

definition make_error_code :: "MemoryError \<Rightarrow> int \<times> string" where
  "make_error_code e = (error_value e, category_name)"

text \<open>Messages tell the four real codes apart and fall back for every other integer.\<close>

lemma error_message_distinct:
  assumes "e \<noteq> f" "e \<noteq> ERROR_SIZE" "f \<noteq> ERROR_SIZE"
  shows "error_message (fst (make_error_code e)) \<noteq> error_message (fst (make_error_code f))"
  using assms by (cases e; cases f) (simp_all add: error_message_def make_error_code_def)

end
