(* ===== verification/Data_Batch.thy ===== *)
theory Data_Batch
  imports Memory_Common
begin

text \<open>
  \<open>data_batch\<close> and its processing handle (\<open>include/data/data_batch.hpp\<close>,
  \<open>src/data/data_batch.cpp\<close>), and the base class of the data it owns
  (\<open>include/data/common.hpp\<close>).

  Every method runs under the batch's mutex, so it is one atomic step: a function of the batch
  that returns the result or the exception, the batch afterwards, and the condition variable it
  notifies after releasing the mutex, if any. An exception leaves the state as it was when it
  was thrown. Batches live in a heap, because handles and repositories point to them.
\<close>

section \<open>The data of a batch\<close>

text \<open>
  \<open>idata_representation\<close> is an abstract class: a reference to the memory space, here its
  identifier, and whatever the derived class adds, here the type parameter.
\<close>

record 'r idata_representation =
  rep_memory_space :: memory_space_id
  payload :: 'r

definition rep_current_tier :: "'r idata_representation \<Rightarrow> Tier" where
  "rep_current_tier r = tier (rep_memory_space r)"

definition rep_device_id :: "'r idata_representation \<Rightarrow> i32" where
  "rep_device_id r = device_id (rep_memory_space r)"

section \<open>The batch\<close>

datatype batch_state = idle | task_created | processing | in_transit

datatype lock_for_processing_status =
  success | task_not_created | invalid_state | memory_space_mismatch | missing_data | not_attempted

record 'r data_batch =
  batch_id :: u64
  batch_data :: "'r idata_representation option"
  processing_count :: u64
  task_created_count :: u64
  batch_state :: batch_state
  state_change_cv :: "nat option"

type_synonym ('a, 'r) batch_op = "'a outcome \<times> 'r data_batch \<times> nat option"

definition new_data_batch :: "u64 \<Rightarrow> 'r idata_representation option \<Rightarrow> 'r data_batch" where
  "new_data_batch i d =
     \<lparr>batch_id = i, batch_data = d, processing_count = 0, task_created_count = 0,
      batch_state = idle, state_change_cv = None\<rparr>"

text \<open>
  The moves. The constructor moves \<open>_data\<close> in its initialiser list, before the body takes the
  lock and checks the processing count; the assignment checks first. Both return the target
  (the constructor a new batch) and the source afterwards.
\<close>

definition move_construct :: "'r data_batch \<Rightarrow> 'r data_batch outcome \<times> 'r data_batch" where
  "move_construct other =
     (let this = new_data_batch (batch_id other) (batch_data other);
          other = other\<lparr>batch_data := None\<rparr>
      in if processing_count other \<noteq> 0
         then (Inl (runtime_error ''Cannot move data_batch with active processing (processing_count != 0)''), other)
         else (Inr this, other\<lparr>batch_id := 0, batch_data := None\<rparr>))"

definition move_assign ::
  "'r data_batch \<Rightarrow> 'r data_batch \<Rightarrow> unit outcome \<times> 'r data_batch \<times> 'r data_batch" where
  "move_assign this other =
     (if processing_count other \<noteq> 0
      then (Inl (runtime_error ''Cannot move data_batch with active processing (processing_count != 0)''),
            this, other)
      else (Inr (), this\<lparr>batch_id := batch_id other, batch_data := batch_data other\<rparr>,
            other\<lparr>batch_id := 0, batch_data := None\<rparr>))"

definition get_current_tier :: "'r data_batch \<Rightarrow> Tier outcome" where
  "get_current_tier b =
     (case batch_data b of None \<Rightarrow> Inl invalid_dereference | Some d \<Rightarrow> Inr (rep_current_tier d))"

definition get_memory_space :: "'r data_batch \<Rightarrow> memory_space_id option" where
  "get_memory_space b = map_option rep_memory_space (batch_data b)"

definition set_state_change_cv :: "nat option \<Rightarrow> 'r data_batch \<Rightarrow> 'r data_batch" where
  "set_state_change_cv cv b = b\<lparr>state_change_cv := cv\<rparr>"

definition set_data :: "'r idata_representation option \<Rightarrow> 'r data_batch \<Rightarrow> (unit, 'r) batch_op" where
  "set_data d b =
     (if processing_count b \<noteq> 0
      then (Inl (runtime_error ''Cannot set data while there is active processing''), b, None)
      else (Inr (), b\<lparr>batch_data := d\<rparr>, None))"

text \<open>
  \<open>convert_to\<close> asks the registry for a converted representation; the registry's answer for the
  current data is the argument \<open>convert\<close>.
\<close>

definition convert_to ::
  "('r idata_representation \<Rightarrow> 'r idata_representation outcome) \<Rightarrow> 'r data_batch \<Rightarrow> (unit, 'r) batch_op"
where
  "convert_to convert b =
     (if processing_count b \<noteq> 0
      then (Inl (runtime_error ''Cannot convert representation while there is active processing''), b, None)
      else (case batch_data b of
              None \<Rightarrow> (Inl invalid_dereference, b, None)
            | Some d \<Rightarrow>
                (case convert d of
                   Inl e \<Rightarrow> (Inl e, b, None)
                 | Inr d' \<Rightarrow> (Inr (), b\<lparr>batch_data := Some d'\<rparr>, None))))"

section \<open>The lifecycle\<close>

definition try_to_create_task :: "'r data_batch \<Rightarrow> (bool, 'r) batch_op" where
  "try_to_create_task b =
     (if batch_state b = idle
      then (Inr True,
            b\<lparr>batch_state := task_created, task_created_count := task_created_count b + 1\<rparr>,
            state_change_cv b)
      else if batch_state b = task_created
      then (Inr True, b\<lparr>task_created_count := task_created_count b + 1\<rparr>, None)
      else if batch_state b = processing
      then (Inr True, b\<lparr>task_created_count := task_created_count b + 1\<rparr>, None)
      else (Inr False, b, None))"

definition try_to_cancel_task :: "'r data_batch \<Rightarrow> (bool, 'r) batch_op" where
  "try_to_cancel_task b =
     (if batch_state b = task_created \<or> batch_state b = processing
      then if task_created_count b = 0
           then (Inl (runtime_error ''Cannot cancel task: task_created_count is zero. try_to_create_task() must be called before try_to_cancel_task()''),
                 b, None)
           else let b = b\<lparr>task_created_count := task_created_count b - 1\<rparr>
                in if task_created_count b = 0 \<and> processing_count b = 0
                   then (Inr True, b\<lparr>batch_state := idle\<rparr>, state_change_cv b)
                   else (Inr True, b, None)
      else (Inr False, b, None))"

definition try_to_lock_for_processing ::
  "memory_space_id \<Rightarrow> 'r data_batch \<Rightarrow> (lock_for_processing_status, 'r) batch_op" where
  "try_to_lock_for_processing requested b =
     (case batch_data b of
        None \<Rightarrow> (Inr missing_data, b, None)
      | Some d \<Rightarrow>
          if rep_memory_space d \<noteq> requested then (Inr memory_space_mismatch, b, None)
          else if task_created_count b = 0 then (Inr task_not_created, b, None)
          else if \<not> (batch_state b = task_created \<or> batch_state b = processing)
          then (Inr invalid_state, b, None)
          else (Inr success,
                b\<lparr>task_created_count := task_created_count b - 1,
                  processing_count := processing_count b + 1,
                  batch_state := processing\<rparr>,
                state_change_cv b))"

definition try_to_lock_for_in_transit :: "'r data_batch \<Rightarrow> (bool, 'r) batch_op" where
  "try_to_lock_for_in_transit b =
     (if processing_count b = 0 \<and>
         (batch_state b = idle \<or> (batch_state b = task_created \<and> task_created_count b > 0))
      then (Inr True, b\<lparr>batch_state := in_transit\<rparr>, state_change_cv b)
      else (Inr False, b, None))"

definition try_to_release_in_transit ::
  "batch_state option \<Rightarrow> 'r data_batch \<Rightarrow> (bool, 'r) batch_op" where
  "try_to_release_in_transit target b =
     (if batch_state b = in_transit
      then (Inr True, b\<lparr>batch_state := (case target of Some s \<Rightarrow> s | None \<Rightarrow> idle)\<rparr>, state_change_cv b)
      else (Inr False, b, None))"

definition decrement_processing_count :: "'r data_batch \<Rightarrow> (unit, 'r) batch_op" where
  "decrement_processing_count b =
     (if batch_state b \<noteq> processing
      then (Inl (runtime_error ''Cannot decrement processing count: batch is not in processing state''), b, None)
      else if processing_count b = 0
      then (Inl (runtime_error ''Cannot decrement processing count: processing count is already zero''), b, None)
      else let b = b\<lparr>processing_count := processing_count b - 1\<rparr>
           in if processing_count b = 0
              then (Inr (), b\<lparr>batch_state := (if task_created_count b > 0 then task_created else idle)\<rparr>,
                    state_change_cv b)
              else (Inr (), b, None))"

lemmas batch_ops =
  try_to_create_task_def try_to_cancel_task_def try_to_lock_for_processing_def
  try_to_lock_for_in_transit_def try_to_release_in_transit_def decrement_processing_count_def
  set_data_def set_state_change_cv_def convert_to_def

section \<open>The handle\<close>

text \<open>
  A \<open>data_batch_processing_handle\<close> is a pointer to a batch or null. \<open>release\<close>, which the
  destructor calls, decrements and then clears the pointer; a throwing decrement leaves it set.
\<close>

type_synonym 'r batch_heap = "nat \<Rightarrow> 'r data_batch option"
type_synonym handle = "nat option"

definition handle_release ::
  "handle \<Rightarrow> 'r batch_heap \<Rightarrow> unit outcome \<times> handle \<times> 'r batch_heap \<times> nat option" where
  "handle_release h heap =
     (case h of
        None \<Rightarrow> (Inr (), None, heap, None)
      | Some p \<Rightarrow>
          (case heap p of
             None \<Rightarrow> (Inl invalid_dereference, h, heap, None)
           | Some b \<Rightarrow>
               (case decrement_processing_count b of
                  (Inl e, b', cv) \<Rightarrow> (Inl e, h, heap(p \<mapsto> b'), cv)
                | (Inr _, b', cv) \<Rightarrow> (Inr (), None, heap(p \<mapsto> b'), cv))))"

text \<open>Move assignment between two different handles: release, then take the other's pointer.\<close>

definition handle_move_assign ::
  "handle \<Rightarrow> handle \<Rightarrow> 'r batch_heap \<Rightarrow> unit outcome \<times> handle \<times> handle \<times> 'r batch_heap \<times> nat option"
where
  "handle_move_assign this other heap =
     (case handle_release this heap of
        (Inl e, this', heap', cv) \<Rightarrow> (Inl e, this', other, heap', cv)
      | (Inr _, this', heap', cv) \<Rightarrow> (Inr (), other, None, heap', cv))"

end
