(* ===== verification/Batch_Lifecycle.thy ===== *)
theory Batch_Lifecycle
  imports Data_Batch
begin

text \<open>
  What the lifecycle of a batch guarantees: the documented transition table, the safety of the
  processing handles in every reachable state of the public interface, and the abstract counter
  machine that the batch implements when an in-transit lock is released to the state its
  pending tasks call for.
\<close>

section \<open>The transition table\<close>

text \<open>
  The table of \<open>docs/data_batch_state_transitions.md\<close>, closed under "no change", together with
  \<open>processing -> task_created\<close> on release, which the code takes when tasks are pending.
\<close>

inductive allowed_transition :: "batch_state \<Rightarrow> batch_state \<Rightarrow> bool" where
  stay: "allowed_transition s s"
| create: "allowed_transition idle task_created"
| lock_transit: "allowed_transition idle in_transit"
| pending_transit: "allowed_transition task_created in_transit"
| start: "allowed_transition task_created processing"
| cancel: "allowed_transition task_created idle"
| finish: "allowed_transition processing idle"
| finish_pending: "allowed_transition processing task_created"
| arrive: "allowed_transition in_transit idle"
| arrive_pending: "allowed_transition in_transit task_created"

inductive_simps allowed_from_idle [simp]: "allowed_transition idle s"
inductive_simps allowed_from_task_created [simp]: "allowed_transition task_created s"
inductive_simps allowed_from_processing [simp]: "allowed_transition processing s"
inductive_simps allowed_from_in_transit [simp]: "allowed_transition in_transit s"

datatype 'r batch_call =
    Create_task
  | Cancel_task
  | Lock_for_processing memory_space_id
  | Lock_for_in_transit
  | Release_in_transit "batch_state option"
  | Set_data "'r idata_representation option"
  | Set_cv "nat option"
  | Convert_to "'r idata_representation \<Rightarrow> 'r idata_representation outcome"
  | Release_handle
  | Move_from
  | Move_into "'r data_batch"

text \<open>The batch after a call, whether it returned or threw.\<close>

fun batch_after :: "'r batch_call \<Rightarrow> 'r data_batch \<Rightarrow> 'r data_batch" where
  "batch_after Create_task b = fst (snd (try_to_create_task b))"
| "batch_after Cancel_task b = fst (snd (try_to_cancel_task b))"
| "batch_after (Lock_for_processing m) b = fst (snd (try_to_lock_for_processing m b))"
| "batch_after Lock_for_in_transit b = fst (snd (try_to_lock_for_in_transit b))"
| "batch_after (Release_in_transit t) b = fst (snd (try_to_release_in_transit t b))"
| "batch_after (Set_data d) b = fst (snd (set_data d b))"
| "batch_after (Set_cv cv) b = set_state_change_cv cv b"
| "batch_after (Convert_to f) b = fst (snd (convert_to f b))"
| "batch_after Release_handle b = fst (snd (decrement_processing_count b))"
| "batch_after Move_from b = snd (move_construct b)"
| "batch_after (Move_into other) b = fst (snd (move_assign b other))"

fun documented_target :: "'r batch_call \<Rightarrow> bool" where
  "documented_target (Release_in_transit t) \<longleftrightarrow> t \<in> {None, Some idle, Some task_created}"
| "documented_target _ \<longleftrightarrow> True"

lemma move_after [simp]:
  "processing_count (snd (move_construct b)) = processing_count b"
  "batch_state (snd (move_construct b)) = batch_state b"
  "task_created_count (snd (move_construct b)) = task_created_count b"
  "processing_count (fst (snd (move_assign b c))) = processing_count b"
  "batch_state (fst (snd (move_assign b c))) = batch_state b"
  "task_created_count (fst (snd (move_assign b c))) = task_created_count b"
  by (simp_all add: move_construct_def move_assign_def Let_def)

text \<open>
  Every call, on every branch, moves the batch along the transition table, as long
  as an in-transit lock is released to one of the documented targets.
\<close>

theorem transitions_allowed:
  assumes "documented_target c"
  shows "allowed_transition (batch_state b) (batch_state (batch_after c b))"
proof (cases c)
  case (Convert_to f)
  then show ?thesis
    by (auto simp: convert_to_def intro: stay split: option.splits sum.splits)
next
  case (Release_in_transit t)
  with assms show ?thesis
    by (auto simp: try_to_release_in_transit_def intro: allowed_transition.intros)
qed (auto simp: batch_ops Let_def intro: allowed_transition.intros
       split: option.splits batch_state.splits)

theorem transitions_allowed_witness:
  "allowed_transition in_transit (batch_state (batch_after (Release_in_transit None)
     ((new_data_batch 7 None :: unit data_batch)\<lparr>batch_state := in_transit\<rparr>)))"
  using transitions_allowed [of "Release_in_transit None"
      "(new_data_batch 7 None :: unit data_batch)\<lparr>batch_state := in_transit\<rparr>"]
  by simp

text \<open>A notification goes out exactly when a call changed the state and a variable is set, up
  to the processing lock, which notifies on every success.\<close>

lemma notify_iff_state_change:
  assumes "snd (snd (try_to_create_task b)) = Some cv \<or> snd (snd (try_to_cancel_task b)) = Some cv
           \<or> snd (snd (decrement_processing_count b)) = Some cv"
  shows "state_change_cv b = Some cv"
  using assms by (auto simp: batch_ops Let_def split: if_splits)

section \<open>Reachable states: a batch and its live handles\<close>

record 'r batch_sys =
  the_batch :: "'r data_batch"
  live_handles :: nat

fun locks :: "'r batch_call \<Rightarrow> 'r data_batch \<Rightarrow> bool" where
  "locks (Lock_for_processing m) b \<longleftrightarrow> fst (try_to_lock_for_processing m b) = Inr success"
| "locks _ b \<longleftrightarrow> False"

text \<open>
  Any public call can happen at any time, from any thread; a release needs a live handle. The
  number of handles stays below \<open>2 ^ 64\<close>, as the objects that hold them fit in memory.
\<close>

inductive batch_step :: "'r batch_sys \<Rightarrow> 'r batch_sys \<Rightarrow> bool" where
  call: "c \<noteq> Release_handle \<Longrightarrow> \<not> locks c (the_batch s) \<Longrightarrow>
     batch_step s (s\<lparr>the_batch := batch_after c (the_batch s)\<rparr>)"
| lock: "locks c (the_batch s) \<Longrightarrow> live_handles s + 1 < 2 ^ 64 \<Longrightarrow>
     batch_step s (s\<lparr>the_batch := batch_after c (the_batch s), live_handles := live_handles s + 1\<rparr>)"
| release: "0 < live_handles s \<Longrightarrow>
     batch_step s (s\<lparr>the_batch := batch_after Release_handle (the_batch s),
                     live_handles := live_handles s - 1\<rparr>)"

inductive batch_reachable :: "'r batch_sys \<Rightarrow> bool" where
  init: "batch_reachable \<lparr>the_batch = new_data_batch i d, live_handles = 0\<rparr>"
| step: "batch_reachable s \<Longrightarrow> batch_step s t \<Longrightarrow> batch_reachable t"

definition handle_inv :: "'r batch_sys \<Rightarrow> bool" where
  "handle_inv s \<longleftrightarrow>
     live_handles s < 2 ^ 64 \<and>
     processing_count (the_batch s) = of_nat (live_handles s) \<and>
     (0 < live_handles s \<longrightarrow> batch_state (the_batch s) = processing)"

lemma of_nat_u64_0_iff: "n < 2 ^ 64 \<Longrightarrow> (of_nat n :: u64) = 0 \<longleftrightarrow> n = 0"
  by (auto simp: word_of_nat_eq_0_iff dest: dvd_imp_le)

lemma lock_failed:
  "fst (try_to_lock_for_processing m b) \<noteq> Inr success \<Longrightarrow>
   fst (snd (try_to_lock_for_processing m b)) = b"
  by (auto simp: try_to_lock_for_processing_def split: option.splits)

lemma lock_succeeded:
  "fst (try_to_lock_for_processing m b) = Inr success \<Longrightarrow>
   fst (snd (try_to_lock_for_processing m b)) =
     b\<lparr>task_created_count := task_created_count b - 1,
       processing_count := processing_count b + 1, batch_state := processing\<rparr>"
  by (auto simp: try_to_lock_for_processing_def split: option.splits if_splits)

lemma call_keeps_handle_inv:
  assumes inv: "handle_inv s" and c: "c \<noteq> Release_handle" "\<not> locks c (the_batch s)"
  shows "handle_inv (s\<lparr>the_batch := batch_after c (the_batch s)\<rparr>)"
proof -
  have zero: "processing_count (the_batch s) = 0 \<longleftrightarrow> live_handles s = 0"
    using inv of_nat_u64_0_iff [of "live_handles s"] by (simp add: handle_inv_def)
  show ?thesis
  proof (cases c)
    case (Convert_to f)
    with inv show ?thesis
      by (auto simp: handle_inv_def convert_to_def split: option.splits sum.splits)
  next
    case (Release_in_transit t)
    with inv show ?thesis
      by (auto simp: handle_inv_def try_to_release_in_transit_def)
  next
    case (Lock_for_processing m)
    with inv c show ?thesis by (simp add: lock_failed)
  qed (use inv c zero in \<open>auto simp: handle_inv_def batch_ops Let_def split: option.splits\<close>)
qed

lemma lock_keeps_handle_inv:
  assumes "handle_inv s" and "locks c (the_batch s)" and "live_handles s + 1 < 2 ^ 64"
  shows "handle_inv (s\<lparr>the_batch := batch_after c (the_batch s), live_handles := live_handles s + 1\<rparr>)"
  using assms
  by (cases c) (auto simp: handle_inv_def lock_succeeded add.commute)

lemma release_keeps_handle_inv:
  assumes inv: "handle_inv s" and live: "0 < live_handles s"
  shows "fst (decrement_processing_count (the_batch s)) = Inr ()"
    and "handle_inv (s\<lparr>the_batch := batch_after Release_handle (the_batch s),
                       live_handles := live_handles s - 1\<rparr>)"
proof -
  obtain n where n: "live_handles s = Suc n" using live by (cases "live_handles s") auto
  with inv have "processing_count (the_batch s) = of_nat n + 1" "n < 2 ^ 64"
    and st: "batch_state (the_batch s) = processing"
    by (auto simp: handle_inv_def)
  moreover have "(of_nat n + 1 :: u64) \<noteq> 0"
    using inv n of_nat_u64_0_iff [of "Suc n"] by (simp add: handle_inv_def add.commute)
  ultimately show "fst (decrement_processing_count (the_batch s)) = Inr ()"
    and "handle_inv (s\<lparr>the_batch := batch_after Release_handle (the_batch s),
                       live_handles := live_handles s - 1\<rparr>)"
    using inv n of_nat_u64_0_iff [of n]
    by (auto simp: handle_inv_def decrement_processing_count_def Let_def)
qed

lemma reachable_handle_inv: "batch_reachable s \<Longrightarrow> handle_inv s"
proof (induction rule: batch_reachable.induct)
  case (init i d)
  show ?case by (simp add: handle_inv_def new_data_batch_def)
next
  case (step s t)
  from step.hyps(2) step.IH show ?case
    using call_keeps_handle_inv lock_keeps_handle_inv release_keeps_handle_inv(2)
    by cases blast+
qed

text \<open>
  Property C1. In every reachable state a live handle can be released: the decrement that the
  handle's destructor runs never throws, so it never terminates the program, whatever sequence
  of calls, even with undocumented release targets, came before.
\<close>

theorem handle_release_never_throws:
  assumes "batch_reachable s" and "0 < live_handles s"
  shows "fst (decrement_processing_count (the_batch s)) = Inr ()"
  using assms reachable_handle_inv release_keeps_handle_inv(1) by blast

definition locked_example :: "unit batch_sys" where
  "locked_example =
     \<lparr>the_batch = (new_data_batch 7 (Some \<lparr>rep_memory_space = memory_space_id GPU 0, payload = ()\<rparr>))
        \<lparr>processing_count := 1, batch_state := processing\<rparr>,
      live_handles = 1\<rparr>"

lemma locked_example_reachable: "batch_reachable locked_example"
proof -
  let ?d = "Some \<lparr>rep_memory_space = memory_space_id GPU 0, payload = ()\<rparr>"
  let ?b1 = "(new_data_batch 7 ?d)\<lparr>task_created_count := 1, batch_state := task_created\<rparr>"
  have 1: "batch_reachable \<lparr>the_batch = new_data_batch 7 ?d, live_handles = 0\<rparr>"
    by (rule batch_reachable.init)
  have "batch_step \<lparr>the_batch = new_data_batch 7 ?d, live_handles = 0\<rparr>
                   \<lparr>the_batch = ?b1, live_handles = 0\<rparr>"
    using batch_step.call [of Create_task "\<lparr>the_batch = new_data_batch 7 ?d, live_handles = 0\<rparr>"]
    by (simp add: try_to_create_task_def new_data_batch_def)
  with 1 have 2: "batch_reachable \<lparr>the_batch = ?b1, live_handles = 0\<rparr>"
    by (rule batch_reachable.step)
  have "batch_step \<lparr>the_batch = ?b1, live_handles = 0\<rparr> locked_example"
    using batch_step.lock [of "Lock_for_processing (memory_space_id GPU 0)"
        "\<lparr>the_batch = ?b1, live_handles = 0\<rparr>"]
    by (simp add: try_to_lock_for_processing_def new_data_batch_def locked_example_def)
  with 2 show ?thesis by (rule batch_reachable.step)
qed

theorem handle_release_never_throws_witness:
  "fst (decrement_processing_count (the_batch locked_example)) = Inr ()"
  by (rule handle_release_never_throws [OF locked_example_reachable])
     (simp add: locked_example_def)

text \<open>
  The data of a batch with live handles after a call: every call but the two moves keeps it. The
  move constructor takes it before it looks at the processing count, and move assignment looks at
  the count of its source only.
\<close>

definition data_under_handles :: "'r batch_call \<Rightarrow> 'r data_batch \<Rightarrow> 'r idata_representation option" where
  "data_under_handles c b =
     (case c of
        Move_from \<Rightarrow> None
      | Move_into other \<Rightarrow> (if processing_count other \<noteq> 0 then batch_data b else batch_data other)
      | _ \<Rightarrow> batch_data b)"

text \<open>
  Property C2. In every reachable state with live handles the batch is in the state processing, its
  processing count is the number of live handles, and the data of the batch after any call is the
  data it had: setting and converting are refused, and nothing else replaces it. The exceptions
  are the moves, which the theorem spells out: moving from the batch leaves it without data, and
  moving another batch into it replaces the data under the handles.
\<close>

theorem data_pinned_by_handles:
  assumes "batch_reachable s" and "0 < live_handles s"
  shows "batch_state (the_batch s) = processing
         \<and> processing_count (the_batch s) = of_nat (live_handles s)
         \<and> batch_data (batch_after c (the_batch s)) = data_under_handles c (the_batch s)"
proof -
  have inv: "handle_inv s" by (rule reachable_handle_inv [OF assms(1)])
  with assms(2) have "processing_count (the_batch s) \<noteq> 0"
    using of_nat_u64_0_iff [of "live_handles s"] by (simp add: handle_inv_def)
  then have "batch_data (batch_after c (the_batch s)) = data_under_handles c (the_batch s)"
    by (cases c)
       (auto simp: batch_ops data_under_handles_def move_construct_def move_assign_def Let_def
        split: option.splits)
  with inv assms(2) show ?thesis by (simp add: handle_inv_def)
qed

theorem data_pinned_by_handles_witness:
  "batch_state (the_batch locked_example) = processing
   \<and> processing_count (the_batch locked_example) = 1
   \<and> batch_data (batch_after (Set_data None) (the_batch locked_example)) = batch_data (the_batch locked_example)"
proof -
  have live: "0 < live_handles locked_example" by (simp add: locked_example_def)
  show ?thesis
    using data_pinned_by_handles [OF locked_example_reachable live, of "Set_data None"]
    by (simp add: data_under_handles_def locked_example_def)
qed

section \<open>The counter machine a batch implements\<close>

text \<open>
  The contract of the lifecycle, without the state field: how many tasks are pending, how many
  handles are processing, and whether the batch is being moved. The state a client sees is a
  function of these three.
\<close>

record abs_batch =
  a_tasks :: nat
  a_procs :: nat
  a_transit :: bool

definition abs_state :: "abs_batch \<Rightarrow> batch_state" where
  "abs_state a =
     (if a_transit a then in_transit else if 0 < a_procs a then processing
      else if 0 < a_tasks a then task_created else idle)"

definition abs_create :: "abs_batch \<Rightarrow> (unit + bool) \<times> abs_batch" where
  "abs_create a = (if a_transit a then (Inr False, a) else (Inr True, a\<lparr>a_tasks := a_tasks a + 1\<rparr>))"

definition abs_cancel :: "abs_batch \<Rightarrow> (unit + bool) \<times> abs_batch" where
  "abs_cancel a =
     (if a_transit a \<or> (a_tasks a = 0 \<and> a_procs a = 0) then (Inr False, a)
      else if a_tasks a = 0 then (Inl (), a)
      else (Inr True, a\<lparr>a_tasks := a_tasks a - 1\<rparr>))"

definition abs_start :: "abs_batch \<Rightarrow> (unit + lock_for_processing_status) \<times> abs_batch" where
  "abs_start a =
     (if a_tasks a = 0 then (Inr task_not_created, a)
      else if a_transit a then (Inr invalid_state, a)
      else (Inr success, a\<lparr>a_tasks := a_tasks a - 1, a_procs := a_procs a + 1\<rparr>))"

definition abs_depart :: "abs_batch \<Rightarrow> (unit + bool) \<times> abs_batch" where
  "abs_depart a =
     (if a_transit a \<or> 0 < a_procs a then (Inr False, a) else (Inr True, a\<lparr>a_transit := True\<rparr>))"

definition abs_arrive :: "abs_batch \<Rightarrow> (unit + bool) \<times> abs_batch" where
  "abs_arrive a = (if a_transit a then (Inr True, a\<lparr>a_transit := False\<rparr>) else (Inr False, a))"

definition abs_finish :: "abs_batch \<Rightarrow> (unit + unit) \<times> abs_batch" where
  "abs_finish a = (if a_procs a = 0 then (Inl (), a) else (Inr (), a\<lparr>a_procs := a_procs a - 1\<rparr>))"

definition abs_of :: "'r data_batch \<Rightarrow> abs_batch" where
  "abs_of b = \<lparr>a_tasks = unat (task_created_count b), a_procs = unat (processing_count b),
               a_transit = (batch_state b = in_transit)\<rparr>"

definition wf_batch :: "'r data_batch \<Rightarrow> bool" where
  "wf_batch b \<longleftrightarrow> batch_state b = abs_state (abs_of b) \<and>
                (batch_state b = in_transit \<longrightarrow> processing_count b = 0)"

definition refines :: "('a, 'r) batch_op \<Rightarrow> (unit + 'a) \<times> abs_batch \<Rightarrow> bool" where
  "refines c a \<longleftrightarrow> wf_batch (fst (snd c)) \<and> abs_of (fst (snd c)) = snd a \<and>
                 map_sum (\<lambda>_. ()) id (fst c) = fst a"

lemma unat_inc: "unat (x :: u64) + 1 < 2 ^ 64 \<Longrightarrow> unat (x + 1) = unat x + 1"
  by (simp add: unat_add_exact)

lemma unat_dec: "(x :: u64) \<noteq> 0 \<Longrightarrow> unat (x - 1) = unat x - 1"
  by (metis unat_minus_one)

lemma u64_pos: "0 < (x :: u64) \<longleftrightarrow> x \<noteq> 0" "0 < unat (x :: u64) \<longleftrightarrow> x \<noteq> 0"
  by (simp_all add: word_neq_0_conv unat_gt_0)

lemmas refines_defs = refines_def wf_batch_def abs_of_def abs_state_def

lemma create_refines:
  "wf_batch b \<Longrightarrow> unat (task_created_count b) + 1 < 2 ^ 64 \<Longrightarrow>
   refines (try_to_create_task b) (abs_create (abs_of b))"
  using unat_inc [of "task_created_count b"]
  by (auto simp: refines_defs try_to_create_task_def abs_create_def u64_pos split: if_splits)

lemma cancel_refines:
  "wf_batch b \<Longrightarrow> refines (try_to_cancel_task b) (abs_cancel (abs_of b))"
  using unat_dec [of "task_created_count b"]
  by (auto simp: refines_defs try_to_cancel_task_def abs_cancel_def u64_pos Let_def unat_eq_zero
      split: if_splits)

lemma start_refines:
  "wf_batch b \<Longrightarrow> get_memory_space b = Some m \<Longrightarrow> unat (processing_count b) + 1 < 2 ^ 64 \<Longrightarrow>
   refines (try_to_lock_for_processing m b) (abs_start (abs_of b))"
  using unat_dec [of "task_created_count b"] unat_inc [of "processing_count b"]
  by (auto simp: refines_defs try_to_lock_for_processing_def abs_start_def u64_pos
      get_memory_space_def unat_eq_zero split: if_splits)

lemma wf_processing:
  "wf_batch b \<Longrightarrow> batch_state b = processing \<longleftrightarrow> processing_count b \<noteq> 0"
  by (auto simp: refines_defs u64_pos split: if_splits)

lemma depart_refines:
  assumes "wf_batch b"
  shows "refines (try_to_lock_for_in_transit b) (abs_depart (abs_of b))"
proof (cases "batch_state b")
  case in_transit
  with assms show ?thesis
    by (simp add: refines_def try_to_lock_for_in_transit_def abs_depart_def abs_of_def)
next
  case processing
  with assms wf_processing [OF assms] show ?thesis
    by (simp add: refines_def try_to_lock_for_in_transit_def abs_depart_def abs_of_def u64_pos)
next
  case task_created
  with assms have "processing_count b = 0" "task_created_count b > 0"
    by (simp_all add: wf_batch_def abs_of_def abs_state_def u64_pos split: if_splits)
  with task_created show ?thesis
    by (simp add: refines_defs try_to_lock_for_in_transit_def abs_depart_def)
next
  case idle
  with assms have "processing_count b = 0"
    by (simp add: wf_batch_def abs_of_def abs_state_def u64_pos split: if_splits)
  with idle show ?thesis
    by (simp add: refines_defs try_to_lock_for_in_transit_def abs_depart_def)
qed

text \<open>
  A release to any target implements the machine exactly when there is nothing to release or the
  target is the state that the pending tasks call for.
\<close>

lemma arrive_refines_iff:
  assumes "wf_batch b"
  shows "refines (try_to_release_in_transit t b) (abs_arrive (abs_of b)) \<longleftrightarrow>
         (batch_state b = in_transit \<longrightarrow>
            case_option idle id t = (if task_created_count b = 0 then idle else task_created))"
  using assms
  by (cases t) (auto simp: refines_defs try_to_release_in_transit_def abs_arrive_def u64_pos
      unat_eq_zero split: if_splits)

lemma finish_refines:
  assumes wf: "wf_batch b"
  shows "refines (decrement_processing_count b) (abs_finish (abs_of b))"
proof (cases "processing_count b = 0")
  case True
  with wf_processing [OF wf] have "batch_state b \<noteq> processing" by simp
  with True wf show ?thesis
    by (simp add: refines_def decrement_processing_count_def abs_finish_def abs_of_def)
next
  case False
  with wf_processing [OF wf] have st: "batch_state b = processing" by simp
  have dec: "unat (processing_count b - 1) = unat (processing_count b) - 1"
    using False by (rule unat_dec)
  show ?thesis
  proof (cases "processing_count b - 1 = 0")
    case True
    with st False dec show ?thesis
      by (simp add: refines_defs decrement_processing_count_def abs_finish_def u64_pos unat_eq_zero
          split: if_splits)
  next
    case more: False
    then have "0 < unat (processing_count b) - 1" using dec u64_pos(2) by metis
    with st False dec more show ?thesis
      by (simp add: refines_defs decrement_processing_count_def abs_finish_def u64_pos unat_eq_zero
          split: if_splits)
  qed
qed

text \<open>
  Property C10. Refinement: on a well-formed batch each operation returns what the counter machine
  returns, throws when it throws, leaves a well-formed batch, and changes the counters as the
  machine does. The release from in_transit does so for a target, the default included, exactly
  when the target is task_created for a batch with pending tasks and idle for one without; the
  default release therefore does not when tasks are pending. The machine is the table of
  \<open>docs/data_batch_state_transitions.md\<close>, not the comments of \<open>data_batch.hpp\<close>: with no task
  pending a lock for processing returns task_not_created where the comment announces an
  exception, a task can be cancelled while the batch is processing where the comment says false
  is returned, and a batch with pending tasks can be locked for transit.
\<close>

theorem batch_refines_counters:
  assumes "wf_batch b" and "get_memory_space b = Some m"
    and "unat (task_created_count b) + 1 < 2 ^ 64" and "unat (processing_count b) + 1 < 2 ^ 64"
  shows "refines (try_to_create_task b) (abs_create (abs_of b)) \<and>
         refines (try_to_cancel_task b) (abs_cancel (abs_of b)) \<and>
         refines (try_to_lock_for_processing m b) (abs_start (abs_of b)) \<and>
         refines (try_to_lock_for_in_transit b) (abs_depart (abs_of b)) \<and>
         (refines (try_to_release_in_transit t b) (abs_arrive (abs_of b)) \<longleftrightarrow>
            (batch_state b = in_transit \<longrightarrow>
               case_option idle id t = (if task_created_count b = 0 then idle else task_created))) \<and>
         refines (decrement_processing_count b) (abs_finish (abs_of b))"
  using assms create_refines cancel_refines start_refines depart_refines arrive_refines_iff finish_refines
  by blast

definition idle_example :: "unit data_batch" where
  "idle_example = new_data_batch 7 (Some \<lparr>rep_memory_space = memory_space_id GPU 0, payload = ()\<rparr>)"

definition moving_example :: "unit data_batch" where
  "moving_example = idle_example\<lparr>task_created_count := 1, batch_state := in_transit\<rparr>"

theorem batch_refines_counters_witness:
  "refines (try_to_create_task moving_example) (abs_create (abs_of moving_example)) \<and>
   refines (try_to_release_in_transit (Some task_created) moving_example) (abs_arrive (abs_of moving_example)) \<and>
   \<not> refines (try_to_release_in_transit None moving_example) (abs_arrive (abs_of moving_example))"
proof -
  have wf: "wf_batch moving_example"
    by (simp add: moving_example_def idle_example_def new_data_batch_def refines_defs)
  have m: "get_memory_space moving_example = Some (memory_space_id GPU 0)"
    by (simp add: moving_example_def idle_example_def new_data_batch_def get_memory_space_def)
  have n: "unat (task_created_count moving_example) + 1 < 2 ^ 64"
    "unat (processing_count moving_example) + 1 < 2 ^ 64"
    by (simp_all add: moving_example_def idle_example_def new_data_batch_def)
  show ?thesis
    using batch_refines_counters [OF wf m n, of None]
      batch_refines_counters [OF wf m n, of "Some task_created"]
    by (simp add: moving_example_def)
qed

section \<open>Where the code falls short of the contract\<close>

text \<open>
  Property C37. The default release strands a pending task: a batch moved between the creation of a
  task and its start comes back \<open>idle\<close> with the task still counted, and from there the task can
  neither be started (\<open>invalid_state\<close>) nor cancelled.
\<close>

theorem default_release_strands_task:
  assumes "batch_state b = idle" and "processing_count b = 0" and "task_created_count b = 0"
    and "get_memory_space b = Some m"
  defines "b3 \<equiv> batch_after (Release_in_transit None)
                   (batch_after Lock_for_in_transit (batch_after Create_task b))"
  shows "task_created_count b3 = 1 \<and> batch_state b3 = idle \<and>
         fst (try_to_lock_for_processing m b3) = Inr invalid_state \<and>
         fst (try_to_cancel_task b3) = Inr False"
  using assms(1-4)
  by (auto simp: b3_def batch_ops get_memory_space_def)

theorem default_release_strands_task_witness:
  "fst (try_to_lock_for_processing (memory_space_id GPU 0)
     (batch_after (Release_in_transit None)
       (batch_after Lock_for_in_transit (batch_after Create_task idle_example)))) = Inr invalid_state"
  using default_release_strands_task [of idle_example "memory_space_id GPU 0"]
  by (simp add: idle_example_def new_data_batch_def get_memory_space_def)

text \<open>
  The move constructor is not exception safe: refusing to move a batch that is being
  processed it has already taken, and destroys, the data; move assignment refuses cleanly.
\<close>

theorem refused_move_loses_data:
  assumes "processing_count b \<noteq> 0"
  shows "\<not> returns (fst (move_construct b)) \<and> batch_data (snd (move_construct b)) = None \<and>
         \<not> returns (fst (move_assign this b)) \<and> snd (snd (move_assign this b)) = b"
  using assms by (simp add: move_construct_def move_assign_def Let_def)

theorem refused_move_loses_data_witness:
  "batch_data (the_batch locked_example) \<noteq> None \<and>
   batch_data (snd (move_construct (the_batch locked_example))) = None"
proof -
  have pc: "processing_count (the_batch locked_example) \<noteq> 0" by (simp add: locked_example_def)
  have "batch_data (the_batch locked_example) \<noteq> None"
    by (simp add: locked_example_def new_data_batch_def)
  then show ?thesis using refused_move_loses_data [OF pc] by blast
qed

text \<open>
  Move assignment checks the processing count of its source only: assigned over, a batch with live
  handles silently changes its data under them.
\<close>

lemma move_assign_over_live_handles:
  "batch_data (batch_after (Move_into (new_data_batch 9 None)) (the_batch locked_example)) = None \<and>
   processing_count (batch_after (Move_into (new_data_batch 9 None)) (the_batch locked_example)) = 1"
  by (simp add: locked_example_def new_data_batch_def move_assign_def)

end
