(* ===== verification/Data_Repository.thy ===== *)
theory Data_Repository
  imports Data_Batch
begin

text \<open>
  \<open>idata_repository\<close> (\<open>include/data/data_repository.hpp\<close>, \<open>src/data/data_repository.cpp\<close>):
  partitions of pointers to batches, and pops that change the state of the batch they take and
  block on the repository's condition variable when no batch can change.

  A smart pointer is an address or null, in a heap of batches that repositories may share. A
  method runs under the repository's mutex; a blocking one is a loop of passes, with the heap and
  the repository that other threads left at each wake-up in between. A pass is written as one step
  here, and its result \<open>Wait\<close> is the decision to wait. That the calls on batches do not take the
  repository's mutex, so that batches change between the tests of a pass and before the wait, is
  modelled in \<open>Pop_Waiting\<close>, one test at a time.
  The last component of a result lists the condition variables notified.
\<close>

section \<open>State\<close>

record repository =
  repo_cv :: nat
  partitions :: "nat option list list"

definition new_repository :: "nat \<Rightarrow> repository" where
  "new_repository cv = \<lparr>repo_cv = cv, partitions = [[]]\<rparr>"

definition deref :: "'r batch_heap \<Rightarrow> nat option \<Rightarrow> (nat \<times> 'r data_batch) option" where
  "deref heap p = (case p of None \<Rightarrow> None | Some a \<Rightarrow> map_option (Pair a) (heap a))"

lemma deref_simps [simp]:
  "deref heap None = None"
  "deref heap (Some a) = map_option (Pair a) (heap a)"
  "deref heap p = Some ab \<longleftrightarrow> p = Some (fst ab) \<and> heap (fst ab) = Some (snd ab)"
  by (auto simp: deref_def split: option.splits)

definition resize :: "nat \<Rightarrow> 'a list list \<Rightarrow> 'a list list" where
  "resize n xs = take n xs @ replicate (n - length xs) []"

lemma length_resize [simp]: "length (resize n xs) = n"
  by (simp add: resize_def)

section \<open>Adding\<close>

definition add_data_batch ::
  "nat option \<Rightarrow> u64 \<Rightarrow> 'r batch_heap \<Rightarrow> repository \<Rightarrow>
   unit outcome \<times> 'r batch_heap \<times> repository \<times> nat list"
where
  "add_data_batch batch partition_idx heap repo =
     (let i = unat partition_idx;
          heap' = (case deref heap batch of
                     None \<Rightarrow> heap
                   | Some (a, b) \<Rightarrow> heap(a \<mapsto> set_state_change_cv (Some (repo_cv repo)) b));
          parts = (if i \<ge> length (partitions repo)
                   then resize (unat (partition_idx + 1)) (partitions repo)
                   else partitions repo)
      in if batch \<noteq> None \<and> deref heap batch = None then (Inl invalid_dereference, heap, repo, [])
         else if i \<ge> length parts
         then (Inl invalid_dereference, heap', repo\<lparr>partitions := parts\<rparr>, [])
         else (Inr (), heap', repo\<lparr>partitions := parts[i := parts ! i @ [batch]]\<rparr>, [repo_cv repo]))"

section \<open>Popping any batch\<close>

definition try_transition_batch_for_pop ::
  "batch_state \<Rightarrow> 'r data_batch \<Rightarrow> (bool, 'r) batch_op" where
  "try_transition_batch_for_pop target b =
     (case target of
        task_created \<Rightarrow> try_to_create_task b
      | processing \<Rightarrow> (Inl (runtime_error ''Pop operation cannot transition directly to processing; Pop with task_created and call try_to_lock_for_processing() on the batch''), b, None)
      | in_transit \<Rightarrow> try_to_lock_for_in_transit b
      | idle \<Rightarrow> (Inr False, b, None))"

text \<open>
  The search of one pass over a partition, for any transition \<open>tr\<close>. It stops at the first batch
  that accepts and returns its pointer with the partition it leaves.
\<close>

fun scan_for_pop ::
  "('r data_batch \<Rightarrow> (bool, 'r) batch_op) \<Rightarrow> 'r batch_heap \<Rightarrow> nat option list \<Rightarrow>
   (nat option \<times> nat option list) option outcome \<times> 'r batch_heap \<times> nat list"
where
  "scan_for_pop tr heap [] = (Inr None, heap, [])"
| "scan_for_pop tr heap (p # ps) =
     (case deref heap p of
        None \<Rightarrow> (Inl invalid_dereference, heap, [])
      | Some (a, b) \<Rightarrow>
          (case tr b of
             (Inl e, b', cv) \<Rightarrow> (Inl e, heap(a \<mapsto> b'), list_of_option cv)
           | (Inr True, b', cv) \<Rightarrow> (Inr (Some (p, ps)), heap(a \<mapsto> b'), list_of_option cv)
           | (Inr False, b', cv) \<Rightarrow>
               (case scan_for_pop tr (heap(a \<mapsto> b')) ps of
                  (Inl e, heap', cvs) \<Rightarrow> (Inl e, heap', list_of_option cv @ cvs)
                | (Inr None, heap', cvs) \<Rightarrow> (Inr None, heap', list_of_option cv @ cvs)
                | (Inr (Some (q, qs)), heap', cvs) \<Rightarrow>
                    (Inr (Some (q, p # qs)), heap', list_of_option cv @ cvs))))"

datatype 'a pass = Done "'a outcome" | Wait

definition pop_pass ::
  "batch_state \<Rightarrow> nat \<Rightarrow> 'r batch_heap \<Rightarrow> repository \<Rightarrow>
   nat option pass \<times> 'r batch_heap \<times> repository \<times> nat list"
where
  "pop_pass target i heap repo =
     (if i \<ge> length (partitions repo) then (Done (Inl invalid_dereference), heap, repo, [])
      else if partitions repo ! i = [] then (Done (Inr None), heap, repo, [])
      else (case scan_for_pop (try_transition_batch_for_pop target) heap (partitions repo ! i) of
              (Inl e, heap', cvs) \<Rightarrow> (Done (Inl e), heap', repo, cvs)
            | (Inr None, heap', cvs) \<Rightarrow> (Wait, heap', repo, cvs)
            | (Inr (Some (p, rest)), heap', cvs) \<Rightarrow>
                (Done (Inr p), heap', repo\<lparr>partitions := (partitions repo)[i := rest]\<rparr>, cvs)))"

text \<open>
  The loop around the passes, for any pass: \<open>None\<close> is a caller still blocked when the list of
  wake-ups ends.
\<close>

fun run_passes ::
  "('r batch_heap \<Rightarrow> repository \<Rightarrow> 'a pass \<times> 'r batch_heap \<times> repository \<times> nat list) \<Rightarrow>
   ('r batch_heap \<times> repository) list \<Rightarrow> 'r batch_heap \<Rightarrow> repository \<Rightarrow>
   ('a outcome \<times> 'r batch_heap \<times> repository) option"
where
  "run_passes one [] heap repo =
     (case one heap repo of
        (Done r, heap', repo', cvs) \<Rightarrow> Some (r, heap', repo')
      | (Wait, heap', repo', cvs) \<Rightarrow> None)"
| "run_passes one ((heap2, repo2) # wakeups) heap repo =
     (case one heap repo of
        (Done r, heap', repo', cvs) \<Rightarrow> Some (r, heap', repo')
      | (Wait, heap', repo', cvs) \<Rightarrow> run_passes one wakeups heap2 repo2)"

definition pop_data_batch ::
  "('r batch_heap \<times> repository) list \<Rightarrow> batch_state \<Rightarrow> u64 \<Rightarrow> 'r batch_heap \<Rightarrow> repository \<Rightarrow>
   (nat option outcome \<times> 'r batch_heap \<times> repository) option"
where
  "pop_data_batch wakeups target partition_idx heap repo =
     (if unat partition_idx \<ge> length (partitions repo)
      then Some (Inl (out_of_range ''partition_idx out of range''), heap, repo)
      else run_passes (pop_pass target (unat partition_idx)) wakeups heap repo)"

section \<open>Finding a batch by its identifier\<close>

fun find_batch :: "'r batch_heap \<Rightarrow> u64 \<Rightarrow> nat option list \<Rightarrow> nat option outcome" where
  "find_batch heap i [] = Inr None"
| "find_batch heap i (p # ps) =
     (case deref heap p of
        None \<Rightarrow> Inl invalid_dereference
      | Some (a, b) \<Rightarrow>
          if batch_id b = i then Inr (Some 0) else map_sum id (map_option Suc) (find_batch heap i ps))"

definition remove_at :: "nat \<Rightarrow> 'a list \<Rightarrow> 'a list" where
  "remove_at k xs = take k xs @ drop (Suc k) xs"

text \<open>
  One pass of a search by identifier with a target state. \<open>take_it\<close> says whether the pointer
  leaves the repository (\<open>pop_data_batch_by_id\<close>) or is copied (\<open>get_data_batch_by_id\<close> on a
  \<open>shared_ptr\<close> repository, which has its own message for \<open>processing\<close>).
\<close>

definition transition_by_id :: "bool \<Rightarrow> batch_state \<Rightarrow> 'r data_batch \<Rightarrow> (bool, 'r) batch_op" where
  "transition_by_id take_it target b =
     (if target = processing \<and> \<not> take_it
      then (Inl (runtime_error ''get_data_batch_by_id cannot transition directly to processing; use pop_data_batch with task_created and call try_to_lock_for_processing() on the batch''), b, None)
      else try_transition_batch_for_pop target b)"

definition by_id_pass ::
  "bool \<Rightarrow> u64 \<Rightarrow> batch_state \<Rightarrow> nat \<Rightarrow> 'r batch_heap \<Rightarrow> repository \<Rightarrow>
   nat option pass \<times> 'r batch_heap \<times> repository \<times> nat list"
where
  "by_id_pass take_it bid target i heap repo =
     (if i \<ge> length (partitions repo) then (Done (Inl invalid_dereference), heap, repo, [])
      else (case find_batch heap bid (partitions repo ! i) of
              Inl e \<Rightarrow> (Done (Inl e), heap, repo, [])
            | Inr None \<Rightarrow> (Done (Inr None), heap, repo, [])
            | Inr (Some k) \<Rightarrow>
                (case deref heap (partitions repo ! i ! k) of
                   None \<Rightarrow> (Done (Inl invalid_dereference), heap, repo, [])
                 | Some (a, b) \<Rightarrow>
                     (case transition_by_id take_it target b of
                        (Inl e, b', cv) \<Rightarrow> (Done (Inl e), heap(a \<mapsto> b'), repo, list_of_option cv)
                      | (Inr False, b', cv) \<Rightarrow> (Wait, heap(a \<mapsto> b'), repo, list_of_option cv)
                      | (Inr True, b', cv) \<Rightarrow>
                          (Done (Inr (partitions repo ! i ! k)), heap(a \<mapsto> b'),
                           (if take_it
                            then repo\<lparr>partitions := (partitions repo)[i := remove_at k (partitions repo ! i)]\<rparr>
                            else repo),
                           list_of_option cv)))))"

definition by_id_now ::
  "bool \<Rightarrow> u64 \<Rightarrow> nat \<Rightarrow> 'r batch_heap \<Rightarrow> repository \<Rightarrow> nat option outcome \<times> 'r batch_heap \<times> repository"
where
  "by_id_now take_it bid i heap repo =
     (case find_batch heap bid (partitions repo ! i) of
        Inl e \<Rightarrow> (Inl e, heap, repo)
      | Inr None \<Rightarrow> (Inr None, heap, repo)
      | Inr (Some k) \<Rightarrow>
          (Inr (partitions repo ! i ! k), heap,
           (if take_it
            then repo\<lparr>partitions := (partitions repo)[i := remove_at k (partitions repo ! i)]\<rparr>
            else repo)))"

definition pop_data_batch_by_id ::
  "('r batch_heap \<times> repository) list \<Rightarrow> u64 \<Rightarrow> batch_state option \<Rightarrow> u64 \<Rightarrow> 'r batch_heap \<Rightarrow>
   repository \<Rightarrow> (nat option outcome \<times> 'r batch_heap \<times> repository) option"
where
  "pop_data_batch_by_id wakeups bid target partition_idx heap repo =
     (if unat partition_idx \<ge> length (partitions repo)
      then Some (Inl (out_of_range ''partition_idx out of range''), heap, repo)
      else (case target of
              None \<Rightarrow> Some (by_id_now True bid (unat partition_idx) heap repo)
            | Some t \<Rightarrow> run_passes (by_id_pass True bid t (unat partition_idx)) wakeups heap repo))"

definition get_data_batch_by_id_shared ::
  "('r batch_heap \<times> repository) list \<Rightarrow> u64 \<Rightarrow> batch_state option \<Rightarrow> u64 \<Rightarrow> 'r batch_heap \<Rightarrow>
   repository \<Rightarrow> (nat option outcome \<times> 'r batch_heap \<times> repository) option"
where
  "get_data_batch_by_id_shared wakeups bid target partition_idx heap repo =
     (if unat partition_idx \<ge> length (partitions repo)
      then Some (Inl (out_of_range ''partition_idx out of range''), heap, repo)
      else (case target of
              None \<Rightarrow> Some (by_id_now False bid (unat partition_idx) heap repo)
            | Some t \<Rightarrow> run_passes (by_id_pass False bid t (unat partition_idx)) wakeups heap repo))"

definition get_data_batch_by_id_unique :: "repository \<Rightarrow> nat option outcome \<times> repository" where
  "get_data_batch_by_id_unique repo =
     (Inl (runtime_error ''get_data_batch_by_id is not supported for unique_ptr repositories. Use pop_data_batch to move ownership instead.''), repo)"

section \<open>Queries\<close>

fun collect_ids :: "'r batch_heap \<Rightarrow> nat option list \<Rightarrow> u64 list outcome" where
  "collect_ids heap [] = Inr []"
| "collect_ids heap (p # ps) =
     (case deref heap p of
        None \<Rightarrow> Inl invalid_dereference
      | Some (a, b) \<Rightarrow> map_sum id (Cons (batch_id b)) (collect_ids heap ps))"

definition get_batch_ids :: "u64 \<Rightarrow> 'r batch_heap \<Rightarrow> repository \<Rightarrow> u64 list outcome" where
  "get_batch_ids partition_idx heap repo =
     (if unat partition_idx \<ge> length (partitions repo)
      then Inl (out_of_range ''partition_idx out of range'')
      else collect_ids heap (partitions repo ! unat partition_idx))"

definition repo_size :: "u64 \<Rightarrow> repository \<Rightarrow> nat outcome" where
  "repo_size partition_idx repo =
     (if unat partition_idx \<ge> length (partitions repo)
      then Inl (out_of_range ''partition_idx out of range'')
      else Inr (length (partitions repo ! unat partition_idx)))"

definition repo_empty :: "u64 \<Rightarrow> repository \<Rightarrow> bool outcome" where
  "repo_empty partition_idx repo = map_sum id (\<lambda>n. n = 0) (repo_size partition_idx repo)"

definition total_size :: "repository \<Rightarrow> nat" where
  "total_size repo = foldl (\<lambda>total part. total + length part) 0 (partitions repo)"

definition all_empty :: "repository \<Rightarrow> bool" where
  "all_empty repo = list_all (\<lambda>part. part = []) (partitions repo)"

definition num_partitions :: "repository \<Rightarrow> nat" where
  "num_partitions repo = length (partitions repo)"

end
