(* ===== verification/Repository_Pop.thy ===== *)
theory Repository_Pop
  imports Data_Repository Batch_Lifecycle "HOL-Library.Multiset"
begin

text \<open>
  What the pops of a repository guarantee. The repository relies on its batches through a
  narrow interface, the locale \<open>pop_transition\<close>: a transition answers yes or no, a refusal
  changes nothing, and the identifier stays. The behaviour of the search is proved once for any
  such transition and instantiated at the three that the code uses.
\<close>

section \<open>The interface between repository and batch\<close>

definition ready :: "('r data_batch \<Rightarrow> (bool, 'r) batch_op) \<Rightarrow> 'r batch_heap \<Rightarrow> nat option \<Rightarrow> bool" where
  "ready tr heap p = (case deref heap p of None \<Rightarrow> False | Some (a, b) \<Rightarrow> fst (tr b) = Inr True)"

definition transition_at ::
  "('r data_batch \<Rightarrow> (bool, 'r) batch_op) \<Rightarrow> 'r batch_heap \<Rightarrow> nat option \<Rightarrow> 'r batch_heap \<times> nat list"
where
  "transition_at tr heap p =
     (case deref heap p of
        None \<Rightarrow> (heap, [])
      | Some (a, b) \<Rightarrow> (heap(a \<mapsto> fst (snd (tr b))), list_of_option (snd (snd (tr b)))))"

definition all_valid :: "'r batch_heap \<Rightarrow> nat option list \<Rightarrow> bool" where
  "all_valid heap ps = list_all (\<lambda>p. deref heap p \<noteq> None) ps"

lemma all_valid_simps [simp]:
  "all_valid heap []"
  "all_valid heap (p # ps) \<longleftrightarrow> deref heap p \<noteq> None \<and> all_valid heap ps"
  "all_valid heap (ps @ qs) \<longleftrightarrow> all_valid heap ps \<and> all_valid heap qs"
  by (simp_all add: all_valid_def)

locale pop_transition =
  fixes tr :: "'r data_batch \<Rightarrow> (bool, 'r) batch_op"
  assumes total: "fst (tr b) = Inr True \<or> fst (tr b) = Inr False"
    and refuse: "fst (tr b) = Inr False \<Longrightarrow> snd (tr b) = (b, None)"
    and keeps_id: "batch_id (fst (snd (tr b))) = batch_id b"
begin

lemma not_ready_refuses:
  assumes "deref heap p = Some (a, b)" and "\<not> ready tr heap p"
  shows "tr b = (Inr False, b, None)"
  using assms total [of b] refuse [of b] by (cases "tr b") (auto simp: ready_def)

lemma ready_accepts:
  "ready tr heap p \<Longrightarrow> deref heap p = Some (a, b) \<Longrightarrow> tr b = (Inr True, snd (tr b))"
  by (cases "tr b") (auto simp: ready_def)

lemma scan_finds_first:
  assumes "all_valid heap pre" and "\<And>q. q \<in> set pre \<Longrightarrow> \<not> ready tr heap q" and "ready tr heap p"
  shows "scan_for_pop tr heap (pre @ p # post) =
           (Inr (Some (p, pre @ post)), transition_at tr heap p)"
  using assms
proof (induction pre)
  case Nil
  then obtain a b where d: "deref heap p = Some (a, b)"
    by (auto simp: ready_def split: option.splits)
  with Nil(3) show ?case
    by (cases "tr b") (auto simp: transition_at_def ready_def)
next
  case (Cons q pre)
  then obtain a b where d: "deref heap q = Some (a, b)" by auto
  have "tr b = (Inr False, b, None)"
    by (rule not_ready_refuses [OF d]) (use Cons.prems(2) in simp)
  moreover from d have "heap(a \<mapsto> b) = heap" by auto
  ultimately show ?case
    using d Cons by (cases "transition_at tr heap p") (simp add: fun_upd_idem)
qed

lemma scan_finds_none:
  assumes "all_valid heap ps" and "\<And>q. q \<in> set ps \<Longrightarrow> \<not> ready tr heap q"
  shows "scan_for_pop tr heap ps = (Inr None, heap, [])"
  using assms
proof (induction ps)
  case (Cons q ps)
  then obtain a b where d: "deref heap q = Some (a, b)" by auto
  have "tr b = (Inr False, b, None)"
    by (rule not_ready_refuses [OF d]) (use Cons.prems(2) in simp)
  moreover from d have "heap(a \<mapsto> b) = heap" by auto
  ultimately show ?case
    using d Cons by (simp add: fun_upd_idem)
qed simp

text \<open>A scan either finds no ready batch or the first one: the two lemmas cover every case.\<close>

lemma first_ready_or_none:
  "(\<forall>q \<in> set ps. \<not> ready tr heap q) \<or>
   (\<exists>pre p post. ps = pre @ p # post \<and> ready tr heap p \<and> (\<forall>q \<in> set pre. \<not> ready tr heap q))"
  using split_list_first_prop [of ps "ready tr heap"] by blast

lemma scan_never_throws:
  assumes "all_valid heap ps"
  shows "returns (fst (scan_for_pop tr heap ps))"
  using first_ready_or_none [of ps heap]
proof
  assume "\<forall>q \<in> set ps. \<not> ready tr heap q"
  with assms show ?thesis by (simp add: scan_finds_none)
next
  assume "\<exists>pre p post. ps = pre @ p # post \<and> ready tr heap p \<and> (\<forall>q \<in> set pre. \<not> ready tr heap q)"
  with assms show ?thesis by (auto simp: scan_finds_first)
qed

end

interpretation create: pop_transition try_to_create_task
  by unfold_locales (auto simp: try_to_create_task_def)

interpretation depart: pop_transition try_to_lock_for_in_transit
  by unfold_locales (auto simp: try_to_lock_for_in_transit_def)

interpretation never: pop_transition "\<lambda>b. (Inr False, b, None)"
  by unfold_locales auto

lemma try_transition_cases:
  "try_transition_batch_for_pop task_created = try_to_create_task"
  "try_transition_batch_for_pop in_transit = try_to_lock_for_in_transit"
  "try_transition_batch_for_pop idle = (\<lambda>b. (Inr False, b, None))"
  by (auto simp: try_transition_batch_for_pop_def fun_eq_iff)

text \<open>The code's transition function satisfies the interface for every target but one.\<close>

interpretation allowed: pop_transition
  "try_transition_batch_for_pop (if target = processing then idle else target)" for target
proof (cases "if target = processing then idle else target")
  case idle
  then show "pop_transition (try_transition_batch_for_pop (if target = processing then idle else target))"
    by (simp add: try_transition_cases never.pop_transition_axioms)
next
  case task_created
  then show "pop_transition (try_transition_batch_for_pop (if target = processing then idle else target))"
    by (simp add: try_transition_cases create.pop_transition_axioms)
next
  case processing
  then show "pop_transition (try_transition_batch_for_pop (if target = processing then idle else target))"
    by (simp split: if_splits)
next
  case in_transit
  then show "pop_transition (try_transition_batch_for_pop (if target = processing then idle else target))"
    by (simp add: try_transition_cases depart.pop_transition_axioms)
qed

lemma scan_first_ready:
  assumes "target \<noteq> processing" and "all_valid heap pre"
    and "\<And>q. q \<in> set pre \<Longrightarrow> \<not> ready (try_transition_batch_for_pop target) heap q"
    and "ready (try_transition_batch_for_pop target) heap p"
  shows "scan_for_pop (try_transition_batch_for_pop target) heap (pre @ p # post) =
           (Inr (Some (p, pre @ post)), transition_at (try_transition_batch_for_pop target) heap p)"
  using allowed.scan_finds_first [of heap pre target p post] assms by simp

lemma scan_none_ready:
  assumes "target \<noteq> processing" and "all_valid heap ps"
    and "\<And>q. q \<in> set ps \<Longrightarrow> \<not> ready (try_transition_batch_for_pop target) heap q"
  shows "scan_for_pop (try_transition_batch_for_pop target) heap ps = (Inr None, heap, [])"
  using allowed.scan_finds_none [of heap ps target] assms by simp

section \<open>Popping\<close>

lemma run_passes_done:
  "one heap repo = (Done r, heap', repo', cvs) \<Longrightarrow>
   run_passes one wakeups heap repo = Some (r, heap', repo')"
  by (cases wakeups) auto

lemma pop_first_ready:
  assumes "target \<noteq> processing" and "unat i < length (partitions repo)"
    and "partitions repo ! unat i = pre @ p # post" and "all_valid heap (pre @ p # post)"
    and "\<forall>q \<in> set pre. \<not> ready (try_transition_batch_for_pop target) heap q"
    and "ready (try_transition_batch_for_pop target) heap p"
  shows "pop_data_batch wakeups target i heap repo =
           Some (Inr p, fst (transition_at (try_transition_batch_for_pop target) heap p),
                 repo\<lparr>partitions := (partitions repo)[unat i := pre @ post]\<rparr>)"
proof -
  have "scan_for_pop (try_transition_batch_for_pop target) heap (partitions repo ! unat i) =
          (Inr (Some (p, pre @ post)), transition_at (try_transition_batch_for_pop target) heap p)"
    using scan_first_ready [of target heap pre p post] assms by simp
  then have "pop_pass target (unat i) heap repo =
     (Done (Inr p), fst (transition_at (try_transition_batch_for_pop target) heap p),
      repo\<lparr>partitions := (partitions repo)[unat i := pre @ post]\<rparr>,
      snd (transition_at (try_transition_batch_for_pop target) heap p))"
    using assms(2,3) by (simp add: pop_pass_def split: prod.split)
  then show ?thesis
    using assms(2) by (simp add: pop_data_batch_def run_passes_done)
qed

text \<open>
  Property C24. A pop takes the oldest batch of the partition that can make the transition: it
  returns at once, whatever would happen later; the batches before it keep their state and
  their order, the ones behind it theirs, the other partitions are untouched, and in the heap
  only the batch taken changes, by the transition.
\<close>

theorem pop_takes_first_ready:
  assumes "target \<noteq> processing" and "unat i < length (partitions repo)"
    and "partitions repo ! unat i = pre @ p # post" and "all_valid heap (pre @ p # post)"
    and "\<forall>q \<in> set pre. \<not> ready (try_transition_batch_for_pop target) heap q"
    and "ready (try_transition_batch_for_pop target) heap p"
  shows "pop_data_batch wakeups target i heap repo =
           Some (Inr p, fst (transition_at (try_transition_batch_for_pop target) heap p),
                 repo\<lparr>partitions := (partitions repo)[unat i := pre @ post]\<rparr>)"
  using assms by (rule pop_first_ready)

lemma pop_waits_iff:
  assumes "target \<noteq> processing" and "unat i < length (partitions repo)"
    and "all_valid heap (partitions repo ! unat i)"
    and "unat i < length (partitions repo2)"
  shows "(pop_data_batch [] target i heap repo = None \<longleftrightarrow>
            partitions repo ! unat i \<noteq> [] \<and>
            (\<forall>q \<in> set (partitions repo ! unat i). \<not> ready (try_transition_batch_for_pop target) heap q)) \<and>
         (pop_data_batch [] target i heap repo = None \<longrightarrow>
            pop_data_batch ((heap2, repo2) # wakeups) target i heap repo =
            pop_data_batch wakeups target i heap2 repo2)"
proof (cases "\<forall>q \<in> set (partitions repo ! unat i). \<not> ready (try_transition_batch_for_pop target) heap q")
  case True
  then have "scan_for_pop (try_transition_batch_for_pop target) heap (partitions repo ! unat i)
               = (Inr None, heap, [])"
    using scan_none_ready [of target heap "partitions repo ! unat i"] assms by simp
  with assms True show ?thesis by (simp add: pop_data_batch_def pop_pass_def)
next
  case False
  then obtain pre p post where ps: "partitions repo ! unat i = pre @ p # post"
    and r: "ready (try_transition_batch_for_pop target) heap p"
    and pre: "\<forall>q \<in> set pre. \<not> ready (try_transition_batch_for_pop target) heap q"
    using split_list_first_prop [of "partitions repo ! unat i" "ready (try_transition_batch_for_pop target) heap"]
    by blast
  from pop_first_ready [OF assms(1,2) ps _ pre r] assms(3) ps
  have "pop_data_batch [] target i heap repo \<noteq> None" by simp
  with False show ?thesis by blast
qed

text \<open>
  A pop waits exactly when the partition is not empty and none of its batches can make
  the transition; it changes nothing before it waits, and when it is woken it behaves as a
  fresh pop on what the other threads left.
\<close>

theorem pop_waits_iff_none_ready:
  assumes "target \<noteq> processing" and "unat i < length (partitions repo)"
    and "all_valid heap (partitions repo ! unat i)"
    and "unat i < length (partitions repo2)"
  shows "(pop_data_batch [] target i heap repo = None \<longleftrightarrow>
            partitions repo ! unat i \<noteq> [] \<and>
            (\<forall>q \<in> set (partitions repo ! unat i). \<not> ready (try_transition_batch_for_pop target) heap q)) \<and>
         (pop_data_batch [] target i heap repo = None \<longrightarrow>
            pop_data_batch ((heap2, repo2) # wakeups) target i heap repo =
            pop_data_batch wakeups target i heap2 repo2)"
  using assms by (rule pop_waits_iff)

definition two_batches :: "unit batch_heap" where
  "two_batches =
     [0 \<mapsto> (new_data_batch 10 None)\<lparr>batch_state := in_transit\<rparr>, 1 \<mapsto> new_data_batch 11 None]"

definition two_batch_repo :: repository where
  "two_batch_repo = \<lparr>repo_cv = 100, partitions = [[Some 0, Some 1]]\<rparr>"

lemma two_batches_ready:
  "\<not> ready (try_transition_batch_for_pop task_created) two_batches (Some 0)"
  "ready (try_transition_batch_for_pop task_created) two_batches (Some 1)"
  "deref two_batches (Some 0) \<noteq> None" "deref two_batches (Some 1) \<noteq> None"
  by (simp_all add: ready_def deref_def two_batches_def try_transition_cases try_to_create_task_def
      new_data_batch_def)

theorem pop_takes_first_ready_witness:
  "\<exists>heap'. pop_data_batch [] task_created 0 two_batches two_batch_repo =
     Some (Inr (Some 1), heap', \<lparr>repo_cv = 100, partitions = [[Some 0]]\<rparr>)"
  using pop_takes_first_ready [of task_created 0 two_batch_repo "[Some 0]" "Some 1" "[]" two_batches "[]"]
    two_batches_ready
  by (simp add: two_batch_repo_def)

theorem pop_waits_iff_none_ready_witness:
  "pop_data_batch [] task_created 0 two_batches
     \<lparr>repo_cv = 100, partitions = [[Some 0]]\<rparr> = None"
  using pop_waits_iff_none_ready [of task_created 0 "\<lparr>repo_cv = 100, partitions = [[Some 0]]\<rparr>"
      two_batches "\<lparr>repo_cv = 100, partitions = [[Some 0]]\<rparr>"] two_batches_ready
  by simp

text \<open>What a pop takes and what it leaves are what was there.\<close>

lemma pop_conserves:
  assumes "partitions repo ! k = pre @ p # post"
  shows "add_mset p (mset (pre @ post)) = mset (partitions repo ! k)"
  using assms by simp

text \<open>Popping towards \<open>processing\<close> throws as soon as there is a batch, towards \<open>idle\<close> waits.\<close>

lemma pop_processing_throws:
  assumes "unat i < length (partitions repo)" and "partitions repo ! unat i = p # ps"
    and "deref heap p \<noteq> None"
  shows "\<exists>msg heap'. pop_data_batch wakeups processing i heap repo = Some (Inl (runtime_error msg), heap', repo)"
proof -
  obtain a b where p: "p = Some a" "heap a = Some b" using assms(3) by auto
  obtain msg where msg: "try_transition_batch_for_pop processing b = (Inl (runtime_error msg), b, None)"
    by (simp add: try_transition_batch_for_pop_def)
  have "pop_pass processing (unat i) heap repo = (Done (Inl (runtime_error msg)), heap(a \<mapsto> b), repo, [])"
    using assms p msg by (simp add: pop_pass_def)
  from run_passes_done [of "pop_pass processing (unat i)", OF this] assms(1) show ?thesis
    by (auto simp: pop_data_batch_def)
qed

lemma pop_idle_waits:
  assumes "unat i < length (partitions repo)" and "partitions repo ! unat i \<noteq> []"
    and "all_valid heap (partitions repo ! unat i)"
  shows "pop_data_batch [] idle i heap repo = None"
proof -
  have "\<not> ready (try_transition_batch_for_pop idle) heap q" for q
    by (auto simp: ready_def try_transition_cases split: option.splits)
  then show ?thesis using pop_waits_iff [OF _ assms(1,3) assms(1), of idle] assms(2) by simp
qed

section \<open>Searching by identifier\<close>

lemma find_batch_first:
  assumes "all_valid heap (pre @ p # post)" and "\<forall>q \<in> set pre. \<forall>a b. deref heap q = Some (a, b) \<longrightarrow> batch_id b \<noteq> bid"
    and "deref heap p = Some (a, b)" and "batch_id b = bid"
  shows "find_batch heap bid (pre @ p # post) = Inr (Some (length pre))"
  using assms by (induction pre) auto

lemma find_batch_none:
  assumes "all_valid heap ps" and "\<forall>q \<in> set ps. \<forall>a b. deref heap q = Some (a, b) \<longrightarrow> batch_id b \<noteq> bid"
  shows "find_batch heap bid ps = Inr None"
  using assms by (induction ps) auto

text \<open>
  A pop by identifier with a target state takes exactly the first batch with that
  identifier: at once if it can make the transition, and it waits for that batch, not for
  another, if it cannot; without such a batch it returns null and changes nothing.
\<close>

theorem pop_by_id_spec:
  assumes "t \<noteq> processing" and "unat i < length (partitions repo)"
    and "partitions repo ! unat i = pre @ p # post" and "all_valid heap (pre @ p # post)"
    and "\<forall>q \<in> set pre. \<forall>a b. deref heap q = Some (a, b) \<longrightarrow> batch_id b \<noteq> bid"
    and "deref heap p = Some (a, b)" and "batch_id b = bid"
  shows "pop_data_batch_by_id [] bid (Some t) i heap repo =
           (if ready (try_transition_batch_for_pop t) heap p
            then Some (Inr p, fst (transition_at (try_transition_batch_for_pop t) heap p),
                       repo\<lparr>partitions := (partitions repo)[unat i := pre @ post]\<rparr>)
            else None)"
proof -
  let ?tr = "try_transition_batch_for_pop t"
  have find: "find_batch heap bid (partitions repo ! unat i) = Inr (Some (length pre))"
    using find_batch_first [OF assms(4,5,6,7)] assms(3) by simp
  have nth: "partitions repo ! unat i ! length pre = p"
    and rem: "remove_at (length pre) (partitions repo ! unat i) = pre @ post"
    using assms(3) by (simp_all add: remove_at_def)
  have tr: "transition_by_id True t b = ?tr b" by (simp add: transition_by_id_def)
  show ?thesis
  proof (cases "ready ?tr heap p")
    case True
    with assms(1,6) have "?tr b = (Inr True, snd (?tr b))"
      using allowed.ready_accepts [of t heap p a b] by simp
    then obtain b' cv where trb: "?tr b = (Inr True, b', cv)" by (cases "?tr b") auto
    with True assms(2,6) find nth rem tr show ?thesis
      by (simp add: pop_data_batch_by_id_def by_id_pass_def transition_at_def)
  next
    case False
    with assms(1,6) have "?tr b = (Inr False, b, None)"
      using allowed.not_ready_refuses [of heap p a b t] by simp
    with False assms(2,6) find nth tr show ?thesis
      by (simp add: pop_data_batch_by_id_def by_id_pass_def)
  qed
qed

lemma pop_by_id_missing:
  assumes "unat i < length (partitions repo)" and "all_valid heap (partitions repo ! unat i)"
    and "\<forall>q \<in> set (partitions repo ! unat i). \<forall>a b. deref heap q = Some (a, b) \<longrightarrow> batch_id b \<noteq> bid"
  shows "pop_data_batch_by_id wakeups bid target i heap repo = Some (Inr None, heap, repo)"
  using assms find_batch_none [OF assms(2,3)]
  by (cases target) (auto simp: pop_data_batch_by_id_def by_id_now_def by_id_pass_def intro: run_passes_done)

theorem pop_by_id_spec_witness:
  "\<exists>heap'. pop_data_batch_by_id [] 11 (Some in_transit) 0 two_batches two_batch_repo =
     Some (Inr (Some 1), heap', \<lparr>repo_cv = 100, partitions = [[Some 0]]\<rparr>)"
proof -
  have r: "ready (try_transition_batch_for_pop in_transit) two_batches (Some 1)"
    by (simp add: ready_def two_batches_def try_transition_cases try_to_lock_for_in_transit_def
        new_data_batch_def)
  show ?thesis
    using pop_by_id_spec [of in_transit 0 two_batch_repo "[Some 0]" "Some 1" "[]" two_batches 11 1
        "new_data_batch 11 None"] r
    by (simp add: two_batch_repo_def two_batches_def new_data_batch_def)
qed

section \<open>A batch shared by two repositories\<close>

text \<open>Every notification goes to the one condition variable the batch holds.\<close>

fun cv_notified :: "'r batch_call \<Rightarrow> 'r data_batch \<Rightarrow> nat option" where
  "cv_notified Create_task b = snd (snd (try_to_create_task b))"
| "cv_notified Cancel_task b = snd (snd (try_to_cancel_task b))"
| "cv_notified (Lock_for_processing m) b = snd (snd (try_to_lock_for_processing m b))"
| "cv_notified Lock_for_in_transit b = snd (snd (try_to_lock_for_in_transit b))"
| "cv_notified (Release_in_transit t) b = snd (snd (try_to_release_in_transit t b))"
| "cv_notified Release_handle b = snd (snd (decrement_processing_count b))"
| "cv_notified _ b = None"

lemma cv_notified_is_own: "cv_notified c b = Some v \<Longrightarrow> state_change_cv b = Some v"
  by (cases c) (auto simp: batch_ops Let_def split: if_splits option.splits)

lemma add_sets_cv:
  assumes "heap a = Some b" and "unat i < length (partitions repo)"
  shows "add_data_batch (Some a) i heap repo =
           (Inr (), heap(a \<mapsto> set_state_change_cv (Some (repo_cv repo)) b),
            repo\<lparr>partitions := (partitions repo)[unat i := partitions repo ! unat i @ [Some a]]\<rparr>,
            [repo_cv repo])"
  using assms by (simp add: add_data_batch_def Let_def)

text \<open>
  A lost wake-up: a batch that is added to two repositories, as
  \<open>data_repository_manager\<close> does with a \<open>shared_ptr\<close>, notifies only the second. A thread that
  waits in the first for the batch to finish processing is not woken when it does, although
  from then on its pop would succeed.
\<close>

theorem shared_batch_loses_wakeup:
  assumes "heap a = Some b" and "batch_state b = processing" and "processing_count b = 1"
    and "task_created_count b = 0"
    and "partitions A = [[]]" and "partitions B = [[]]" and "repo_cv A \<noteq> repo_cv B"
  shows "\<exists>heap1 A' heap2 B' b2 heap3 cvs.
           add_data_batch (Some a) 0 heap A = (Inr (), heap1, A', cvs) \<and>
           add_data_batch (Some a) 0 heap1 B = (Inr (), heap2, B', [repo_cv B]) \<and>
           pop_data_batch [] in_transit 0 heap2 A' = None \<and>
           handle_release (Some a) heap2 = (Inr (), None, heap3, Some (repo_cv B)) \<and>
           pop_data_batch [] in_transit 0 heap3 A' \<noteq> None \<and>
           heap2 a = Some b2 \<and> (\<forall>c. cv_notified c b2 \<noteq> Some (repo_cv A))"
proof -
  let ?b1 = "set_state_change_cv (Some (repo_cv A)) b"
  let ?b2 = "set_state_change_cv (Some (repo_cv B)) ?b1"
  let ?heap1 = "heap(a \<mapsto> ?b1)" and ?heap2 = "heap(a \<mapsto> ?b2)"
  let ?A' = "A\<lparr>partitions := [[Some a]]\<rparr>" and ?B' = "B\<lparr>partitions := [[Some a]]\<rparr>"
  let ?heap3 = "heap(a \<mapsto> ?b2\<lparr>processing_count := 0, batch_state := idle\<rparr>)"
  have 1: "add_data_batch (Some a) 0 heap A = (Inr (), ?heap1, ?A', [repo_cv A])"
    using add_sets_cv [of heap a b 0 A] assms(1,5) by simp
  have 2: "add_data_batch (Some a) 0 ?heap1 B = (Inr (), ?heap2, ?B', [repo_cv B])"
    using add_sets_cv [of ?heap1 a ?b1 0 B] assms(6) by simp
  have 3: "pop_data_batch [] in_transit 0 ?heap2 ?A' = None"
    using pop_waits_iff [of in_transit 0 ?A' ?heap2 ?A'] assms(2)
    by (simp add: ready_def try_transition_cases try_to_lock_for_in_transit_def set_state_change_cv_def)
  have 4: "handle_release (Some a) ?heap2 = (Inr (), None, ?heap3, Some (repo_cv B))"
    using assms(2,3,4)
    by (simp add: handle_release_def decrement_processing_count_def set_state_change_cv_def)
  have 5: "pop_data_batch [] in_transit 0 ?heap3 ?A' \<noteq> None"
    using pop_waits_iff [of in_transit 0 ?A' ?heap3 ?A']
    by (simp add: ready_def try_transition_cases try_to_lock_for_in_transit_def set_state_change_cv_def)
  have 6: "\<forall>c. cv_notified c ?b2 \<noteq> Some (repo_cv A)"
    using cv_notified_is_own [of _ ?b2 "repo_cv A"] assms(7)
    by (auto simp: set_state_change_cv_def)
  have 7: "?heap2 a = Some ?b2" by simp
  from 1 2 3 4 5 6 7 show ?thesis by blast
qed

definition busy_heap :: "unit batch_heap" where
  "busy_heap = [0 \<mapsto> (new_data_batch 5 None)\<lparr>batch_state := processing, processing_count := 1\<rparr>]"

theorem shared_batch_loses_wakeup_witness:
  "\<exists>heap1 A' heap2 B' b2 heap3 cvs.
     add_data_batch (Some 0) 0 busy_heap (new_repository 100) = (Inr (), heap1, A', cvs) \<and>
     add_data_batch (Some 0) 0 heap1 (new_repository 200) = (Inr (), heap2, B', [200]) \<and>
     pop_data_batch [] in_transit 0 heap2 A' = None \<and>
     handle_release (Some 0) heap2 = (Inr (), None, heap3, Some 200) \<and>
     pop_data_batch [] in_transit 0 heap3 A' \<noteq> None \<and>
     heap2 0 = Some b2 \<and> (\<forall>c. cv_notified c b2 \<noteq> Some 100)"
  using shared_batch_loses_wakeup [of busy_heap 0
      "(new_data_batch 5 None)\<lparr>batch_state := processing, processing_count := 1\<rparr>"
      "new_repository 100" "new_repository 200"]
  by (simp add: busy_heap_def new_repository_def new_data_batch_def)

end
