(* ===== verification/Repository_Exchange.thy ===== *)
theory Repository_Exchange
  imports Repository_Pop "HOL-Library.Sublist"
begin

text \<open>
  Repositories at work: any number of repositories over one heap of batches, and any number of
  threads that add batches, pop them with any of the calls, and operate on the batches themselves.
  Every method holds the repository's mutex for one pass and every batch call holds the batch's; a
  run is a sequence of passes and batch calls in any order. A pass is one step: of its tests, which
  hold the mutexes of the batches one after the other, only the one that succeeds changes anything.
  (When a pass decides to wait, it matters when: see \<open>Pop_Waiting\<close>.) What was added and what was handed
  out is recorded per repository and partition, and so is who holds a batch in transit.
\<close>

section \<open>The pass of a request\<close>

datatype pop_request =
    Pop batch_state
  | Pop_by_id u64 "batch_state option"
  | Get_by_id u64 "batch_state option"

fun request_target :: "pop_request \<Rightarrow> batch_state option" where
  "request_target (Pop t) = Some t"
| "request_target (Pop_by_id _ t) = t"
| "request_target (Get_by_id _ t) = t"

fun removes :: "pop_request \<Rightarrow> bool" where
  "removes (Get_by_id _ _) = False"
| "removes _ = True"

definition at_once ::
  "nat option outcome \<times> 'r batch_heap \<times> repository \<Rightarrow>
   nat option pass \<times> 'r batch_heap \<times> repository \<times> nat list" where
  "at_once r = (Done (fst r), fst (snd r), snd (snd r), [])"

fun serve ::
  "pop_request \<Rightarrow> nat \<Rightarrow> 'r batch_heap \<Rightarrow> repository \<Rightarrow>
   nat option pass \<times> 'r batch_heap \<times> repository \<times> nat list" where
  "serve (Pop t) i heap repo = pop_pass t i heap repo"
| "serve (Pop_by_id bid (Some t)) i heap repo = by_id_pass True bid t i heap repo"
| "serve (Pop_by_id bid None) i heap repo = at_once (by_id_now True bid i heap repo)"
| "serve (Get_by_id bid (Some t)) i heap repo = by_id_pass False bid t i heap repo"
| "serve (Get_by_id bid None) i heap repo = at_once (by_id_now False bid i heap repo)"

section \<open>What a pass does\<close>

context pop_transition
begin

lemma scan_takes:
  assumes "scan_for_pop tr heap ps = (Inr (Some (p, rest)), heap', cvs)"
  shows "\<exists>pre post a b. ps = pre @ p # post \<and> rest = pre @ post \<and> p = Some a \<and> heap a = Some b
           \<and> fst (tr b) = Inr True \<and> heap' = heap(a \<mapsto> fst (snd (tr b)))"
  using assms
proof (induction ps arbitrary: rest cvs)
  case (Cons q ps)
  then obtain a b where q: "deref heap q = Some (a, b)" by (auto split: option.splits)
  then have ab: "q = Some a" "heap a = Some b" by auto
  show ?case
  proof (cases "ready tr heap q")
    case True
    from ready_accepts [OF this q] obtain b' cv where "tr b = (Inr True, b', cv)"
      by (cases "tr b") auto
    with Cons.prems q ab show ?thesis
      by (intro exI [of _ "[]"] exI [of _ ps] exI [of _ a] exI [of _ b]) auto
  next
    case False
    from not_ready_refuses [OF q this] have r: "tr b = (Inr False, b, None)" .
    with Cons.prems q ab obtain rest' cvs' where
      s: "scan_for_pop tr heap ps = (Inr (Some (p, rest')), heap', cvs')" and rest: "rest = q # rest'"
      by (auto simp: fun_upd_idem split: sum.splits prod.splits option.splits)
    from Cons.IH [OF s] obtain pre post a b where "ps = pre @ p # post" "rest' = pre @ post" "p = Some a"
      "heap a = Some b" "fst (tr b) = Inr True" "heap' = heap(a \<mapsto> fst (snd (tr b)))" by blast
    with rest show ?thesis by (intro exI [of _ "q # pre"] exI [of _ post]) auto
  qed
qed simp

lemma scan_leaves:
  assumes "scan_for_pop tr heap ps = (r, heap', cvs)" and "\<And>p rest. r \<noteq> Inr (Some (p, rest))"
  shows "heap' = heap"
  using assms
proof (induction ps arbitrary: r cvs)
  case (Cons q ps)
  show ?case
  proof (cases "deref heap q")
    case None
    with Cons.prems(1) show ?thesis by simp
  next
    case (Some ab)
    then obtain a b where q: "deref heap q = Some (a, b)" by (cases ab) auto
    then have ab: "heap a = Some b" by simp
    have nr: "\<not> ready tr heap q"
    proof
      assume "ready tr heap q"
      from ready_accepts [OF this q] obtain b' cv where "tr b = (Inr True, b', cv)"
        by (cases "tr b") auto
      with Cons.prems q show False by auto
    qed
    obtain r' cvs' where s: "scan_for_pop tr heap ps = (r', heap', cvs')"
      and "\<And>p rest. r' \<noteq> Inr (Some (p, rest))"
      using Cons.prems q ab not_ready_refuses [OF q nr]
      by (auto simp: fun_upd_idem split: sum.splits prod.splits option.splits)
    with Cons.IH show ?thesis by blast
  qed
qed simp

end

text \<open>A transition of the code that is asked for by the target of a pass, on the batch it took.\<close>

definition handed_over :: "batch_state option \<Rightarrow> 'r data_batch \<Rightarrow> 'r data_batch \<Rightarrow> bool" where
  "handed_over target b b' =
     (case target of
        None \<Rightarrow> b' = b
      | Some t \<Rightarrow> \<exists>cv. try_transition_batch_for_pop t b = (Inr True, b', cv))"

lemma processing_scan:
  "scan_for_pop (try_transition_batch_for_pop processing) heap ps = (r, heap', cvs) \<Longrightarrow>
   (\<forall>p rest. r \<noteq> Inr (Some (p, rest))) \<and> heap' = heap"
  by (cases ps) (auto simp: try_transition_batch_for_pop_def fun_upd_idem split: option.splits)

lemma target_scan:
  assumes "scan_for_pop (try_transition_batch_for_pop t) heap ps = (r, heap', cvs)"
  shows "(\<exists>pre post a b b'. ps = pre @ Some a # post \<and> r = Inr (Some (Some a, pre @ post))
            \<and> heap a = Some b \<and> heap' = heap(a \<mapsto> b') \<and> handed_over (Some t) b b')
         \<or> (\<forall>p rest. r \<noteq> Inr (Some (p, rest))) \<and> heap' = heap"
proof (cases "t = processing")
  case True
  with assms processing_scan show ?thesis by metis
next
  case False
  have tr: "pop_transition (try_transition_batch_for_pop t :: 'a data_batch \<Rightarrow> (bool, 'a) batch_op)"
    using allowed.pop_transition_axioms [of t] False by simp
  show ?thesis
  proof (cases "\<exists>p rest. r = Inr (Some (p, rest))")
    case True
    then obtain p rest where r: "r = Inr (Some (p, rest))" by blast
    with assms have s: "scan_for_pop (try_transition_batch_for_pop t) heap ps = (Inr (Some (p, rest)), heap', cvs)"
      by simp
    from pop_transition.scan_takes [OF tr s] obtain pre post a b where
      "ps = pre @ p # post" "rest = pre @ post" "p = Some a" "heap a = Some b"
      "fst (try_transition_batch_for_pop t b) = Inr True"
      "heap' = heap(a \<mapsto> fst (snd (try_transition_batch_for_pop t b)))" by blast
    with r show ?thesis
      by (intro disjI1 exI [of _ pre] exI [of _ post] exI [of _ a] exI [of _ b]
          exI [of _ "fst (snd (try_transition_batch_for_pop t b))"])
         (auto simp: handed_over_def prod_eq_iff)
  next
    case none: False
    then have "heap' = heap" by (intro pop_transition.scan_leaves [OF tr assms]) blast
    with none show ?thesis by blast
  qed
qed

text \<open>
  Every pass of every request either hands out one batch of its partition, which has made the
  transition asked for, or returns nothing and leaves the heap and the repository as they were.
\<close>

definition pass_takes ::
  "pop_request \<Rightarrow> nat \<Rightarrow> 'r batch_heap \<Rightarrow> repository \<Rightarrow> nat option pass \<Rightarrow> 'r batch_heap \<Rightarrow> repository \<Rightarrow>
   nat \<Rightarrow> bool"
where
  "pass_takes req i heap repo x heap' repo' a \<longleftrightarrow>
     x = Done (Inr (Some a)) \<and>
     (\<exists>pre post b b'. partitions repo ! i = pre @ Some a # post \<and> heap a = Some b
        \<and> heap' = heap(a \<mapsto> b') \<and> handed_over (request_target req) b b'
        \<and> repo' = (if removes req then repo\<lparr>partitions := (partitions repo)[i := pre @ post]\<rparr> else repo))"

definition pass_leaves ::
  "'r batch_heap \<Rightarrow> repository \<Rightarrow> nat option pass \<Rightarrow> 'r batch_heap \<Rightarrow> repository \<Rightarrow> bool" where
  "pass_leaves heap repo x heap' repo' \<longleftrightarrow>
     (\<forall>a. x \<noteq> Done (Inr (Some a))) \<and> heap' = heap \<and> repo' = repo"

lemma find_batch_splits:
  "find_batch heap bid ps = Inr (Some k) \<Longrightarrow>
   \<exists>a b. k < length ps \<and> ps ! k = Some a \<and> heap a = Some b \<and> batch_id b = bid"
proof (induction ps arbitrary: k)
  case (Cons p ps)
  then show ?case
    by (cases "find_batch heap bid ps") (auto split: option.splits if_splits)
qed simp

lemma remove_at_splits:
  "k < length ps \<Longrightarrow> \<exists>pre post. ps = pre @ ps ! k # post \<and> remove_at k ps = pre @ post"
  by (intro exI [of _ "take k ps"] exI [of _ "drop (Suc k) ps"])
     (auto simp: remove_at_def id_take_nth_drop)

lemma transition_by_id_accepts:
  "transition_by_id take_it t b = (Inr True, b', cv) \<Longrightarrow> handed_over (Some t) b b'"
  by (auto simp: transition_by_id_def handed_over_def split: if_splits)

lemma transition_by_id_refuses:
  "transition_by_id take_it t b = (r, b', cv) \<Longrightarrow> r \<noteq> Inr True \<Longrightarrow> b' = b"
  by (cases t) (auto simp: transition_by_id_def try_transition_batch_for_pop_def try_to_create_task_def
      try_to_lock_for_in_transit_def split: if_splits)

lemma by_id_pass_cases:
  assumes "by_id_pass take_it bid t i heap repo = (x, heap', repo', cvs)"
    and "removes req = take_it" and "request_target req = Some t"
  shows "(\<exists>a. pass_takes req i heap repo x heap' repo' a) \<or> pass_leaves heap repo x heap' repo'"
proof (cases "i < length (partitions repo) \<and>
    (\<exists>k. find_batch heap bid (partitions repo ! i) = Inr (Some k))")
  case False
  with assms(1) show ?thesis
    by (auto simp: by_id_pass_def pass_leaves_def split: sum.splits option.splits if_splits)
next
  case True
  then obtain k where i: "i < length (partitions repo)"
    and k: "find_batch heap bid (partitions repo ! i) = Inr (Some k)" by blast
  obtain a b where a: "k < length (partitions repo ! i)" "partitions repo ! i ! k = Some a" "heap a = Some b"
    using find_batch_splits [OF k] by blast
  obtain pre post where s: "partitions repo ! i = pre @ Some a # post"
    "remove_at k (partitions repo ! i) = pre @ post"
    using remove_at_splits [OF a(1)] a(2) by auto
  obtain r b' cv where t: "transition_by_id take_it t b = (r, b', cv)" by (cases "transition_by_id take_it t b")
  show ?thesis
  proof (cases "r = Inr True")
    case True
    with assms(1) i k a t s(2) have "x = Done (Inr (Some a))" "heap' = heap(a \<mapsto> b')"
      "repo' = (if take_it then repo\<lparr>partitions := (partitions repo)[i := pre @ post]\<rparr> else repo)"
      by (auto simp: by_id_pass_def)
    with True t s(1) a(3) assms(2,3) transition_by_id_accepts show ?thesis
      unfolding pass_takes_def by metis
  next
    case False
    from transition_by_id_refuses [OF t this] have "heap(a \<mapsto> b') = heap"
      using a(3) by (simp add: fun_upd_idem)
    with False assms(1) i k a t show ?thesis
      by (auto simp: by_id_pass_def pass_leaves_def split: sum.splits bool.splits)
  qed
qed

lemma by_id_now_cases:
  assumes "at_once (by_id_now take_it bid i heap repo) = (x, heap', repo', cvs)"
    and "removes req = take_it" and "request_target req = None"
  shows "(\<exists>a. pass_takes req i heap repo x heap' repo' a) \<or> pass_leaves heap repo x heap' repo'"
proof (cases "\<exists>k. find_batch heap bid (partitions repo ! i) = Inr (Some k)")
  case False
  with assms(1) show ?thesis
    by (auto simp: by_id_now_def at_once_def pass_leaves_def split: sum.splits option.splits)
next
  case True
  then obtain k where k: "find_batch heap bid (partitions repo ! i) = Inr (Some k)" by blast
  obtain a b where a: "k < length (partitions repo ! i)" "partitions repo ! i ! k = Some a" "heap a = Some b"
    using find_batch_splits [OF k] by blast
  obtain pre post where s: "partitions repo ! i = pre @ Some a # post"
    "remove_at k (partitions repo ! i) = pre @ post"
    using remove_at_splits [OF a(1)] a(2) by auto
  from assms(1) k a s(2) have "x = Done (Inr (Some a))" "heap' = heap(a \<mapsto> b)"
    "repo' = (if take_it then repo\<lparr>partitions := (partitions repo)[i := pre @ post]\<rparr> else repo)"
    by (auto simp: by_id_now_def at_once_def fun_upd_idem)
  with s(1) a(3) assms(2,3) show ?thesis
    unfolding pass_takes_def handed_over_def by auto
qed

lemma serve_cases:
  assumes "serve req i heap repo = (x, heap', repo', cvs)"
  shows "(\<exists>a. pass_takes req i heap repo x heap' repo' a) \<or> pass_leaves heap repo x heap' repo'"
proof (cases req)
  case (Pop t)
  obtain r h c where s: "scan_for_pop (try_transition_batch_for_pop t) heap (partitions repo ! i) = (r, h, c)"
    by (rule prod_cases3)
  from target_scan [OF s] show ?thesis
  proof
    assume "\<exists>pre post a b b'. partitions repo ! i = pre @ Some a # post \<and> r = Inr (Some (Some a, pre @ post))
      \<and> heap a = Some b \<and> h = heap(a \<mapsto> b') \<and> handed_over (Some t) b b'"
    with assms Pop s show ?thesis
      by (auto simp: pop_pass_def pass_takes_def pass_leaves_def split: if_splits) blast+
  next
    assume "(\<forall>p rest. r \<noteq> Inr (Some (p, rest))) \<and> h = heap"
    with assms Pop s have "pass_leaves heap repo x heap' repo'"
      by (auto simp: pop_pass_def pass_leaves_def split: if_splits sum.splits option.splits)
    then show ?thesis ..
  qed
next
  case (Pop_by_id bid t)
  show ?thesis
  proof (cases t)
    case None
    with assms Pop_by_id by_id_now_cases [of True bid i heap repo] show ?thesis by simp
  next
    case (Some st)
    with assms Pop_by_id by_id_pass_cases [of True bid st i heap repo] show ?thesis by simp
  qed
next
  case (Get_by_id bid t)
  show ?thesis
  proof (cases t)
    case None
    with assms Get_by_id by_id_now_cases [of False bid i heap repo] show ?thesis by simp
  next
    case (Some st)
    with assms Get_by_id by_id_pass_cases [of False bid st i heap repo] show ?thesis by simp
  qed
qed

section \<open>Runs\<close>

record 'r exchange =
  ex_heap :: "'r batch_heap"
  ex_repos :: "nat \<Rightarrow> repository"
  ex_added :: "nat \<Rightarrow> nat \<Rightarrow> nat option list"
  ex_taken :: "nat \<Rightarrow> nat \<Rightarrow> nat option list"
  ex_holders :: "nat \<Rightarrow> nat"

text \<open>
  The actions, by any thread: a batch is made or destroyed, added to a repository, asked for
  (one pass of a request), called, locked for transit directly, and released from transit by a
  thread that holds it so.
\<close>

datatype 'r action =
    Create nat u64 "'r idata_representation option"
  | Destroy nat
  | Add nat "nat option" u64
  | Ask nat pop_request nat
  | Call nat "'r batch_call"
  | Depart nat
  | Arrive nat "batch_state option"

definition log :: "nat \<Rightarrow> nat \<Rightarrow> 'a \<Rightarrow> (nat \<Rightarrow> nat \<Rightarrow> 'a list) \<Rightarrow> nat \<Rightarrow> nat \<Rightarrow> 'a list" where
  "log k i p f = f(k := (f k)(i := f k i @ [p]))"

definition transit_call :: "'r batch_call \<Rightarrow> bool" where
  "transit_call c = (case c of Lock_for_in_transit \<Rightarrow> True | Release_in_transit _ \<Rightarrow> True | _ \<Rightarrow> False)"

definition held_by_repository :: "nat \<Rightarrow> repository \<Rightarrow> bool" where
  "held_by_repository a repo = (\<exists>ps \<in> set (partitions repo). Some a \<in> set ps)"

inductive exchange_step ::
  "'r exchange \<Rightarrow> 'r action \<Rightarrow> nat list \<Rightarrow> 'r exchange \<Rightarrow> bool" where
  create: "ex_heap s a = None \<Longrightarrow>
     exchange_step s (Create a i d) [] (s\<lparr>ex_heap := (ex_heap s)(a \<mapsto> new_data_batch i d)\<rparr>)"
| destroy: "ex_holders s a = 0 \<Longrightarrow> \<forall>k. \<not> held_by_repository a (ex_repos s k) \<Longrightarrow>
     exchange_step s (Destroy a) [] (s\<lparr>ex_heap := (ex_heap s)(a := None)\<rparr>)"
| add: "add_data_batch p i (ex_heap s) (ex_repos s k) = (Inr (), heap', repo', cvs) \<Longrightarrow>
     exchange_step s (Add k p i) cvs
       (s\<lparr>ex_heap := heap', ex_repos := (ex_repos s)(k := repo'),
          ex_added := log k (unat i) p (ex_added s)\<rparr>)"
| hand_out: "serve req i (ex_heap s) (ex_repos s k) = (Done (Inr (Some a)), heap', repo', cvs) \<Longrightarrow>
     i < length (partitions (ex_repos s k)) \<Longrightarrow>
     exchange_step s (Ask k req i) cvs
       (s\<lparr>ex_heap := heap', ex_repos := (ex_repos s)(k := repo'),
          ex_taken := (if removes req then log k i (Some a) (ex_taken s) else ex_taken s),
          ex_holders := (if request_target req = Some in_transit
                         then (ex_holders s)(a := Suc (ex_holders s a)) else ex_holders s)\<rparr>)"
| nothing: "serve req i (ex_heap s) (ex_repos s k) = (x, heap', repo', cvs) \<Longrightarrow>
     (\<And>a. x \<noteq> Done (Inr (Some a))) \<Longrightarrow> i < length (partitions (ex_repos s k)) \<Longrightarrow>
     exchange_step s (Ask k req i) cvs
       (s\<lparr>ex_heap := heap', ex_repos := (ex_repos s)(k := repo')\<rparr>)"
| call: "ex_heap s a = Some b \<Longrightarrow> \<not> transit_call c \<Longrightarrow>
     exchange_step s (Call a c) (list_of_option (cv_notified c b))
       (s\<lparr>ex_heap := (ex_heap s)(a \<mapsto> batch_after c b)\<rparr>)"
| depart: "ex_heap s a = Some b \<Longrightarrow> try_to_lock_for_in_transit b = (Inr True, b', cv) \<Longrightarrow>
     exchange_step s (Depart a) (list_of_option cv)
       (s\<lparr>ex_heap := (ex_heap s)(a \<mapsto> b'), ex_holders := (ex_holders s)(a := Suc (ex_holders s a))\<rparr>)"
| arrive: "ex_heap s a = Some b \<Longrightarrow> 0 < ex_holders s a \<Longrightarrow>
     try_to_release_in_transit t b = (r, b', cv) \<Longrightarrow>
     exchange_step s (Arrive a t) (list_of_option cv)
       (s\<lparr>ex_heap := (ex_heap s)(a \<mapsto> b'), ex_holders := (ex_holders s)(a := ex_holders s a - 1)\<rparr>)"

definition new_exchange :: "(nat \<Rightarrow> nat) \<Rightarrow> 'r exchange" where
  "new_exchange cv =
     \<lparr>ex_heap = (\<lambda>_. None), ex_repos = (\<lambda>k. new_repository (cv k)), ex_added = (\<lambda>_ _. []),
      ex_taken = (\<lambda>_ _. []), ex_holders = (\<lambda>_. 0)\<rparr>"

inductive exchange_reachable :: "'r exchange \<Rightarrow> bool" where
  init: "exchange_reachable (new_exchange cv)"
| step: "exchange_reachable s \<Longrightarrow> exchange_step s act cvs t \<Longrightarrow> exchange_reachable t"

section \<open>Delivery\<close>

definition part :: "nat \<Rightarrow> repository \<Rightarrow> nat option list" where
  "part i repo = (if i < length (partitions repo) then partitions repo ! i else [])"

definition delivery_inv :: "'r exchange \<Rightarrow> bool" where
  "delivery_inv s \<longleftrightarrow>
     (\<forall>k i. subseq (part i (ex_repos s k)) (ex_added s k i)
          \<and> mset (part i (ex_repos s k)) + mset (ex_taken s k i) = mset (ex_added s k i))"

lemma part_update:
  "partitions repo' = (partitions repo)[i := ps] \<Longrightarrow> i < length (partitions repo) \<Longrightarrow>
   part j repo' = (if j = i then ps else part j repo)"
  by (auto simp: part_def)

lemma part_resize: "length (partitions repo) \<le> n \<Longrightarrow>
   part j (repo\<lparr>partitions := resize n (partitions repo)\<rparr>) = part j repo"
  by (auto simp: part_def resize_def nth_append)

lemma add_appends:
  assumes "add_data_batch p i heap repo = (Inr (), heap', repo', cvs)"
  shows "part j repo' = (if j = unat i then part j repo @ [p] else part j repo)"
    and "repo_cv repo' = repo_cv repo" and "cvs = [repo_cv repo]"
    and "heap' = (case deref heap p of None \<Rightarrow> heap
                  | Some (a, b) \<Rightarrow> heap(a \<mapsto> set_state_change_cv (Some (repo_cv repo)) b))"
    and "p \<noteq> None \<Longrightarrow> deref heap p \<noteq> None"
proof -
  define parts where "parts = (if unat i \<ge> length (partitions repo)
      then resize (unat (i + 1)) (partitions repo) else partitions repo)"
  have i: "unat i < length parts" and repo': "repo' = repo\<lparr>partitions := parts[unat i := parts ! unat i @ [p]]\<rparr>"
    using assms by (auto simp: add_data_batch_def Let_def parts_def [symmetric] split: if_splits)
  have same: "part m (repo\<lparr>partitions := parts\<rparr>) = part m repo" for m
  proof (cases "unat i \<ge> length (partitions repo)")
    case True
    with i have "length (partitions repo) \<le> unat (i + 1)" by (simp add: parts_def)
    with True show ?thesis using part_resize by (simp add: parts_def)
  qed (simp add: parts_def)
  have "part j repo' = (if j = unat i then parts ! unat i @ [p] else part j (repo\<lparr>partitions := parts\<rparr>))"
    using i by (auto simp: repo' part_def)
  moreover have "parts ! unat i = part (unat i) repo"
    using same [of "unat i"] i by (simp add: part_def)
  ultimately show "part j repo' = (if j = unat i then part j repo @ [p] else part j repo)"
    by (simp add: same)
  show "repo_cv repo' = repo_cv repo" by (simp add: repo')
  show "cvs = [repo_cv repo]" "p \<noteq> None \<Longrightarrow> deref heap p \<noteq> None"
    "heap' = (case deref heap p of None \<Rightarrow> heap
       | Some (a, b) \<Rightarrow> heap(a \<mapsto> set_state_change_cv (Some (repo_cv repo)) b))"
    using assms by (auto simp: add_data_batch_def Let_def split: if_splits)
qed

lemma pass_takes_part:
  assumes "pass_takes req i heap repo x heap' repo' a" and "i < length (partitions repo)"
  obtains pre post where "part i repo = pre @ Some a # post"
    and "\<And>j. part j repo' = (if removes req \<and> j = i then pre @ post else part j repo)"
proof -
  obtain pre post where "partitions repo ! i = pre @ Some a # post"
    and "repo' = (if removes req then repo\<lparr>partitions := (partitions repo)[i := pre @ post]\<rparr> else repo)"
    using assms(1) by (auto simp: pass_takes_def simp del: if_True if_False)
  with assms(2) that [of pre post] show thesis by (simp add: part_def)
qed

lemma pass_hands_out:
  "serve req i heap repo = (Done (Inr (Some a)), heap', repo', cvs) \<Longrightarrow>
   pass_takes req i heap repo (Done (Inr (Some a))) heap' repo' a"
  using serve_cases [of req i heap repo] by (auto simp: pass_takes_def pass_leaves_def)

lemma pass_changes_nothing:
  "serve req i heap repo = (x, heap', repo', cvs) \<Longrightarrow> (\<And>a. x \<noteq> Done (Inr (Some a))) \<Longrightarrow>
   heap' = heap \<and> repo' = repo"
  using serve_cases [of req i heap repo] by (auto simp: pass_takes_def pass_leaves_def)

lemma subseq_drop_one: "subseq (pre @ x # post) ys \<Longrightarrow> subseq (pre @ post) ys"
proof -
  have "subseq (pre @ post) (pre @ x # post)" by (intro list_emb_append_mono) auto
  then show "subseq (pre @ x # post) ys \<Longrightarrow> subseq (pre @ post) ys"
    by (rule subseq_order.trans)
qed

lemma subseq_snoc: "subseq xs ys \<Longrightarrow> subseq (xs @ [x]) (ys @ [x])"
  by (simp add: list_emb_append_mono)

lemma delivery_inv_step:
  assumes "exchange_step s act cvs t" and "delivery_inv s"
  shows "delivery_inv t"
  using assms
proof (induction rule: exchange_step.induct)
  case (add p i s k heap' repo' cvs)
  then show ?case
    using add_appends(1) [OF add.hyps] by (auto simp: delivery_inv_def log_def subseq_snoc)
next
  case (hand_out req i s k a heap' repo' cvs)
  obtain pre post where p: "part i (ex_repos s k) = pre @ Some a # post"
    and p': "\<And>j. part j repo' = (if removes req \<and> j = i then pre @ post else part j (ex_repos s k))"
    using pass_takes_part [OF pass_hands_out [OF hand_out.hyps(1)] hand_out.hyps(2)] by metis
  have "subseq (part i (ex_repos s k)) (ex_added s k i)"
    "mset (part i (ex_repos s k)) + mset (ex_taken s k i) = mset (ex_added s k i)"
    using hand_out.prems by (simp_all add: delivery_inv_def)
  then have "subseq (pre @ post) (ex_added s k i)"
    "mset (pre @ post) + mset (ex_taken s k i @ [Some a]) = mset (ex_added s k i)"
    using p subseq_drop_one by (auto simp: ac_simps)
  with hand_out.prems p p' show ?case by (auto simp: delivery_inv_def log_def)
next
  case (nothing req i s k x heap' repo' cvs)
  with pass_changes_nothing [OF nothing.hyps(1,2)] show ?case by (simp add: delivery_inv_def)
qed (auto simp: delivery_inv_def)

lemma reachable_delivery_inv: "exchange_reachable s \<Longrightarrow> delivery_inv s"
proof (induction rule: exchange_reachable.induct)
  case (init cv)
  show ?case by (auto simp: delivery_inv_def new_exchange_def new_repository_def part_def less_Suc_eq_0_disj)
qed (rule delivery_inv_step)

text \<open>A run with every part of a delivery: made, added, popped for a move.\<close>

definition one_pop :: "unit exchange" where
  "one_pop =
     (new_exchange (\<lambda>k. 100 + k))
       \<lparr>ex_heap := [7 \<mapsto> (new_data_batch 7 None)\<lparr>batch_state := in_transit, state_change_cv := Some 100\<rparr>],
        ex_added := (\<lambda>_ _. [])(0 := (\<lambda>_. [])(0 := [Some 7])),
        ex_taken := (\<lambda>_ _. [])(0 := (\<lambda>_. [])(0 := [Some 7])),
        ex_holders := (\<lambda>_. 0)(7 := 1)\<rparr>"

definition one_added :: "unit exchange" where
  "one_added =
     (new_exchange (\<lambda>k. 100 + k))
       \<lparr>ex_heap := [7 \<mapsto> (new_data_batch 7 None)\<lparr>state_change_cv := Some 100\<rparr>],
        ex_repos := (\<lambda>k. new_repository (100 + k))(0 := \<lparr>repo_cv = 100, partitions = [[Some 7]]\<rparr>),
        ex_added := (\<lambda>_ _. [])(0 := (\<lambda>_. [])(0 := [Some 7]))\<rparr>"

definition one_made :: "unit exchange" where
  "one_made = (new_exchange (\<lambda>k. 100 + k))\<lparr>ex_heap := [7 \<mapsto> new_data_batch 7 None]\<rparr>"

lemma one_made_step: "exchange_step (new_exchange (\<lambda>k. 100 + k)) (Create 7 7 None) [] one_made"
  using exchange_step.create [of "new_exchange (\<lambda>k. 100 + k)" 7 7 "None :: unit idata_representation option"]
  by (simp add: one_made_def new_exchange_def)

lemma one_added_step: "exchange_step one_made (Add 0 (Some 7) 0) [100] one_added"
  using exchange_step.add [of "Some 7" 0 one_made 0 "[7 \<mapsto> (new_data_batch 7 None)\<lparr>state_change_cv := Some 100\<rparr>]"
      "\<lparr>repo_cv = 100, partitions = [[Some 7]]\<rparr>" "[100]"]
  by (simp add: one_made_def one_added_def new_exchange_def add_data_batch_def new_repository_def
      set_state_change_cv_def log_def)

lemma one_pop_step: "exchange_step one_added (Ask 0 (Pop in_transit) 0) [100] one_pop"
proof -
  have repos: "(\<lambda>k. new_repository (100 + k))(0 := \<lparr>repo_cv = 100, partitions = [[]]\<rparr>)
      = (\<lambda>k. new_repository (100 + k))"
    by (auto simp: new_repository_def)
  show ?thesis
    using exchange_step.hand_out [of "Pop in_transit" 0 one_added 0 7
        "[7 \<mapsto> (new_data_batch 7 None)\<lparr>batch_state := in_transit, state_change_cv := Some 100\<rparr>]"
        "\<lparr>repo_cv = 100, partitions = [[]]\<rparr>" "[100]"]
    by (simp add: one_added_def one_pop_def new_exchange_def pop_pass_def try_transition_cases repos
        try_to_lock_for_in_transit_def new_data_batch_def log_def)
qed

lemma one_added_reachable: "exchange_reachable one_added"
  using exchange_reachable.init one_made_step one_added_step by (blast intro: exchange_reachable.step)

lemma one_pop_reachable: "exchange_reachable one_pop"
  using one_added_reachable one_pop_step by (rule exchange_reachable.step)

text \<open>
  Property C3. Every batch is delivered exactly once. Whatever threads add and pop, by state or by
  identifier, in whatever order their passes run: what was added to a partition is what was handed
  out from it together with what is still in it, and what is still in it is in the order of
  adding. A batch that was added once is handed out at most once, and never while it is also
  still in the partition.
\<close>

theorem batches_delivered_once:
  assumes "exchange_reachable s"
  shows "mset (part i (ex_repos s k)) + mset (ex_taken s k i) = mset (ex_added s k i)
    \<and> subseq (part i (ex_repos s k)) (ex_added s k i)
    \<and> (distinct (ex_added s k i) \<longrightarrow>
         distinct (ex_taken s k i) \<and> set (ex_taken s k i) \<inter> set (part i (ex_repos s k)) = {})"
proof -
  have m: "mset (part i (ex_repos s k)) + mset (ex_taken s k i) = mset (ex_added s k i)"
    and q: "subseq (part i (ex_repos s k)) (ex_added s k i)"
    using reachable_delivery_inv [OF assms] by (simp_all add: delivery_inv_def)
  from m have "mset (part i (ex_repos s k) @ ex_taken s k i) = mset (ex_added s k i)" by simp
  from mset_eq_imp_distinct_iff [OF this] m q show ?thesis by auto
qed

theorem batches_delivered_once_witness:
  "ex_taken one_pop 0 0 = [Some 7] \<and> part 0 (ex_repos one_pop 0) = []"
  using batches_delivered_once [OF one_pop_reachable, of 0 0]
  by (simp add: one_pop_def new_exchange_def)

section \<open>Batches in transit\<close>

definition transit_inv :: "'r exchange \<Rightarrow> bool" where
  "transit_inv s \<longleftrightarrow>
     (\<forall>a. ex_holders s a \<le> 1 \<and>
       (0 < ex_holders s a \<longrightarrow>
          (\<exists>b. ex_heap s a = Some b \<and> batch_state b = in_transit \<and> processing_count b = 0)))"

lemma not_held:
  assumes "transit_inv s" and "\<And>b. ex_heap s a = Some b \<Longrightarrow> batch_state b \<noteq> in_transit"
  shows "ex_holders s a = 0"
  using assms by (auto simp: transit_inv_def)

lemma held_in_transit:
  "transit_inv s \<Longrightarrow> 0 < ex_holders s a \<Longrightarrow> ex_heap s a = Some b \<Longrightarrow>
   batch_state b = in_transit \<and> processing_count b = 0"
  unfolding transit_inv_def by (metis option.inject)

lemma transit_inv_heap:
  assumes "transit_inv s" and "ex_holders t = ex_holders s" and "ex_heap t = (ex_heap s)(a \<mapsto> b')"
    and "0 < ex_holders s a \<Longrightarrow> batch_state b' = in_transit \<and> processing_count b' = 0"
  shows "transit_inv t"
  using assms by (auto simp: transit_inv_def)

lemma transit_inv_cong:
  "transit_inv s \<Longrightarrow> ex_holders t = ex_holders s \<Longrightarrow> ex_heap t = ex_heap s \<Longrightarrow> transit_inv t"
  by (simp add: transit_inv_def)

lemma call_keeps_transit:
  "\<not> transit_call c \<Longrightarrow> batch_state b = in_transit \<Longrightarrow> processing_count b = 0 \<Longrightarrow>
   batch_state (batch_after c b) = in_transit \<and> processing_count (batch_after c b) = 0"
  by (cases c) (auto simp: transit_call_def batch_ops split: option.splits sum.splits)

lemma handed_over_transit:
  "handed_over (Some in_transit) b b' \<Longrightarrow>
   batch_state b \<noteq> in_transit \<and> batch_state b' = in_transit \<and> processing_count b' = 0"
  by (auto simp: handed_over_def try_transition_cases try_to_lock_for_in_transit_def split: if_splits)

lemma handed_over_from_transit:
  "handed_over target b b' \<Longrightarrow> batch_state b = in_transit \<Longrightarrow> target = None \<and> b' = b"
  by (cases target; cases "the target")
     (auto simp: handed_over_def try_transition_batch_for_pop_def try_to_lock_for_in_transit_def
       try_to_create_task_def)

lemma transit_inv_step:
  assumes "exchange_step s act cvs t" and "transit_inv s"
  shows "transit_inv t"
  using assms
proof (induction rule: exchange_step.induct)
  case (create s a i d)
  then have "ex_holders s a = 0" by (intro not_held) simp_all
  then have "\<not> 0 < ex_holders s a" by simp
  with create.prems show ?case by - (rule transit_inv_heap [of s], auto)
next
  case (destroy s a)
  then show ?case by (auto simp: transit_inv_def)
next
  case (add p i s k heap' repo' cvs)
  note heap' = add_appends(4) [OF add.hyps]
  show ?case
  proof (cases "deref (ex_heap s) p")
    case None
    with heap' add.prems show ?thesis by - (rule transit_inv_cong [of s], simp_all)
  next
    case (Some ab)
    then have h: "ex_heap s (fst ab) = Some (snd ab)" by simp
    from Some heap' have "heap' = (ex_heap s)(fst ab \<mapsto>
        set_state_change_cv (Some (repo_cv (ex_repos s k))) (snd ab))" by (cases ab) simp
    moreover have "batch_state (set_state_change_cv cv (snd ab)) = in_transit
        \<and> processing_count (set_state_change_cv cv (snd ab)) = 0" if "0 < ex_holders s (fst ab)" for cv
      using held_in_transit [OF add.prems that h] by (simp add: set_state_change_cv_def)
    ultimately show ?thesis
      by (intro transit_inv_heap [OF add.prems, where a = "fst ab"]) simp_all
  qed
next
  case (hand_out req i s k a heap' repo' cvs)
  from pass_hands_out [OF hand_out.hyps(1)] obtain b b' where ab: "ex_heap s a = Some b"
    "heap' = (ex_heap s)(a \<mapsto> b')" "handed_over (request_target req) b b'"
    by (auto simp: pass_takes_def)
  show ?case
  proof (cases "request_target req = Some in_transit")
    case True
    with ab handed_over_transit [of b b'] have b: "batch_state b \<noteq> in_transit"
      "batch_state b' = in_transit" "processing_count b' = 0" by auto
    with ab(1) hand_out.prems have "ex_holders s a = 0" by (intro not_held) simp_all
    with True ab b hand_out.prems show ?thesis by (auto simp: transit_inv_def)
  next
    case False
    have "batch_state b' = in_transit \<and> processing_count b' = 0" if "0 < ex_holders s a"
      using held_in_transit [OF hand_out.prems that ab(1)] handed_over_from_transit [OF ab(3)] by simp
    with False ab(2) show ?thesis
      by (intro transit_inv_heap [OF hand_out.prems, where a = a]) simp_all
  qed
next
  case (nothing req i s k x heap' repo' cvs)
  with pass_changes_nothing [OF nothing.hyps(1,2)] show ?case by (simp add: transit_inv_def)
next
  case (call s a b c)
  have "batch_state (batch_after c b) = in_transit \<and> processing_count (batch_after c b) = 0"
    if "0 < ex_holders s a"
    using held_in_transit [OF call.prems that call.hyps(1)] call_keeps_transit [OF call.hyps(2)] by simp
  then show ?case by (intro transit_inv_heap [OF call.prems, where a = a]) simp_all
next
  case (depart s a b b' cv)
  from depart.hyps(2) have b: "batch_state b \<noteq> in_transit" "batch_state b' = in_transit"
    "processing_count b' = 0"
    by (auto simp: try_to_lock_for_in_transit_def split: if_splits)
  with depart have "ex_holders s a = 0" by (intro not_held) simp_all
  with b depart.prems show ?case by (auto simp: transit_inv_def)
next
  case (arrive s a b t r b' cv)
  then have "ex_holders s a = 1" by (auto simp: transit_inv_def intro: antisym)
  with arrive.prems show ?case by (auto simp: transit_inv_def)
qed

lemma reachable_transit_inv: "exchange_reachable s \<Longrightarrow> transit_inv s"
proof (induction rule: exchange_reachable.induct)
  case (init cv)
  show ?case by (simp add: transit_inv_def new_exchange_def)
qed (rule transit_inv_step)

text \<open>
  Property C4. A batch in transit has one mover. Through any repositories, by pops of any kind and
  by direct locks, at most one thread at a time holds a batch in transit; while one does, the batch
  is in \<open>in_transit\<close> with no live processing handle, and nobody can start or add a task on it.
\<close>

theorem transit_is_exclusive:
  assumes "exchange_reachable s"
  shows "ex_holders s a \<le> 1 \<and>
    (ex_holders s a = 1 \<longrightarrow>
      (\<exists>b. ex_heap s a = Some b \<and> batch_state b = in_transit \<and> processing_count b = 0
         \<and> fst (try_to_create_task b) = Inr False \<and> fst (try_to_lock_for_in_transit b) = Inr False
         \<and> (\<forall>m. fst (try_to_lock_for_processing m b) \<noteq> Inr success)))"
proof (intro conjI impI)
  note inv = reachable_transit_inv [OF assms]
  then show "ex_holders s a \<le> 1" by (simp add: transit_inv_def)
  assume "ex_holders s a = 1"
  then have "0 < ex_holders s a" by simp
  with inv obtain b where "ex_heap s a = Some b" "batch_state b = in_transit" "processing_count b = 0"
    unfolding transit_inv_def by blast
  then show "\<exists>b. ex_heap s a = Some b \<and> batch_state b = in_transit \<and> processing_count b = 0
         \<and> fst (try_to_create_task b) = Inr False \<and> fst (try_to_lock_for_in_transit b) = Inr False
         \<and> (\<forall>m. fst (try_to_lock_for_processing m b) \<noteq> Inr success)"
    by (intro exI [of _ b]) (auto simp: batch_ops split: option.split)
qed

theorem transit_is_exclusive_witness:
  "\<exists>b. ex_heap one_pop 7 = Some b \<and> fst (try_to_lock_for_in_transit b) = Inr False"
  using transit_is_exclusive [OF one_pop_reachable, of 7]
  by (auto simp: one_pop_def)

end
