(* ===== verification/Repository_Wakeups.thy ===== *)
theory Repository_Wakeups
  imports Repository_Exchange
begin

text \<open>
  Who notifies a repository. Whatever makes one of its batches ready for a pop notifies the
  repository's condition variable, as long as the batches of the repository carry its variable,
  which they do when no other repository takes them. Whether the notification finds the pop asleep
  is the subject of \<open>Pop_Waiting\<close>. Nothing is notified when the batches a pop could have waited for
  are gone.
\<close>

section \<open>Readiness of a batch\<close>

definition ready_for :: "batch_state \<Rightarrow> 'r data_batch \<Rightarrow> bool" where
  "ready_for t b = (fst (try_transition_batch_for_pop t b) = Inr True)"

definition well_kept :: "'r data_batch \<Rightarrow> bool" where
  "well_kept b \<longleftrightarrow> (batch_state b = task_created \<longrightarrow> task_created_count b \<noteq> 0)
                 \<and> (batch_state b \<noteq> processing \<longrightarrow> processing_count b = 0)"

lemma ready_for_simps:
  "ready_for task_created b \<longleftrightarrow> batch_state b \<noteq> in_transit"
  "ready_for in_transit b \<longleftrightarrow> processing_count b = 0 \<and>
     (batch_state b = idle \<or> (batch_state b = task_created \<and> task_created_count b \<noteq> 0))"
  "ready_for processing b \<longleftrightarrow> False"
  "ready_for idle b \<longleftrightarrow> False"
  by (cases "batch_state b"; auto simp: ready_for_def try_transition_batch_for_pop_def
      try_to_create_task_def try_to_lock_for_in_transit_def word_neq_0_conv)+

lemma ready_at: "heap a = Some b \<Longrightarrow> ready (try_transition_batch_for_pop t) heap (Some a) = ready_for t b"
  by (simp add: ready_def ready_for_def)

lemma call_keeps_well_kept:
  assumes "well_kept b" and "task_created_count b + 1 \<noteq> 0"
    and "c = Release_in_transit (Some task_created) \<Longrightarrow> task_created_count b \<noteq> 0"
  shows "well_kept (batch_after c b)"
  using assms
  by (cases c) (auto simp: well_kept_def batch_ops Let_def u64_pos(1)
      split: option.splits sum.splits batch_state.splits)

text \<open>The batch tells its condition variable whenever it becomes ready.\<close>

lemma readiness_is_notified:
  assumes "well_kept b" and "\<not> ready_for t b" and "ready_for t (batch_after c b)"
  shows "cv_notified c b = state_change_cv b"
  using assms
  by (cases t; cases c)
     (auto simp: ready_for_simps well_kept_def batch_ops Let_def split: option.splits sum.splits if_splits)

lemma handing_out_readies_nothing:
  assumes "well_kept b" and "\<not> ready_for t b" and "handed_over target b b'"
  shows "\<not> ready_for t b'"
proof (cases target)
  case None
  with assms show ?thesis by (simp add: handed_over_def)
next
  case (Some u)
  with assms show ?thesis
    by (cases t; cases u)
       (auto simp: ready_for_simps well_kept_def handed_over_def try_transition_cases try_to_create_task_def
         try_to_lock_for_in_transit_def try_transition_batch_for_pop_def split: if_splits)
qed

section \<open>What an attended repository keeps\<close>

text \<open>
  A repository is attended when every pointer in it is a live batch that notifies the repository's
  condition variable, and the counters of all batches fit their states.
\<close>

definition holds :: "repository \<Rightarrow> nat option \<Rightarrow> bool" where
  "holds repo p = (\<exists>i. p \<in> set (part i repo))"

definition attended :: "nat \<Rightarrow> 'r exchange \<Rightarrow> bool" where
  "attended k s \<longleftrightarrow>
     (\<forall>p. holds (ex_repos s k) p \<longrightarrow>
        (\<exists>a b. p = Some a \<and> ex_heap s a = Some b \<and> state_change_cv b = Some (repo_cv (ex_repos s k))))
     \<and> (\<forall>a b. ex_heap s a = Some b \<longrightarrow> well_kept b)"

text \<open>
  The obligations on the clients of repository \<open>k\<close>: its batches are not null and in no other
  repository, their condition variable is not replaced, a release names \<open>task_created\<close> only with a
  pending task, and no batch has as many pending tasks as a \<open>size_t\<close> can count.
\<close>

fun tidy :: "nat \<Rightarrow> 'r exchange \<Rightarrow> 'r action \<Rightarrow> bool" where
  "tidy k s (Add k' p i) = (if k' = k then p \<noteq> None else \<not> holds (ex_repos s k) p)"
| "tidy k s (Call a c) = (\<forall>cv. c \<noteq> Set_cv cv)"
| "tidy k s (Arrive a t) =
     (t = Some task_created \<longrightarrow> (\<forall>b. ex_heap s a = Some b \<longrightarrow> task_created_count b \<noteq> 0))"
| "tidy k s _ = True"

definition room :: "'r exchange \<Rightarrow> bool" where
  "room s = (\<forall>a b. ex_heap s a = Some b \<longrightarrow> task_created_count b + 1 \<noteq> 0)"

inductive orderly :: "nat \<Rightarrow> 'r exchange \<Rightarrow> bool" where
  init: "orderly k (new_exchange cv)"
| step: "orderly k s \<Longrightarrow> exchange_step s act cvs t \<Longrightarrow> tidy k s act \<Longrightarrow> room s \<Longrightarrow> orderly k t"

lemma held_iff: "held_by_repository a repo \<longleftrightarrow> holds repo (Some a)"
proof -
  have "held_by_repository a repo \<longleftrightarrow> (\<exists>i < length (partitions repo). Some a \<in> set (partitions repo ! i))"
    unfolding held_by_repository_def by (metis in_set_conv_nth)
  then show ?thesis by (auto simp: holds_def part_def)
qed

lemma attendedD:
  "attended k s \<Longrightarrow> holds (ex_repos s k) p \<Longrightarrow>
   \<exists>a b. p = Some a \<and> ex_heap s a = Some b \<and> state_change_cv b = Some (repo_cv (ex_repos s k)) \<and> well_kept b"
  by (fastforce simp: attended_def)

lemma attended_well: "attended k s \<Longrightarrow> ex_heap s a = Some b \<Longrightarrow> well_kept b"
  by (simp add: attended_def)

text \<open>The shape of the steps that change one batch and at most shrink the repositories.\<close>

lemma attended_heap:
  assumes "attended k s" and "ex_heap t = (ex_heap s)(a \<mapsto> b')" and "well_kept b'"
    and "\<And>p. holds (ex_repos t k) p \<Longrightarrow> holds (ex_repos s k) p"
    and "repo_cv (ex_repos t k) = repo_cv (ex_repos s k)"
    and "\<And>b. holds (ex_repos s k) (Some a) \<Longrightarrow> ex_heap s a = Some b \<Longrightarrow>
           state_change_cv b' = state_change_cv b"
  shows "attended k t"
proof -
  have "\<exists>a b. p = Some a \<and> ex_heap t a = Some b \<and> state_change_cv b = Some (repo_cv (ex_repos t k))"
    if "holds (ex_repos t k) p" for p
  proof -
    from assms(4) [OF that] have h: "holds (ex_repos s k) p" .
    from attendedD [OF assms(1) this] obtain c b where "p = Some c" "ex_heap s c = Some b"
      "state_change_cv b = Some (repo_cv (ex_repos s k))" by blast
    with h assms(2,5,6) show ?thesis by (cases "c = a") auto
  qed
  moreover have "well_kept b" if "ex_heap t c = Some b" for c b
    using that assms(1-3) by (auto simp: attended_def split: if_splits)
  ultimately show ?thesis unfolding attended_def by blast
qed

lemma call_keeps_cv:
  "(\<And>cv. c \<noteq> Set_cv cv) \<Longrightarrow> state_change_cv (batch_after c b) = state_change_cv b"
  by (cases c) (auto simp: batch_ops Let_def move_construct_def move_assign_def split: option.splits sum.splits)

lemma handed_over_as_call:
  assumes "handed_over target b b'"
  shows "b' = b \<or> (\<exists>c \<in> {Create_task, Lock_for_in_transit}. b' = batch_after c b)"
proof (cases target)
  case None
  with assms show ?thesis by (simp add: handed_over_def)
next
  case (Some t)
  with assms show ?thesis
    by (cases t) (auto simp: handed_over_def try_transition_cases try_transition_batch_for_pop_def)
qed

lemma handed_over_keeps:
  assumes "handed_over target b b'"
  shows "state_change_cv b' = state_change_cv b"
    and "well_kept b \<Longrightarrow> task_created_count b + 1 \<noteq> 0 \<Longrightarrow> well_kept b'"
proof -
  from handed_over_as_call [OF assms] have
    "b' = b \<or> (\<exists>c. b' = batch_after c b \<and> (\<forall>cv. c \<noteq> Set_cv cv) \<and> (\<forall>t. c \<noteq> Release_in_transit t))"
    by blast
  then have "state_change_cv b' = state_change_cv b \<and>
      (well_kept b \<longrightarrow> task_created_count b + 1 \<noteq> 0 \<longrightarrow> well_kept b')"
    using call_keeps_cv call_keeps_well_kept by blast
  then show "state_change_cv b' = state_change_cv b"
    "well_kept b \<Longrightarrow> task_created_count b + 1 \<noteq> 0 \<Longrightarrow> well_kept b'" by blast+
qed

lemma hand_out_shrinks:
  assumes "serve req i heap repo = (Done (Inr (Some a)), heap', repo', cvs)" and "i < length (partitions repo)"
  shows "holds repo' p \<Longrightarrow> holds repo p" and "repo_cv repo' = repo_cv repo"
    and "set (part j repo') \<subseteq> set (part j repo)"
proof -
  note p = pass_hands_out [OF assms(1)]
  obtain pre post where q: "part i repo = pre @ Some a # post"
    and q': "\<And>j. part j repo' = (if removes req \<and> j = i then pre @ post else part j repo)"
    using pass_takes_part [OF p assms(2)] by metis
  show sub: "set (part j repo') \<subseteq> set (part j repo)" for j
  proof (cases "removes req \<and> j = i")
    case True
    then have "part j repo' = pre @ post" "part j repo = pre @ Some a # post" using q q' [of j] by simp_all
    then show ?thesis by auto
  next
    case False
    then show ?thesis by (simp only: q' if_False)
  qed
  then show "holds repo' p \<Longrightarrow> holds repo p" by (auto simp: holds_def)
  show "repo_cv repo' = repo_cv repo" using p by (auto simp: pass_takes_def)
qed

lemma attended_add:
  assumes "add_data_batch p i (ex_heap s) (ex_repos s k') = (Inr (), heap', repo', cvs)"
    and "attended k s" and "tidy k s (Add k' p i)"
    and "ex_heap t = heap'" and "ex_repos t = (ex_repos s)(k' := repo')"
  shows "attended k t"
proof -
  note ap = add_appends [OF assms(1)]
  have holds: "holds repo' q \<longleftrightarrow> holds (ex_repos s k') q \<or> q = p" for q
  proof -
    have "set (part j repo') = set (part j (ex_repos s k')) \<union> (if j = unat i then {p} else {})" for j
      using ap(1) [of j] by simp
    then have "q \<in> set (part j repo') \<longleftrightarrow> q \<in> set (part j (ex_repos s k')) \<or> (j = unat i \<and> q = p)" for j
      by simp
    then show ?thesis unfolding holds_def by metis
  qed
  show ?thesis
  proof (cases p)
    case None
    with assms(3) have "k' \<noteq> k" by auto
    with None ap(4) assms(2) show ?thesis by (simp add: attended_def assms(4,5))
  next
    case (Some a)
    with ap(5) obtain b where b: "ex_heap s a = Some b" by auto
    let ?b = "set_state_change_cv (Some (repo_cv (ex_repos s k'))) b"
    from ap(4) Some b have heap': "heap' = (ex_heap s)(a \<mapsto> ?b)" by simp
    have w: "well_kept ?b" and cv: "state_change_cv ?b = Some (repo_cv (ex_repos s k'))"
      using attended_well [OF assms(2) b] by (simp_all add: well_kept_def set_state_change_cv_def)
    show ?thesis
    proof (cases "k' = k")
      case False
      with assms(3) Some have "\<not> holds (ex_repos s k) (Some a)" by simp
      with False heap' w show ?thesis
        by (intro attended_heap [OF assms(2), where a = a and b' = ?b]) (simp_all add: assms(4,5))
    next
      case True
      have "\<exists>c b. q = Some c \<and> heap' c = Some b \<and> state_change_cv b = Some (repo_cv (ex_repos s k))"
        if "holds repo' q" for q
      proof (cases "q = Some a")
        case True
        with heap' cv \<open>k' = k\<close> show ?thesis by auto
      next
        case False
        with that holds Some True have "holds (ex_repos s k) q" by simp
        from attendedD [OF assms(2) this] False heap' show ?thesis by auto
      qed
      moreover have "well_kept c'" if "heap' c = Some c'" for c c'
        using that heap' w attended_well [OF assms(2)] by (auto split: if_splits)
      ultimately show ?thesis using True ap(2) by (simp add: attended_def assms(4,5))
    qed
  qed
qed

lemma attended_step:
  assumes "exchange_step s act cvs t" and "attended k s" and "tidy k s act" and "room s"
  shows "attended k t"
  using assms
proof (induction rule: exchange_step.induct)
  case (create s a i d)
  have "\<not> holds (ex_repos s k) (Some a)"
    using attendedD [OF create.prems(1), of "Some a"] create.hyps by auto
  moreover have "well_kept (new_data_batch i d)" by (simp add: well_kept_def new_data_batch_def)
  ultimately show ?case
    by (intro attended_heap [OF create.prems(1), where a = a and b' = "new_data_batch i d"]) simp_all
next
  case (destroy s a)
  then have "\<not> holds (ex_repos s k) (Some a)" by (simp add: held_iff)
  with destroy.prems(1) show ?case by (fastforce simp: attended_def)
next
  case (add p i s k' heap' repo' cvs)
  from attended_add [OF add.hyps add.prems(1,2)] show ?case by simp
next
  case (hand_out req i s k' a heap' repo' cvs)
  from pass_hands_out [OF hand_out.hyps(1)] obtain b b' where ab: "ex_heap s a = Some b"
    "heap' = (ex_heap s)(a \<mapsto> b')" "handed_over (request_target req) b b'"
    by (auto simp: pass_takes_def)
  have "task_created_count b + 1 \<noteq> 0" using ab(1) hand_out.prems(3) by (simp add: room_def)
  then have "well_kept b'"
    using handed_over_keeps(2) [OF ab(3)] attended_well [OF hand_out.prems(1) ab(1)] by blast
  then show ?case
    using ab hand_out_shrinks [OF hand_out.hyps(1,2)] handed_over_keeps(1) [OF ab(3)]
    by (intro attended_heap [OF hand_out.prems(1), where a = a and b' = b'])
       (auto split: if_splits)
next
  case (nothing req i s k' x heap' repo' cvs)
  with pass_changes_nothing [OF nothing.hyps(1,2)] show ?case by (simp add: attended_def)
next
  case (call s a b c)
  have "task_created_count b + 1 \<noteq> 0" using call by (simp add: room_def)
  moreover have "c \<noteq> Release_in_transit (Some task_created)" using call.hyps(2) by (auto simp: transit_call_def)
  ultimately have "well_kept (batch_after c b)"
    using call_keeps_well_kept attended_well [OF call.prems(1) call.hyps(1)] by blast
  then show ?case
    using call.hyps(1) call.prems(2) call_keeps_cv [of c b]
    by (intro attended_heap [OF call.prems(1), where a = a and b' = "batch_after c b"]) auto
next
  case (depart s a b b' cv)
  then have "b' = batch_after Lock_for_in_transit b" by simp
  moreover have "task_created_count b + 1 \<noteq> 0" using depart by (simp add: room_def)
  ultimately have "well_kept b'" "state_change_cv b' = state_change_cv b"
    using call_keeps_well_kept [of b Lock_for_in_transit] call_keeps_cv [of Lock_for_in_transit b]
      attended_well [OF depart.prems(1) depart.hyps(1)] by blast+
  with depart.hyps(1) show ?case
    by (intro attended_heap [OF depart.prems(1), where a = a and b' = b']) auto
next
  case (arrive s a b t r b' cv)
  then have b': "b' = batch_after (Release_in_transit t) b" by simp
  have "task_created_count b + 1 \<noteq> 0" using arrive by (simp add: room_def)
  moreover have "task_created_count b \<noteq> 0" if "Release_in_transit t = Release_in_transit (Some task_created)"
    using arrive.prems(2) arrive.hyps(1) that by simp
  ultimately have "well_kept b'"
    unfolding b' by (intro call_keeps_well_kept attended_well [OF arrive.prems(1) arrive.hyps(1)])
  moreover have "state_change_cv b' = state_change_cv b"
    unfolding b' by (rule call_keeps_cv) simp
  ultimately have "well_kept b'" "state_change_cv b' = state_change_cv b" by simp_all
  with arrive.hyps(1) show ?case
    by (intro attended_heap [OF arrive.prems(1), where a = a and b' = b']) auto
qed

lemma orderly_attended: "orderly k s \<Longrightarrow> attended k s"
proof (induction rule: orderly.induct)
  case (init k cv)
  show ?case by (auto simp: attended_def new_exchange_def new_repository_def holds_def part_def split: if_splits)
qed (rule attended_step)

section \<open>Waiters are woken\<close>

lemma attended_valid:
  assumes "attended k s"
  shows "all_valid (ex_heap s) (part i (ex_repos s k))"
proof -
  have "deref (ex_heap s) p \<noteq> None" if "p \<in> set (part i (ex_repos s k))" for p
  proof -
    from that have "holds (ex_repos s k) p" by (auto simp: holds_def)
    from attendedD [OF assms this] show ?thesis by auto
  qed
  then show ?thesis by (auto simp: all_valid_def list_all_iff)
qed

lemma waiting_pop:
  assumes "fst (pop_pass t i heap repo) = Wait" and "all_valid heap (part i repo)"
    and "Some a \<in> set (part i repo)" and "heap a = Some b"
  shows "\<not> ready_for t b"
proof (cases "t = processing")
  case True
  then show ?thesis by (simp add: ready_for_simps)
next
  case False
  define tr :: "'a data_batch \<Rightarrow> (bool, 'a) batch_op" where "tr = try_transition_batch_for_pop t"
  have tr: "pop_transition tr"
    using allowed.pop_transition_axioms [of t] False by (simp add: tr_def)
  have i: "partitions repo ! i = part i repo" "i < length (partitions repo)" "part i repo \<noteq> []"
    using assms(3) by (auto simp: part_def split: if_splits)
  show ?thesis
    using pop_transition.first_ready_or_none [OF tr, of "part i repo" heap]
  proof
    assume "\<forall>q \<in> set (part i repo). \<not> ready tr heap q"
    with assms(3) have "\<not> ready tr heap (Some a)" by blast
    then show ?thesis by (simp add: tr_def ready_at [where heap = heap, OF assms(4)])
  next
    assume "\<exists>pre p post. part i repo = pre @ p # post \<and> ready tr heap p \<and> (\<forall>q \<in> set pre. \<not> ready tr heap q)"
    then obtain pre p post where p: "part i repo = pre @ p # post" "ready tr heap p"
      "\<forall>q \<in> set pre. \<not> ready tr heap q" by blast
    with assms(2) have "scan_for_pop tr heap (part i repo) = (Inr (Some (p, pre @ post)), transition_at tr heap p)"
      using pop_transition.scan_finds_first [OF tr, of heap pre p post] by simp
    with assms(1) i show ?thesis
      by (simp add: pop_pass_def tr_def split: prod.splits)
  qed
qed

lemma handing_pop:
  assumes "pop_pass t i heap repo = (Done (Inr (Some a)), heap', repo', cvs)"
  shows "Some a \<in> set (part i repo)" and "\<exists>b. heap a = Some b \<and> ready_for t b"
proof -
  have p: "pass_takes (Pop t) i heap repo (Done (Inr (Some a))) heap' repo' a"
    by (rule pass_hands_out) (simp add: assms)
  have "i < length (partitions repo)"
    using assms by (auto simp: pop_pass_def split: if_splits)
  with p show "Some a \<in> set (part i repo)" by (auto simp: pass_takes_def part_def)
  from p show "\<exists>b. heap a = Some b \<and> ready_for t b"
    by (auto simp: pass_takes_def handed_over_def ready_for_def)
qed

text \<open>
  Where the readiness comes from: the step changed one batch of the repository, and told the
  condition variable that the batch carries.
\<close>

lemma step_readies:
  assumes "exchange_step s act cvs s'" and "attended k s" and "\<forall>p i. act \<noteq> Add k p i"
    and "Some a \<in> set (part i (ex_repos s' k))" and "ex_heap s' a = Some b'" and "ready_for t b'"
  shows "\<exists>b. Some a \<in> set (part i (ex_repos s k)) \<and> ex_heap s a = Some b
    \<and> (ready_for t b \<or> state_change_cv b \<in> Some ` set cvs)"
  using assms
proof (induction rule: exchange_step.induct)
  case (create s c n d)
  then have "holds (ex_repos s k) (Some a)" by (auto simp: holds_def)
  from attendedD [OF create.prems(1) this] create.hyps have "a \<noteq> c" by auto
  with create.prems show ?case by auto
next
  case (destroy s c)
  then have "a \<noteq> c" by auto
  with destroy.prems show ?case by auto
next
  case (add p n s k' heap' repo' cvs)
  then have k': "k' \<noteq> k" by auto
  note ap = add_appends(4,5) [OF add.hyps]
  show ?case
  proof (cases "p = Some a")
    case True
    with ap obtain b where b: "ex_heap s a = Some b"
      "heap' = (ex_heap s)(a \<mapsto> set_state_change_cv (Some (repo_cv (ex_repos s k'))) b)" by auto
    with add.prems have "b' = set_state_change_cv (Some (repo_cv (ex_repos s k'))) b" by simp
    with add.prems(5) have "ready_for t b"
      by (cases t) (simp_all add: ready_for_simps set_state_change_cv_def)
    with b k' add.prems show ?thesis by auto
  next
    case False
    with ap(1) have "heap' a = ex_heap s a" by (auto split: option.splits)
    with k' add.prems show ?thesis by auto
  qed
next
  case (hand_out req j s k' c heap' repo' cvs)
  from pass_hands_out [OF hand_out.hyps(1)] obtain b1 b2 where ab: "ex_heap s c = Some b1"
    "heap' = (ex_heap s)(c \<mapsto> b2)" "handed_over (request_target req) b1 b2"
    by (auto simp: pass_takes_def)
  have in_s: "Some a \<in> set (part i (ex_repos s k))"
    using hand_out.prems(3) hand_out_shrinks(3) [OF hand_out.hyps(1,2)] by (auto split: if_splits)
  have "ready_for t b1" if "a = c"
    using handing_out_readies_nothing [OF _ _ ab(3)] attended_well [OF hand_out.prems(1) ab(1)]
      hand_out.prems(4,5) ab(2) that by auto
  with in_s ab hand_out.prems(4,5) show ?case by (cases "a = c") auto
next
  case (nothing req j s k' x heap' repo' cvs)
  with pass_changes_nothing [OF nothing.hyps(1,2)] show ?case by auto
next
  case (call s c b1 m)
  have "ready_for t b1 \<or> cv_notified m b1 = state_change_cv b1" if "a = c"
    using readiness_is_notified attended_well [OF call.prems(1) call.hyps(1)] call.prems(4,5) that by auto
  moreover have "\<exists>cv. state_change_cv b1 = Some cv" if "a = c"
    using attendedD [OF call.prems(1), of "Some a"] call.prems(3) call.hyps(1) that
    by (auto simp: holds_def)
  ultimately show ?case using call by (cases "a = c") auto
next
  case (depart s c b1 b2 cv)
  then have "handed_over (Some in_transit) b1 b2" by (simp add: handed_over_def try_transition_cases)
  then have "ready_for t b1" if "a = c"
    using handing_out_readies_nothing attended_well [OF depart.prems(1) depart.hyps(1)]
      depart.prems(4,5) that by auto
  with depart show ?case by (cases "a = c") auto
next
  case (arrive s c b1 u r b2 cv)
  then have b2: "b2 = batch_after (Release_in_transit u) b1" "cv = cv_notified (Release_in_transit u) b1"
    by simp_all
  have "ready_for t b1 \<or> cv = state_change_cv b1" if "a = c"
    using readiness_is_notified [of b1 t "Release_in_transit u"]
      attended_well [OF arrive.prems(1) arrive.hyps(1)] arrive.prems(4,5) b2 that by auto
  moreover have "\<exists>cv. state_change_cv b1 = Some cv" if "a = c"
    using attendedD [OF arrive.prems(1), of "Some a"] arrive.prems(3) arrive.hyps(1) that
    by (auto simp: holds_def)
  ultimately show ?case using arrive by (cases "a = c") auto
qed

text \<open>
  The decision of a pass to wait: whenever a pass would have decided to wait before a step, by whatever
  thread, and would hand out a batch after it, the step has notified the repository's condition
  variable.
\<close>

lemma readied_pass_is_notified:
  assumes "orderly k s" and "exchange_step s act cvs s'"
    and "fst (pop_pass t i (ex_heap s) (ex_repos s k)) = Wait"
    and "fst (pop_pass t i (ex_heap s') (ex_repos s' k)) = Done (Inr (Some a))"
  shows "repo_cv (ex_repos s k) \<in> set cvs"
proof (cases "\<exists>p n. act = Add k p n")
  case True
  with assms(2) obtain p n heap' repo' where "add_data_batch p n (ex_heap s) (ex_repos s k) = (Inr (), heap', repo', cvs)"
    by (auto elim: exchange_step.cases)
  from add_appends(3) [OF this] show ?thesis by simp
next
  case False
  note att = orderly_attended [OF assms(1)]
  obtain heap' repo' cvs' where "pop_pass t i (ex_heap s') (ex_repos s' k) = (Done (Inr (Some a)), heap', repo', cvs')"
    using assms(4) by (cases "pop_pass t i (ex_heap s') (ex_repos s' k)") auto
  note h = handing_pop [OF this]
  then obtain b' where b': "ex_heap s' a = Some b'" "ready_for t b'" by blast
  from step_readies [OF assms(2) att _ h(1) b'] False obtain b where
    b: "Some a \<in> set (part i (ex_repos s k))" "ex_heap s a = Some b"
    "ready_for t b \<or> state_change_cv b \<in> Some ` set cvs" by auto
  from waiting_pop [OF assms(3) attended_valid [OF att] b(1,2)] b(3)
  have "state_change_cv b \<in> Some ` set cvs" by blast
  moreover have "holds (ex_repos s k) (Some a)" using b(1) by (auto simp: holds_def)
  from attendedD [OF att this] b(2) have "state_change_cv b = Some (repo_cv (ex_repos s k))" by auto
  ultimately show ?thesis by auto
qed

text \<open>An example: the only batch of a repository is moved by a thread, a pop has to wait until it arrives.\<close>

definition one_away :: "unit exchange" where
  "one_away = one_added
     \<lparr>ex_heap := [7 \<mapsto> (new_data_batch 7 None)\<lparr>batch_state := in_transit, state_change_cv := Some 100\<rparr>],
      ex_holders := (\<lambda>_. 0)(7 := 1)\<rparr>"

text \<open>
  The waiter that is not told. A thread waits for the only batch of a partition; another takes the
  batch by its identifier. From then on the waiting pop would return null, as documented for an
  empty repository, but nothing is notified, by the pop or by whoever destroys the batch.
\<close>

lemma taken_batch_strands_waiter:
  assumes "heap a = Some b" and "batch_state b = processing" and "partitions repo = [[Some a]]"
  shows "fst (pop_pass in_transit 0 heap repo) = Wait"
    and "serve (Pop_by_id (batch_id b) None) 0 heap repo = (Done (Inr (Some a)), heap, repo\<lparr>partitions := [[]]\<rparr>, [])"
    and "fst (pop_pass in_transit 0 heap (repo\<lparr>partitions := [[]]\<rparr>)) = Done (Inr None)"
  using assms
  by (simp_all add: pop_pass_def try_transition_cases try_to_lock_for_in_transit_def at_once_def by_id_now_def
      remove_at_def)

end
