(* ===== verification/Pop_Waiting.thy ===== *)
theory Pop_Waiting
  imports Repository_Wakeups
begin

text \<open>
  A blocking pop one access at a time. \<open>Repository_Exchange\<close> runs each pass of a pop as one step, and
  its result \<open>Wait\<close> is the decision to wait. In \<open>pop_data_batch\<close> the repository's mutex is held from
  the search until \<open>_cv.wait\<close> has put the thread to sleep, but the calls on batches hold the mutex of
  the batch only, and so does each test of a candidate: other threads change batches, and notify,
  between two tests and between the last test and the wait. Here one thread runs \<open>pop_data_batch\<close> in
  such steps, next to threads that take the steps of the exchange.
\<close>

section \<open>The popping thread\<close>

datatype pop_phase =
    Entering
  | Searching nat
  | Before_wait
  | Asleep
  | Roused
  | Answered "nat option outcome"

text \<open>
  One step of the thread on partition \<open>i\<close> of repository \<open>k\<close>; \<open>Searching n\<close> is about to test the
  candidate \<open>n\<close>. There is no step of its own for a thread that sleeps or has returned.
\<close>

fun popper ::
  "nat \<Rightarrow> nat \<Rightarrow> batch_state \<Rightarrow> 'r exchange \<times> pop_phase \<Rightarrow> ('r exchange \<times> pop_phase) option" where
  "popper k i target (s, Entering) =
     Some (s, if i \<ge> length (partitions (ex_repos s k))
              then Answered (Inl (out_of_range ''partition_idx out of range'')) else Searching 0)"
| "popper k i target (s, Searching n) =
     Some (let ps = partitions (ex_repos s k) ! i
           in if ps = [] then (s, Answered (Inr None))
              else if n \<ge> length ps then (s, Before_wait)
              else (case deref (ex_heap s) (ps ! n) of
                      None \<Rightarrow> (s, Answered (Inl invalid_dereference))
                    | Some (a, b) \<Rightarrow>
                        (case try_transition_batch_for_pop target b of
                           (Inl e, b', cv) \<Rightarrow> (s\<lparr>ex_heap := (ex_heap s)(a \<mapsto> b')\<rparr>, Answered (Inl e))
                         | (Inr False, b', cv) \<Rightarrow> (s\<lparr>ex_heap := (ex_heap s)(a \<mapsto> b')\<rparr>, Searching (Suc n))
                         | (Inr True, b', cv) \<Rightarrow>
                             (s\<lparr>ex_heap := (ex_heap s)(a \<mapsto> b'),
                                ex_repos := (ex_repos s)(k := (ex_repos s k)
                                  \<lparr>partitions := (partitions (ex_repos s k))[i := remove_at n ps]\<rparr>),
                                ex_taken := log k i (Some a) (ex_taken s),
                                ex_holders := (if target = in_transit
                                  then (ex_holders s)(a := Suc (ex_holders s a)) else ex_holders s)\<rparr>,
                              Answered (Inr (Some a))))))"
| "popper k i target (s, Before_wait) = Some (s, Asleep)"
| "popper k i target (s, Asleep) = None"
| "popper k i target (s, Roused) = Some (s, Searching 0)"
| "popper k i target (s, Answered r) = None"

section \<open>The other threads\<close>

fun holds_mutex :: "pop_phase \<Rightarrow> bool" where
  "holds_mutex (Searching n) = True"
| "holds_mutex Before_wait = True"
| "holds_mutex _ = False"

fun needs_mutex :: "nat \<Rightarrow> 'r action \<Rightarrow> bool" where
  "needs_mutex k (Add k' p i) = (k' = k)"
| "needs_mutex k (Ask k' req i) = (k' = k)"
| "needs_mutex k _ = False"

text \<open>\<open>notify_all\<close> reaches the thread only if it sleeps; a notification that finds nobody is lost.\<close>

definition notified :: "nat \<Rightarrow> nat list \<Rightarrow> pop_phase \<Rightarrow> pop_phase" where
  "notified cv cvs ph = (if ph = Asleep \<and> cv \<in> set cvs then Roused else ph)"

inductive other_step ::
  "nat \<Rightarrow> 'r exchange \<times> pop_phase \<Rightarrow> 'r action \<Rightarrow> 'r exchange \<times> pop_phase \<Rightarrow> bool"
  for k :: nat where
  "exchange_step s act cvs s' \<Longrightarrow> \<not> (holds_mutex ph \<and> needs_mutex k act) \<Longrightarrow>
   other_step k (s, ph) act (s', notified (repo_cv (ex_repos s k)) cvs ph)"

inductive_cases other_stepE: "other_step k x act y"

text \<open>
  Runs in which the other threads keep the obligations on repository \<open>k\<close> (\<open>tidy\<close>, \<open>room\<close>): \<open>careful\<close>
  are the states that such a run can reach, \<open>careful_other\<close> is one step of another thread in it.
\<close>

inductive careful :: "nat \<Rightarrow> nat \<Rightarrow> batch_state \<Rightarrow> 'r exchange \<times> pop_phase \<Rightarrow> bool"
  for k i :: nat and t :: batch_state where
  start: "careful k i t (new_exchange cv, Entering)"
| own: "careful k i t x \<Longrightarrow> room (fst x) \<Longrightarrow> popper k i t x = Some y \<Longrightarrow> careful k i t y"
| other: "careful k i t x \<Longrightarrow> room (fst x) \<Longrightarrow> tidy k (fst x) act \<Longrightarrow> other_step k x act y \<Longrightarrow> careful k i t y"

definition careful_other :: "nat \<Rightarrow> 'r exchange \<times> pop_phase \<Rightarrow> 'r exchange \<times> pop_phase \<Rightarrow> bool" where
  "careful_other k x y \<longleftrightarrow> (\<exists>act. room (fst x) \<and> tidy k (fst x) act \<and> other_step k x act y)"

definition some_ready :: "nat \<Rightarrow> nat \<Rightarrow> batch_state \<Rightarrow> 'r exchange \<Rightarrow> bool" where
  "some_ready k i t s \<longleftrightarrow>
     (\<exists>a b. Some a \<in> set (part i (ex_repos s k)) \<and> ex_heap s a = Some b \<and> ready_for t b)"

section \<open>The repository stays attended\<close>

lemma transition_keeps:
  "try_transition_batch_for_pop t b = (r, b', cv) \<Longrightarrow> r \<noteq> Inr True \<Longrightarrow> b' = b"
  by (cases t) (auto simp: try_transition_batch_for_pop_def try_to_create_task_def
      try_to_lock_for_in_transit_def split: if_splits)

lemma popper_shape:
  assumes "popper k i t (s, ph) = Some (s', ph')" and "attended k s" and "room s"
  shows "attended k s'"
proof (cases "\<exists>n. ph = Searching n")
  case False
  with assms(1,2) show ?thesis by (cases ph) auto
next
  case True
  then obtain n where n: "ph = Searching n" by blast
  let ?ps = "partitions (ex_repos s k) ! i"
  show ?thesis
  proof (cases "?ps = [] \<or> n \<ge> length ?ps \<or> deref (ex_heap s) (?ps ! n) = None")
    case True
    with assms(1,2) n show ?thesis by (auto simp: Let_def split: if_splits)
  next
    case False
    then obtain a b where ab: "deref (ex_heap s) (?ps ! n) = Some (a, b)" and le: "n < length ?ps" by auto
    then have p: "?ps ! n = Some a" "ex_heap s a = Some b" by simp_all
    obtain r b' cv where tr: "try_transition_batch_for_pop t b = (r, b', cv)" by (metis prod_cases3)
    show ?thesis
    proof (cases "r = Inr True")
      case False
      with transition_keeps [OF tr] have "(ex_heap s)(a \<mapsto> b') = ex_heap s" using p by (simp add: fun_upd_idem)
      then have "s' = s" using assms(1) n le ab tr False
        by (auto simp: Let_def split: if_splits sum.splits bool.splits)
      with assms(2) show ?thesis by simp
    next
      case True
      with tr have ho: "handed_over (Some t) b b'" by (simp add: handed_over_def)
      have w: "well_kept b'"
        using handed_over_keeps(2) [OF ho attended_well [OF assms(2) p(2)]] assms(3) p(2) by (simp add: room_def)
      have heap: "ex_heap s' = (ex_heap s)(a \<mapsto> b')"
        and repos: "ex_repos s' k = (ex_repos s k)\<lparr>partitions := (partitions (ex_repos s k))[i := remove_at n ?ps]\<rparr>"
        using assms(1) n le ab tr True by (auto simp: Let_def split: if_splits)
      have sub: "set (part j (ex_repos s' k)) \<subseteq> set (part j (ex_repos s k))" for j
        unfolding repos
        by (cases "j = i") (auto simp: part_def remove_at_def dest: in_set_takeD in_set_dropD split: if_splits)
      show ?thesis
        using heap w sub handed_over_keeps(1) [OF ho] p(2) repos
        by (intro attended_heap [OF assms(2), where a = a and b' = b']) (auto simp: holds_def)
    qed
  qed
qed

lemma careful_attended: "careful k i t x \<Longrightarrow> attended k (fst x)"
proof (induction rule: careful.induct)
  case (start cv)
  show ?case using orderly_attended [OF orderly.init] by simp
next
  case (own x y)
  then show ?case using popper_shape [of k i t "fst x" "snd x" "fst y" "snd y"] by simp
next
  case (other x act y)
  then show ?case by (auto elim!: other_stepE dest: attended_step)
qed

section \<open>What an undisturbed thread does\<close>

lemma popper_finds:
  assumes "part i (ex_repos s k) = ps" and "all_valid (ex_heap s) ps" and "n \<le> m" and "m < length ps"
    and "ps ! m = Some c" and "ex_heap s c = Some d" and "ready_for t d"
  shows "\<exists>s' a. (\<lambda>x y. popper k i t x = Some y)\<^sup>*\<^sup>* (s, Searching n) (s', Answered (Inr (Some a)))"
  using assms(3)
proof (induction rule: inc_induct)
  case base
  have ps: "partitions (ex_repos s k) ! i = ps" "ps \<noteq> []" using assms(1,4) by (auto simp: part_def split: if_splits)
  obtain b' cv where "try_transition_batch_for_pop t d = (Inr True, b', cv)"
    using assms(7) by (cases "try_transition_batch_for_pop t d") (auto simp: ready_for_def)
  then obtain s' where "popper k i t (s, Searching m) = Some (s', Answered (Inr (Some c)))"
    using ps assms(4-6) by (auto simp: Let_def)
  then show ?case by blast
next
  case (step n)
  have ps: "partitions (ex_repos s k) ! i = ps" "ps \<noteq> []" using assms(1,4) by (auto simp: part_def split: if_splits)
  have n: "n < length ps" using step.hyps(2) assms(4) by simp
  then have "ps ! n \<in> set ps" by simp
  with assms(2) obtain a b where ab: "deref (ex_heap s) (ps ! n) = Some (a, b)"
    by (auto simp: all_valid_def list_all_iff)
  obtain r b' cv where tr: "try_transition_batch_for_pop t b = (r, b', cv)" by (metis prod_cases3)
  show ?case
  proof (cases "r = Inr True")
    case True
    with ps n ab tr obtain s' where "popper k i t (s, Searching n) = Some (s', Answered (Inr (Some a)))"
      by (auto simp: Let_def)
    then show ?thesis by blast
  next
    case False
    have "t \<noteq> processing" using assms(7) by (auto simp: ready_for_simps)
    with False tr have "r = Inr False"
      by (cases t) (auto simp: try_transition_batch_for_pop_def try_to_create_task_def
          try_to_lock_for_in_transit_def split: if_splits)
    moreover have "(ex_heap s)(a \<mapsto> b') = ex_heap s"
      using transition_keeps [OF tr False] ab by (simp add: fun_upd_idem)
    ultimately have "popper k i t (s, Searching n) = Some (s, Searching (Suc n))"
      using ps n ab tr by (simp add: Let_def)
    with step.IH show ?thesis by (meson converse_rtranclp_into_rtranclp)
  qed
qed

lemma roused_finds:
  assumes "attended k s" and "some_ready k i t s"
  shows "\<exists>s' a. (\<lambda>x y. popper k i t x = Some y)\<^sup>*\<^sup>* (s, Roused) (s', Answered (Inr (Some a)))"
proof -
  obtain a b where ab: "Some a \<in> set (part i (ex_repos s k))" "ex_heap s a = Some b" "ready_for t b"
    using assms(2) by (auto simp: some_ready_def)
  from ab(1) obtain m where "m < length (part i (ex_repos s k))" "part i (ex_repos s k) ! m = Some a"
    by (auto simp: in_set_conv_nth)
  from popper_finds [OF refl attended_valid [OF assms(1)] _ this ab(2,3), of 0]
  obtain s' c where "(\<lambda>x y. popper k i t x = Some y)\<^sup>*\<^sup>* (s, Searching 0) (s', Answered (Inr (Some c)))" by auto
  moreover have "popper k i t (s, Roused) = Some (s, Searching 0)" by simp
  ultimately show ?thesis by (meson converse_rtranclp_into_rtranclp)
qed

section \<open>A sleeping pop is woken\<close>

lemma other_wakes:
  assumes "careful_other k (s, ph) (s', ph')" and "attended k s"
    and "ph = Asleep \<and> \<not> some_ready k i t s \<or> ph = Roused"
  shows "ph' = Asleep \<and> \<not> some_ready k i t s' \<or> ph' = Roused" and "attended k s'"
proof -
  obtain act where r: "room s" "tidy k s act" "other_step k (s, ph) act (s', ph')"
    using assms(1) by (auto simp: careful_other_def)
  then obtain cvs where st: "exchange_step s act cvs s'"
    and ph': "ph' = notified (repo_cv (ex_repos s k)) cvs ph" by (auto elim: other_stepE)
  show "attended k s'" by (rule attended_step [OF st assms(2) r(2,1)])
  show "ph' = Asleep \<and> \<not> some_ready k i t s' \<or> ph' = Roused"
  proof (cases "ph = Roused \<or> repo_cv (ex_repos s k) \<in> set cvs")
    case True
    with ph' assms(3) show ?thesis by (auto simp: notified_def)
  next
    case False
    have noadd: "\<forall>p n. act \<noteq> Add k p n"
    proof (intro allI notI)
      fix p n assume "act = Add k p n"
      with st obtain heap' repo' where "add_data_batch p n (ex_heap s) (ex_repos s k) = (Inr (), heap', repo', cvs)"
        by (auto elim: exchange_step.cases)
      from add_appends(3) [OF this] False show False by simp
    qed
    have "\<not> some_ready k i t s'"
    proof
      assume "some_ready k i t s'"
      then obtain a b' where a: "Some a \<in> set (part i (ex_repos s' k))" "ex_heap s' a = Some b'" "ready_for t b'"
        by (auto simp: some_ready_def)
      from step_readies [OF st assms(2) noadd a] obtain b where b: "Some a \<in> set (part i (ex_repos s k))"
        "ex_heap s a = Some b" "ready_for t b \<or> state_change_cv b \<in> Some ` set cvs" by blast
      have "holds (ex_repos s k) (Some a)" using b(1) by (auto simp: holds_def)
      from attendedD [OF assms(2) this] b(2) have "state_change_cv b = Some (repo_cv (ex_repos s k))" by auto
      with b False have "ready_for t b" by auto
      with b(1,2) False assms(3) show False by (auto simp: some_ready_def)
    qed
    with False ph' assms(3) show ?thesis by (simp add: notified_def)
  qed
qed

text \<open>
  Property C22. A pop that sleeps is woken when one of its batches becomes ready. The obligations on
  the clients of the repository are: no batch of it is null or added to another repository, no
  client replaces the condition variable of a batch, a release from in_transit names task_created only
  with a task pending, and no batch counts \<open>2 ^ 64 - 1\<close> tasks. Let \<open>pop_data_batch\<close> have gone to sleep,
  in a run that keeps them, at a moment when no batch of its partition could make the transition.
  Then after any number of steps of other threads that keep them the pop is either still asleep and
  still no batch of the partition is ready, or it has been notified; and a notified pop whose
  partition has a ready batch, undisturbed, returns a batch. (That nothing was ready when it fell
  asleep is a hypothesis: the code does not ensure it.)
\<close>

theorem sleeping_pop_is_woken:
  assumes "careful k i t (s, Asleep)" and "\<not> some_ready k i t s"
    and "(careful_other k)\<^sup>*\<^sup>* (s, Asleep) (s', ph)"
  shows "ph = Asleep \<and> \<not> some_ready k i t s'
    \<or> ph = Roused \<and> (some_ready k i t s' \<longrightarrow>
        (\<exists>s'' a. (\<lambda>x y. popper k i t x = Some y)\<^sup>*\<^sup>* (s', Roused) (s'', Answered (Inr (Some a)))))"
proof -
  have "(ph = Asleep \<and> \<not> some_ready k i t s' \<or> ph = Roused) \<and> attended k s'"
    using assms(3)
  proof (induction "(s', ph)" arbitrary: s' ph rule: rtranclp_induct)
    case base
    with assms(2) careful_attended [OF assms(1)] show ?case by simp
  next
    case (step y)
    obtain u pu where y: "y = (u, pu)" by fastforce
    from step.hyps(3) [OF y] other_wakes [OF step.hyps(2) [unfolded y]] show ?case by blast
  qed
  with roused_finds show ?thesis by blast
qed

text \<open>A pop of the one batch of a repository, which another thread moves.\<close>

lemma one_away_step: "exchange_step one_added (Depart 7) [100] one_away"
  using exchange_step.depart [of one_added 7 "(new_data_batch 7 None)\<lparr>state_change_cv := Some 100\<rparr>"
      "(new_data_batch 7 None)\<lparr>batch_state := in_transit, state_change_cv := Some 100\<rparr>" "Some 100"]
  by (simp add: one_added_def one_away_def new_exchange_def try_to_lock_for_in_transit_def new_data_batch_def)

definition one_home :: "unit exchange" where
  "one_home = one_away
     \<lparr>ex_heap := [7 \<mapsto> (new_data_batch 7 None)\<lparr>state_change_cv := Some 100\<rparr>],
      ex_holders := (\<lambda>_. 0)\<rparr>"

lemma one_home_step: "exchange_step one_away (Arrive 7 None) [100] one_home"
proof -
  have "ex_holders one_away = (\<lambda>_. 0)(7 := 1)" by (simp add: one_away_def)
  then have h: "(ex_holders one_away)(7 := 0) = (\<lambda>_. 0)" by (simp add: fun_eq_iff)
  show ?thesis
    using exchange_step.arrive [of one_away 7
        "(new_data_batch 7 None)\<lparr>batch_state := in_transit, state_change_cv := Some 100\<rparr>" None "Inr True"
        "(new_data_batch 7 None)\<lparr>state_change_cv := Some 100\<rparr>" "Some 100"] h
    by (simp add: one_away_def one_home_def one_added_def new_exchange_def try_to_release_in_transit_def
        new_data_batch_def)
qed

lemma one_room: "room one_made" "room one_added" "room one_away" "room (new_exchange cv)"
  by (simp_all add: room_def one_made_def one_added_def one_away_def new_exchange_def new_data_batch_def)

lemma one_cv: "repo_cv (ex_repos one_away k) = 100 + k" "repo_cv (ex_repos one_added k) = 100 + k"
  "ex_repos one_away 0 = \<lparr>repo_cv = 100, partitions = [[Some 7]]\<rparr>"
  by (simp_all add: one_away_def one_added_def new_exchange_def new_repository_def)

text \<open>The thread enters when the batch is away, tests it, and is about to wait.\<close>

lemma one_pop_waits: "careful 0 0 task_created (one_away, Before_wait)"
proof -
  note run = careful.other [where k = 0 and i = 0 and t = task_created]
  have "careful 0 0 task_created (new_exchange (\<lambda>k. 100 + k), Entering)" by (rule careful.start)
  from run [OF this, of "Create 7 7 None" "(one_made, Entering)"] have "careful 0 0 task_created (one_made, Entering)"
    using other_step.intros [OF one_made_step, of Entering 0] by (simp add: notified_def one_room)
  from run [OF this, of "Add 0 (Some 7) 0" "(one_added, Entering)"] have "careful 0 0 task_created (one_added, Entering)"
    using other_step.intros [OF one_added_step, of Entering 0] by (simp add: notified_def one_room)
  from run [OF this, of "Depart 7" "(one_away, Entering)"] have 1: "careful 0 0 task_created (one_away, Entering)"
    using other_step.intros [OF one_away_step, of Entering 0] by (simp add: notified_def one_room)
  note own = careful.own [where k = 0 and i = 0 and t = task_created]
  from own [OF 1, of "(one_away, Searching 0)"] have 2: "careful 0 0 task_created (one_away, Searching 0)"
    using one_room by (simp add: one_cv)
  have "ex_heap one_away 7 = Some ((new_data_batch 7 None)\<lparr>batch_state := in_transit, state_change_cv := Some 100\<rparr>)"
    by (simp add: one_away_def)
  moreover from this have "(ex_heap one_away)(7 \<mapsto> (new_data_batch 7 None)\<lparr>batch_state := in_transit, state_change_cv := Some 100\<rparr>)
      = ex_heap one_away" by (rule fun_upd_idem)
  ultimately have "popper 0 0 task_created (one_away, Searching 0) = Some (one_away, Searching 1)"
    by (simp add: one_cv try_transition_batch_for_pop_def try_to_create_task_def)
  from own [OF 2 _ this] have 3: "careful 0 0 task_created (one_away, Searching 1)" using one_room by simp
  have "popper 0 0 task_created (one_away, Searching 1) = Some (one_away, Before_wait)" by (simp add: one_cv)
  from own [OF 3 _ this] show ?thesis using one_room by simp
qed

theorem sleeping_pop_is_woken_witness:
  "careful 0 0 task_created (one_away, Asleep) \<and> other_step 0 (one_away, Asleep) (Arrive 7 None) (one_home, Roused)
   \<and> (\<exists>s a. (\<lambda>x y. popper 0 0 task_created x = Some y)\<^sup>*\<^sup>* (one_home, Roused) (s, Answered (Inr (Some a))))"
proof -
  have sleeps: "careful 0 0 task_created (one_away, Asleep)"
    using careful.own [OF one_pop_waits, of "(one_away, Asleep)"] one_room by simp
  have none: "\<not> some_ready 0 0 task_created one_away"
    by (auto simp: some_ready_def part_def one_cv one_away_def ready_for_simps)
  have wakes: "other_step 0 (one_away, Asleep) (Arrive 7 None) (one_home, Roused)"
    using other_step.intros [OF one_home_step, of Asleep 0] by (simp add: notified_def one_cv)
  then have "(careful_other 0)\<^sup>*\<^sup>* (one_away, Asleep) (one_home, Roused)"
    unfolding careful_other_def
    by (intro r_into_rtranclp exI [of _ "Arrive 7 None"]) (simp add: one_room)
  note woken = sleeping_pop_is_woken [OF sleeps none this]
  have "some_ready 0 0 task_created one_home"
    by (auto simp: some_ready_def part_def one_home_def one_cv ready_for_simps new_data_batch_def)
  with woken sleeps wakes show ?thesis by auto
qed

section \<open>A wake-up can be lost\<close>

text \<open>
  Property C23. A wake-up of a pop can be lost. A batch call changes the state and notifies without the
  repository's mutex, so it may do so after the pop has tested the batch and before the pop waits:
  there is a run, keeping all obligations on the repository, in which the pop then goes to sleep
  although its batch is idle, nobody holds it, and a search would hand it out; the notification was
  sent before and there is none to come, so that the pop sleeps until somebody happens to notify
  the repository again.
\<close>

theorem wake_up_can_be_lost:
  "\<exists>s :: unit exchange. careful 0 0 task_created (one_away, Before_wait)
     \<and> other_step 0 (one_away, Before_wait) (Arrive 7 None) (s, Before_wait)
     \<and> popper 0 0 task_created (s, Before_wait) = Some (s, Asleep)
     \<and> careful 0 0 task_created (s, Asleep) \<and> popper 0 0 task_created (s, Asleep) = None
     \<and> fst (pop_pass task_created 0 (ex_heap s) (ex_repos s 0)) = Done (Inr (Some 7))
     \<and> (\<exists>b. ex_heap s 7 = Some b \<and> batch_state b = idle) \<and> (\<forall>a. ex_holders s a = 0)"
proof (intro exI [of _ one_home] conjI)
  show "careful 0 0 task_created (one_away, Before_wait)" by (rule one_pop_waits)
  show lost: "other_step 0 (one_away, Before_wait) (Arrive 7 None) (one_home, Before_wait)"
    using other_step.intros [OF one_home_step, of Before_wait 0] by (simp add: notified_def)
  have "careful 0 0 task_created (one_home, Before_wait)"
    by (rule careful.other [OF one_pop_waits _ _ lost]) (simp_all add: one_room)
  from careful.own [OF this, of "(one_home, Asleep)"] show "careful 0 0 task_created (one_home, Asleep)"
    by (simp add: room_def one_home_def new_data_batch_def)
  show "fst (pop_pass task_created 0 (ex_heap one_home) (ex_repos one_home 0)) = Done (Inr (Some 7))"
    by (simp add: pop_pass_def one_home_def one_cv try_transition_batch_for_pop_def try_to_create_task_def
        new_data_batch_def)
  show "\<exists>b. ex_heap one_home 7 = Some b \<and> batch_state b = idle"
    by (simp add: one_home_def new_data_batch_def)
  show "\<forall>a. ex_holders one_home a = 0" by (simp add: one_home_def)
qed simp_all

end
