(* ===== verification/Repository_Manager.thy ===== *)
theory Repository_Manager
  imports Repository_Pop "HOL-Library.List_Lexorder" "HOL-Library.Char_ord"
begin

text \<open>
  \<open>data_repository_manager\<close> (\<open>include/data/data_repository_manager.hpp\<close>): repositories under
  operator-port keys, batch identifiers, and the fan-out of a batch to several repositories.
  The map holds \<open>unique_ptr\<close>s, so an entry may be null; \<open>operator[]\<close> on a missing key makes one.
\<close>

section \<open>Keys\<close>

datatype operator_port_key = operator_port_key (operator_id: u64) (port_id: string)

text \<open>\<open>std::map\<close> uses \<open>operator<\<close>, which has to be a strict total order that agrees with
  \<open>operator==\<close>; it is the order of the instance.\<close>

definition operator_port_before :: "operator_port_key \<Rightarrow> operator_port_key \<Rightarrow> bool" where
  "operator_port_before k other =
     (if operator_id k \<noteq> operator_id other then operator_id k < operator_id other
      else port_id k < port_id other)"

instantiation operator_port_key :: linorder
begin

definition less_operator_port_key :: "operator_port_key \<Rightarrow> operator_port_key \<Rightarrow> bool" where
  "less_operator_port_key k other \<longleftrightarrow> operator_port_before k other"

definition less_eq_operator_port_key :: "operator_port_key \<Rightarrow> operator_port_key \<Rightarrow> bool" where
  "less_eq_operator_port_key k other \<longleftrightarrow> k < other \<or> k = other"

instance
proof
  fix a b c :: operator_port_key
  show "a < b \<longleftrightarrow> a \<le> b \<and> \<not> b \<le> a"
    by (auto simp: less_eq_operator_port_key_def less_operator_port_key_def operator_port_before_def split: if_splits)
  show "a \<le> a" by (simp add: less_eq_operator_port_key_def)
  show "a \<le> b \<Longrightarrow> b \<le> c \<Longrightarrow> a \<le> c"
    by (auto simp: less_eq_operator_port_key_def less_operator_port_key_def operator_port_before_def split: if_splits)
  show "a \<le> b \<Longrightarrow> b \<le> a \<Longrightarrow> a = b"
    by (auto simp: less_eq_operator_port_key_def less_operator_port_key_def operator_port_before_def split: if_splits)
  show "a \<le> b \<or> b \<le> a"
    by (cases a; cases b)
       (auto simp: less_eq_operator_port_key_def less_operator_port_key_def operator_port_before_def neq_iff)
qed

end

section \<open>The manager\<close>

record repository_manager =
  next_data_batch_id :: u64
  repositories :: "operator_port_key \<Rightarrow> repository option option"

definition new_repository_manager :: repository_manager where
  "new_repository_manager = \<lparr>next_data_batch_id = 0, repositories = Map.empty\<rparr>"

definition add_new_repository ::
  "u64 \<Rightarrow> string \<Rightarrow> repository option \<Rightarrow> repository_manager \<Rightarrow> unit outcome \<times> repository_manager"
where
  "add_new_repository op port repository m =
     (if repositories m (operator_port_key op port) \<noteq> None
      then (Inl (runtime_error ''Repository already exists''), m)
      else (Inr (), m\<lparr>repositories := (repositories m)(operator_port_key op port \<mapsto> repository)\<rparr>))"

definition get_repository ::
  "u64 \<Rightarrow> string \<Rightarrow> repository_manager \<Rightarrow> repository option outcome" where
  "get_repository op port m =
     (case repositories m (operator_port_key op port) of
        None \<Rightarrow> Inl (out_of_range ''map::at'')
      | Some r \<Rightarrow> Inr r)"

definition get_next_data_batch_id :: "repository_manager \<Rightarrow> u64 \<times> repository_manager" where
  "get_next_data_batch_id m =
     (next_data_batch_id m, m\<lparr>next_data_batch_id := next_data_batch_id m + 1\<rparr>)"

definition get_data_batches_for_downgrade ::
  "memory_space_id \<Rightarrow> u64 \<Rightarrow> repository_manager \<Rightarrow> nat option list" where
  "get_data_batches_for_downgrade space amount m = []"

text \<open>One \<open>_repositories[key]->add_data_batch(batch)\<close>.\<close>

definition add_to ::
  "nat option \<Rightarrow> u64 \<times> string \<Rightarrow> 'r batch_heap \<Rightarrow> repository_manager \<Rightarrow>
   unit outcome \<times> 'r batch_heap \<times> repository_manager"
where
  "add_to batch op heap m =
     (let key = operator_port_key (fst op) (snd op)
      in case repositories m key of
           None \<Rightarrow> (Inl invalid_dereference, heap, m\<lparr>repositories := (repositories m)(key \<mapsto> None)\<rparr>)
         | Some None \<Rightarrow> (Inl invalid_dereference, heap, m)
         | Some (Some repo) \<Rightarrow>
             (case add_data_batch batch 0 heap repo of
                (r, heap', repo', cvs) \<Rightarrow>
                  (r, heap', m\<lparr>repositories := (repositories m)(key \<mapsto> Some repo')\<rparr>)))"

fun manager_add_shared ::
  "nat option \<Rightarrow> (u64 \<times> string) list \<Rightarrow> 'r batch_heap \<Rightarrow> repository_manager \<Rightarrow>
   unit outcome \<times> 'r batch_heap \<times> repository_manager"
where
  "manager_add_shared batch [] heap m = (Inr (), heap, m)"
| "manager_add_shared batch (op # ops) heap m =
     (case add_to batch op heap m of
        (Inl e, heap', m') \<Rightarrow> (Inl e, heap', m')
      | (Inr _, heap', m') \<Rightarrow> manager_add_shared batch ops heap' m')"

definition manager_add_unique ::
  "nat option \<Rightarrow> (u64 \<times> string) list \<Rightarrow> 'r batch_heap \<Rightarrow> repository_manager \<Rightarrow>
   unit outcome \<times> 'r batch_heap \<times> repository_manager"
where
  "manager_add_unique batch ops heap m =
     (if length ops > 1
      then (Inl (runtime_error ''unique_ptr data_batch can only be added to one repository. Use shared_ptr for multiple destinations.''), heap, m)
      else (case ops of
              op # _ \<Rightarrow> add_to batch op heap m
            | [] \<Rightarrow> (Inl (runtime_error ''No operator ports provided''), heap, m)))"

section \<open>Identifiers\<close>

fun take_ids :: "nat \<Rightarrow> repository_manager \<Rightarrow> u64 list \<times> repository_manager" where
  "take_ids 0 m = ([], m)"
| "take_ids (Suc n) m =
     (let (i, m') = get_next_data_batch_id m; (is, m'') = take_ids n m' in (i # is, m''))"

lemma take_ids_eq:
  "fst (take_ids n m) = map (\<lambda>k. next_data_batch_id m + of_nat k) [0..<n]"
proof (induction n arbitrary: m)
  case (Suc n)
  let ?m = "m\<lparr>next_data_batch_id := next_data_batch_id m + 1\<rparr>"
  have "fst (take_ids (Suc n) m) = next_data_batch_id m # fst (take_ids n ?m)"
    by (simp add: get_next_data_batch_id_def Let_def split: prod.split)
  also have "\<dots> = map (\<lambda>k. next_data_batch_id m + of_nat k) [0..<Suc n]"
    using Suc.IH [of ?m] by (simp add: upt_conv_Cons map_Suc_upt [symmetric] add.assoc del: upt_Suc)
  finally show ?case .
qed simp

text \<open>
  The identifiers a manager hands out are pairwise distinct, for any number of calls
  that fits a 64-bit counter, wherever the counter stands.
\<close>

theorem batch_ids_distinct:
  assumes "n \<le> 2 ^ 64"
  shows "distinct (fst (take_ids n m))"
proof -
  have "inj_on (\<lambda>k. of_nat k :: u64) {0..<n}"
  proof (rule inj_onI)
    fix i j :: nat
    assume "i \<in> {0..<n}" "j \<in> {0..<n}" and eq: "(of_nat i :: u64) = of_nat j"
    with assms have "i < 2 ^ 64" "j < 2 ^ 64" by auto
    with arg_cong [OF eq, of unat] show "i = j" by (simp add: unat_of_nat)
  qed
  then show ?thesis
    by (simp add: take_ids_eq distinct_map inj_on_def)
qed

theorem batch_ids_distinct_witness:
  "distinct (fst (take_ids 3 new_repository_manager)) \<and> fst (take_ids 3 new_repository_manager) = [0, 1, 2]"
  using batch_ids_distinct [of 3 new_repository_manager]
  by (simp add: take_ids_eq new_repository_manager_def upt_conv_Cons)

section \<open>Fan-out\<close>

text \<open>
  Fan-out of a shared batch: when every destination is registered once, the batch is
  appended to the first partition of each of them, behind what was there, no other repository
  changes, and the batch itself changes only in the condition variable it notifies, which is
  that of the last destination.
\<close>

theorem fan_out_appends:
  assumes "heap a = Some b"
    and "distinct ops"
    and "\<forall>op \<in> set ops. \<exists>r. repositories m (operator_port_key (fst op) (snd op)) = Some (Some r) \<and> partitions r \<noteq> []"
  shows "\<exists>heap' m'. manager_add_shared (Some a) ops heap m = (Inr (), heap', m') \<and>
           (\<forall>k. repositories m' k =
              (if k \<in> (\<lambda>op. operator_port_key (fst op) (snd op)) ` set ops
               then map_option (map_option (\<lambda>r. r\<lparr>partitions := (partitions r)[0 := partitions r ! 0 @ [Some a]]\<rparr>))
                      (repositories m k)
               else repositories m k)) \<and>
           (\<forall>x. x \<noteq> a \<longrightarrow> heap' x = heap x) \<and>
           (\<exists>cv. heap' a = Some (b\<lparr>state_change_cv := cv\<rparr>))"
  using assms
proof (induction ops arbitrary: heap b m)
  case Nil
  then show ?case by (auto intro!: exI [of _ "state_change_cv b"])
next
  case (Cons op ops)
  let ?key = "operator_port_key (fst op) (snd op)"
  obtain r where r: "repositories m ?key = Some (Some r)" "partitions r \<noteq> []"
    using Cons.prems(3) by auto
  let ?r = "r\<lparr>partitions := (partitions r)[0 := partitions r ! 0 @ [Some a]]\<rparr>"
  let ?b = "set_state_change_cv (Some (repo_cv r)) b"
  let ?heap = "heap(a \<mapsto> ?b)" and ?m = "m\<lparr>repositories := (repositories m)(?key \<mapsto> Some ?r)\<rparr>"
  have step: "add_to (Some a) op heap m = (Inr (), ?heap, ?m)"
    using add_sets_cv [of heap a b 0 r] Cons.prems(1) r by (simp add: add_to_def Let_def)
  have fresh: "?key \<notin> (\<lambda>op. operator_port_key (fst op) (snd op)) ` set ops"
    using Cons.prems(2) by (auto simp: prod_eq_iff)
  have later: "\<forall>op \<in> set ops. \<exists>r. repositories ?m (operator_port_key (fst op) (snd op)) = Some (Some r) \<and> partitions r \<noteq> []"
    using Cons.prems(3) r(2) by auto
  have b': "?heap a = Some ?b" by simp
  have d: "distinct ops" using Cons.prems(2) by simp
  from Cons.IH [of ?heap ?b ?m, OF b' d later] obtain heap' m' cv where
    run: "manager_add_shared (Some a) ops ?heap ?m = (Inr (), heap', m')"
    and reps: "\<forall>k. repositories m' k =
              (if k \<in> (\<lambda>op. operator_port_key (fst op) (snd op)) ` set ops
               then map_option (map_option (\<lambda>r. r\<lparr>partitions := (partitions r)[0 := partitions r ! 0 @ [Some a]]\<rparr>))
                      (repositories ?m k)
               else repositories ?m k)"
    and frame: "\<forall>x. x \<noteq> a \<longrightarrow> heap' x = ?heap x"
    and self: "heap' a = Some (?b\<lparr>state_change_cv := cv\<rparr>)"
    by blast
  have "manager_add_shared (Some a) (op # ops) heap m = (Inr (), heap', m')"
    using step run by simp
  moreover have "heap' a = Some (b\<lparr>state_change_cv := cv\<rparr>)"
    using self by (simp add: set_state_change_cv_def)
  ultimately show ?case using reps frame fresh r(1) by (intro exI [of _ heap'] exI [of _ m']) auto
qed

definition two_ports :: repository_manager where
  "two_ports = \<lparr>next_data_batch_id = 1,
     repositories = [operator_port_key 0 ''in'' \<mapsto> Some (new_repository 100),
                     operator_port_key 1 ''in'' \<mapsto> Some (new_repository 200)]\<rparr>"

theorem fan_out_appends_witness:
  "\<exists>heap' m'. manager_add_shared (Some 0) [(0, ''in''), (1, ''in'')] busy_heap two_ports = (Inr (), heap', m') \<and>
     repositories m' (operator_port_key 1 ''in'') = Some (Some \<lparr>repo_cv = 200, partitions = [[Some 0]]\<rparr>)"
proof -
  have h: "busy_heap 0 = Some ((new_data_batch 5 None)\<lparr>batch_state := processing, processing_count := 1\<rparr>)"
    by (simp add: busy_heap_def)
  have r: "\<forall>op \<in> set [(0 :: u64, ''in''), (1, ''in'')].
      \<exists>r. repositories two_ports (operator_port_key (fst op) (snd op)) = Some (Some r) \<and> partitions r \<noteq> []"
    by (simp add: two_ports_def new_repository_def)
  show ?thesis
    using fan_out_appends [of busy_heap 0 _ "[(0, ''in''), (1, ''in'')]" two_ports, OF h _ r]
    by (force simp: two_ports_def new_repository_def)
qed

text \<open>A destination that was never registered is a null pointer that the code follows.\<close>

lemma fan_out_unregistered:
  "repositories m (operator_port_key (fst op) (snd op)) = None \<Longrightarrow>
   fst (manager_add_shared batch (op # ops) heap m) = Inl invalid_dereference"
  by (simp add: add_to_def Let_def)

lemma add_new_repository_keeps_old:
  "repositories m (operator_port_key op port) = Some r \<Longrightarrow>
   \<not> returns (fst (add_new_repository op port repository m)) \<and>
   snd (add_new_repository op port repository m) = m"
  by (simp add: add_new_repository_def)

end
