(* ===== verification/Host_Resource.thy ===== *)
theory Host_Resource
  imports Atomics Memory_Common
begin

text \<open>
  \<open>fixed_size_host_memory_resource\<close> (\<open>include/memory/fixed_size_host_memory_resource.hpp\<close>,
  \<open>src/memory/fixed_size_host_memory_resource.cpp\<close>): a pool of fixed-size blocks cut from large
  upstream allocations, with reservations that are charged to one byte counter.

  RMM is not part of the program. What the code calls of it is the argument \<open>env\<close> of type
  \<open>rmm\<close>: \<open>rmm::align_up\<close>, and the upstream resource's \<open>allocate\<close>, which returns an address or
  throws, and \<open>deallocate\<close>, both on an upstream state that the model carries along.

  \<open>_active_reservations\<close> is keyed by the address of the arena. An entry of the model holds the
  arena's \<open>_size\<close> and its tracker's \<open>allocated_bytes\<close>; the arena's \<open>_uuid\<close>, which no code reads,
  is left out. The methods that create an arena take its address as an argument.
\<close>

section \<open>State\<close>

record 'u rmm =
  align_up :: "u64 \<Rightarrow> u64 \<Rightarrow> u64"
  up_allocate :: "u64 \<Rightarrow> 'u \<Rightarrow> u64 option \<times> 'u"
  up_deallocate :: "u64 \<Rightarrow> u64 \<Rightarrow> 'u \<Rightarrow> 'u"

record chunked_reserved_area =
  area_size :: int
  area_allocated :: int

record 'u host_resource =
  host_space_id :: memory_space_id
  host_memory_limit :: u64
  host_memory_capacity :: u64
  host_block_size :: u64
  host_pool_size :: u64
  upstream :: 'u
  allocated_blocks :: "u64 list"
  free_blocks :: "u64 list"
  host_allocated_bytes :: u64
  host_peak_allocated_bytes :: u64
  active_reservations :: "(nat \<times> chunked_reserved_area) list"

text \<open>
  A \<open>multiple_blocks_allocation\<close>: its blocks, whether it knows the resource, the block size it
  copied from it, and the arena it was charged to. \<open>None\<close> in the model of a result that holds one
  is the null \<open>unique_ptr\<close>.
\<close>

record multiple_blocks_allocation =
  alloc_blocks :: "u64 list"
  alloc_has_mr :: bool
  alloc_block_size :: u64
  alloc_arena :: "nat option"

definition empty_allocation :: multiple_blocks_allocation where
  "empty_allocation =
     \<lparr>alloc_blocks = [], alloc_has_mr = False, alloc_block_size = 0, alloc_arena = None\<rparr>"

definition alloc_size_bytes :: "multiple_blocks_allocation \<Rightarrow> u64" where
  "alloc_size_bytes al = of_nat (length (alloc_blocks al)) * alloc_block_size al"

definition alloc_at :: "multiple_blocks_allocation \<Rightarrow> nat \<Rightarrow> (u64 \<times> u64) outcome" where
  "alloc_at al i =
     (if i < length (alloc_blocks al) then Inr (alloc_blocks al ! i, alloc_block_size al)
      else Inl (out_of_range ''vector::_M_range_check''))"

text \<open>The arena a reservation argument holds, as \<open>dynamic_cast\<close> sees it.\<close>

datatype arena_ref = Chunked_area nat | Other_arena

section \<open>The pool\<close>

definition expand_pool :: "'u rmm \<Rightarrow> 'u host_resource \<Rightarrow> unit outcome \<times> 'u host_resource" where
  "expand_pool env h =
     (let total_size = host_block_size h * host_pool_size h
      in case up_allocate env total_size (upstream h) of
           (None, u) \<Rightarrow> (Inl (out_of_memory ''upstream''), h\<lparr>upstream := u\<rparr>)
         | (Some large_allocation, u) \<Rightarrow>
             (Inr (), h\<lparr>upstream := u,
                allocated_blocks := allocated_blocks h @ [large_allocation],
                free_blocks := free_blocks h @
                  map (\<lambda>i. large_allocation + of_nat i * host_block_size h)
                    [0..<unat (host_pool_size h)]\<rparr>))"

fun expand_pools :: "'u rmm \<Rightarrow> nat \<Rightarrow> 'u host_resource \<Rightarrow> unit outcome \<times> 'u host_resource" where
  "expand_pools env 0 h = (Inr (), h)"
| "expand_pools env (Suc n) h =
     (case expand_pool env h of
        (Inl e, h') \<Rightarrow> (Inl e, h')
      | (Inr _, h') \<Rightarrow> expand_pools env n h')"

text \<open>\<open>alignof(std::max_align_t)\<close> is 16 on the library's targets.\<close>

definition new_host_resource ::
  "'u rmm \<Rightarrow> i32 \<Rightarrow> 'u \<Rightarrow> u64 \<Rightarrow> u64 \<Rightarrow> u64 \<Rightarrow> u64 \<Rightarrow> u64 \<Rightarrow> unit outcome \<times> 'u host_resource"
where
  "new_host_resource env dev u memory_limit memory_capacity block_size pool_size initial_pools =
     expand_pools env (unat initial_pools)
       \<lparr>host_space_id = memory_space_id HOST dev, host_memory_limit = memory_limit,
        host_memory_capacity = memory_capacity, host_block_size = align_up env block_size 16,
        host_pool_size = pool_size, upstream = u, allocated_blocks = [], free_blocks = [],
        host_allocated_bytes = 0, host_peak_allocated_bytes = 0, active_reservations = []\<rparr>"

definition destroy_host_resource :: "'u rmm \<Rightarrow> 'u host_resource \<Rightarrow> 'u host_resource" where
  "destroy_host_resource env h =
     h\<lparr>upstream := fold (\<lambda>block u. up_deallocate env block (host_block_size h * host_pool_size h) u)
                      (allocated_blocks h) (upstream h),
       allocated_blocks := [], free_blocks := []\<rparr>"

section \<open>Queries\<close>

definition host_available_memory :: "'u host_resource \<Rightarrow> u64" where
  "host_available_memory h =
     (if host_memory_capacity h > host_allocated_bytes h
      then host_memory_capacity h - host_allocated_bytes h else 0)"

definition host_total_reserved_bytes :: "'u host_resource \<Rightarrow> u64" where
  "host_total_reserved_bytes h =
     foldl (\<lambda>total p. total + to_u64 (max 0 (area_size (snd p)))) 0 (active_reservations h)"

definition host_free_blocks :: "'u host_resource \<Rightarrow> nat" where
  "host_free_blocks h = length (free_blocks h)"

definition host_total_blocks :: "'u host_resource \<Rightarrow> u64" where
  "host_total_blocks h = of_nat (length (allocated_blocks h)) * host_pool_size h"

definition host_active_reservation_count :: "'u host_resource \<Rightarrow> nat" where
  "host_active_reservation_count h = length (active_reservations h)"

definition host_do_allocate :: "u64 outcome" where
  "host_do_allocate = Inl (logic_error ''fixed_size_host_memory_resource doesn't support allocate, use allocate_multiple_blocks'')"

definition host_do_deallocate :: "u64 \<Rightarrow> u64 \<Rightarrow> 'u host_resource \<Rightarrow> 'u host_resource" where
  "host_do_deallocate ptr bytes h = h"

text \<open>Resources are compared by their addresses.\<close>

definition host_do_is_equal :: "nat \<Rightarrow> nat \<Rightarrow> bool" where
  "host_do_is_equal self other = (self = other)"

section \<open>Reservations\<close>

definition host_do_reserve :: "u64 \<Rightarrow> u64 \<Rightarrow> 'u host_resource \<Rightarrow> bool \<times> 'u host_resource" where
  "host_do_reserve bytes mem_limit h =
     (case try_add (host_allocated_bytes h) bytes mem_limit of
        (ok, post) \<Rightarrow>
          (ok, if ok then h\<lparr>host_allocated_bytes := post,
                            host_peak_allocated_bytes := update_peak (host_peak_allocated_bytes h) post\<rparr>
               else h))"

definition host_do_reserve_upto :: "u64 \<Rightarrow> u64 \<Rightarrow> 'u host_resource \<Rightarrow> u64 \<times> 'u host_resource" where
  "host_do_reserve_upto bytes mem_limit h =
     (case add_bounded (host_allocated_bytes h) bytes mem_limit of
        (bytes, post) \<Rightarrow>
          (bytes,
           h\<lparr>host_allocated_bytes := post,
             host_peak_allocated_bytes :=
               (if bytes > 0 then update_peak (host_peak_allocated_bytes h) post
                else host_peak_allocated_bytes h)\<rparr>))"

definition register_reservation :: "nat \<Rightarrow> u64 \<Rightarrow> 'u host_resource \<Rightarrow> 'u host_resource" where
  "register_reservation a bytes h =
     h\<lparr>active_reservations :=
         alist_set a \<lparr>area_size = to_i64 bytes, area_allocated = 0\<rparr> (active_reservations h)\<rparr>"

definition host_reserve ::
  "'u rmm \<Rightarrow> nat \<Rightarrow> u64 \<Rightarrow> 'u host_resource \<Rightarrow> nat option \<times> 'u host_resource" where
  "host_reserve env a bytes h =
     (let bytes = align_up env bytes (host_block_size h)
      in case host_do_reserve bytes (host_memory_limit h) h of
           (True, h') \<Rightarrow> (Some a, register_reservation a bytes h')
         | (False, h') \<Rightarrow> (None, h'))"

definition host_reserve_upto ::
  "'u rmm \<Rightarrow> nat \<Rightarrow> u64 \<Rightarrow> 'u host_resource \<Rightarrow> nat option \<times> 'u host_resource" where
  "host_reserve_upto env a bytes h =
     (let bytes = align_up env bytes (host_block_size h)
      in case host_do_reserve_upto bytes (host_memory_limit h) h of
           (reserved, h') \<Rightarrow> (Some a, register_reservation a reserved h'))"

definition host_grow_reservation_by ::
  "'u rmm \<Rightarrow> nat \<Rightarrow> u64 \<Rightarrow> 'u host_resource \<Rightarrow> bool \<times> 'u host_resource" where
  "host_grow_reservation_by env a bytes h =
     (let bytes = align_up env bytes (host_block_size h)
      in case host_do_reserve bytes (host_memory_limit h) h of
           (True, h') \<Rightarrow>
             (True, (case map_of (active_reservations h') a of
                       None \<Rightarrow> h'
                     | Some ar \<Rightarrow>
                         h'\<lparr>active_reservations :=
                             alist_set a (ar\<lparr>area_size := area_size ar + to_i64 bytes\<rparr>)
                               (active_reservations h')\<rparr>))
         | (False, h') \<Rightarrow> (False, h'))"

definition host_shrink_reservation_to_fit ::
  "nat \<Rightarrow> 'u host_resource \<Rightarrow> unit outcome \<times> 'u host_resource" where
  "host_shrink_reservation_to_fit a h =
     (case map_of (active_reservations h) a of
        None \<Rightarrow> (Inl assertion_failure, h)
      | Some ar \<Rightarrow>
          let current = max 0 (area_allocated ar)
          in if current < area_size ar
             then (Inr (), h\<lparr>active_reservations :=
                               alist_set a (ar\<lparr>area_size := current\<rparr>) (active_reservations h),
                             host_allocated_bytes :=
                               sub (host_allocated_bytes h) (to_u64 (area_size ar - current))\<rparr>)
             else (Inr (), h))"

definition release_reservation :: "nat \<Rightarrow> 'u host_resource \<Rightarrow> unit outcome \<times> 'u host_resource" where
  "release_reservation a h =
     (case map_of (active_reservations h) a of
        None \<Rightarrow> (Inl (runtime_error ''reservation was not registered or already freed''), h)
      | Some ar \<Rightarrow>
          let current = max 0 (area_allocated ar);
              reclaimed = (if area_size ar > current then to_u64 (area_size ar - current) else 0)
          in (Inr (), h\<lparr>host_allocated_bytes := sub (host_allocated_bytes h) reclaimed,
                        active_reservations := alist_erase a (active_reservations h)\<rparr>))"

section \<open>Allocation\<close>

text \<open>
  The charge of a request to its reservation: the tracker takes all of it, and the part that the
  reservation does not cover is what the byte counter has to take.
\<close>

definition charge ::
  "arena_ref option \<Rightarrow> u64 \<Rightarrow> 'u host_resource \<Rightarrow> (u64 \<times> 'u host_resource) outcome" where
  "charge res total_bytes h =
     (case res of
        None \<Rightarrow> Inr (total_bytes, h)
      | Some Other_arena \<Rightarrow>
          Inl (runtime_error ''cannot make allocation with other reservation type'')
      | Some (Chunked_area a) \<Rightarrow>
          (case map_of (active_reservations h) a of
             None \<Rightarrow> Inl (runtime_error ''reservation has been freed already'')
           | Some ar \<Rightarrow>
               let reservation_size = area_size ar;
                   pre = area_allocated ar;
                   post = pre + to_i64 total_bytes;
                   tracked = (if post \<le> reservation_size then 0
                              else if pre < reservation_size then to_u64 (post - reservation_size)
                              else total_bytes)
               in Inr (tracked,
                       h\<lparr>active_reservations :=
                           alist_set a (ar\<lparr>area_allocated := wrap_i64 post\<rparr>)
                             (active_reservations h)\<rparr>)))"

definition uncharge :: "arena_ref option \<Rightarrow> u64 \<Rightarrow> 'u host_resource \<Rightarrow> 'u host_resource" where
  "uncharge res total_bytes h =
     (case res of
        Some (Chunked_area a) \<Rightarrow>
          (case map_of (active_reservations h) a of
             None \<Rightarrow> h
           | Some ar \<Rightarrow>
               h\<lparr>active_reservations :=
                   alist_set a (ar\<lparr>area_allocated := wrap_i64 (area_allocated ar - to_i64 total_bytes)\<rparr>)
                     (active_reservations h)\<rparr>)
      | _ \<Rightarrow> h)"

text \<open>
  The loop that takes \<open>n\<close> blocks: all of them; or an empty free list after an expansion, with the
  blocks taken so far; or the exception of a failing expansion.
\<close>

datatype block_run = Got "u64 list" | Still_empty "u64 list" | Threw exn

fun take_blocks ::
  "'u rmm \<Rightarrow> nat \<Rightarrow> u64 list \<Rightarrow> 'u host_resource \<Rightarrow> block_run \<times> 'u host_resource" where
  "take_blocks env 0 taken h = (Got taken, h)"
| "take_blocks env (Suc n) taken h =
     (case (if free_blocks h = [] then expand_pool env h else (Inr (), h)) of
        (Inl e, h') \<Rightarrow> (Threw e, h')
      | (Inr _, h') \<Rightarrow>
          if free_blocks h' = [] then (Still_empty taken, h')
          else take_blocks env n (taken @ [last (free_blocks h')])
                 (h'\<lparr>free_blocks := butlast (free_blocks h')\<rparr>))"

definition arena_of :: "arena_ref option \<Rightarrow> nat option" where
  "arena_of res = (case res of Some (Chunked_area a) \<Rightarrow> Some a | _ \<Rightarrow> None)"

definition allocate_multiple_blocks ::
  "'u rmm \<Rightarrow> u64 \<Rightarrow> arena_ref option \<Rightarrow> 'u host_resource \<Rightarrow>
   multiple_blocks_allocation option outcome \<times> 'u host_resource"
where
  "allocate_multiple_blocks env total_bytes res h =
     (if total_bytes = 0 then (Inr (Some empty_allocation), h)
      else
        let total_bytes = align_up env total_bytes (host_block_size h);
            num_blocks = total_bytes div host_block_size h
        in case charge res total_bytes h of
             Inl e \<Rightarrow> (Inl e, h)
           | Inr (tracked, h1) \<Rightarrow>
               (case try_add (host_allocated_bytes h1) tracked (host_memory_capacity h1) of
                  (False, _) \<Rightarrow> (Inr None, uncharge res total_bytes h1)
                | (True, post) \<Rightarrow>
                    (case take_blocks env (unat num_blocks) [] (h1\<lparr>host_allocated_bytes := post\<rparr>) of
                       (Threw e, h2) \<Rightarrow> (Inl e, h2)
                     | (Still_empty taken, h2) \<Rightarrow>
                         (Inl (out_of_memory ''Not enough free blocks available in fixed_size_host_memory_resource and pool expansion failed.''),
                          uncharge res total_bytes
                            (h2\<lparr>free_blocks := free_blocks h2 @ taken,
                                host_allocated_bytes := sub (host_allocated_bytes h2) tracked\<rparr>))
                     | (Got blocks, h2) \<Rightarrow>
                         (Inr (Some \<lparr>alloc_blocks = blocks, alloc_has_mr = True,
                                     alloc_block_size = host_block_size h,
                                     alloc_arena = arena_of res\<rparr>),
                          h2\<lparr>host_peak_allocated_bytes :=
                               update_peak (host_peak_allocated_bytes h2) post\<rparr>))))"

definition return_allocated_chunks ::
  "u64 list \<Rightarrow> nat option \<Rightarrow> 'u host_resource \<Rightarrow> 'u host_resource" where
  "return_allocated_chunks chunks arena h =
     (let bytes = of_nat (length chunks) * host_block_size h
      in case arena of
           None \<Rightarrow> h\<lparr>host_allocated_bytes := sub (host_allocated_bytes h) bytes\<rparr>
         | Some a \<Rightarrow>
             (case map_of (active_reservations h) a of
                None \<Rightarrow> h\<lparr>host_allocated_bytes := sub (host_allocated_bytes h) bytes\<rparr>
              | Some ar \<Rightarrow>
                  let reservation_size = area_size ar;
                      pre = area_allocated ar;
                      post = pre - to_i64 bytes;
                      reclaimed = (if pre \<le> reservation_size then 0
                                   else if post < reservation_size then to_u64 (pre - reservation_size)
                                   else bytes)
                  in h\<lparr>active_reservations :=
                         alist_set a (ar\<lparr>area_allocated := wrap_i64 post\<rparr>) (active_reservations h),
                       host_allocated_bytes := sub (host_allocated_bytes h) reclaimed\<rparr>))"

definition destroy_allocation ::
  "multiple_blocks_allocation \<Rightarrow> 'u host_resource \<Rightarrow> 'u host_resource" where
  "destroy_allocation al h =
     (if alloc_has_mr al \<and> alloc_blocks al \<noteq> []
      then return_allocated_chunks (alloc_blocks al) (alloc_arena al) h else h)"

end
