(* ===== verification/Host_Accounting.thy ===== *)
theory Host_Accounting
  imports Host_Resource
begin

text \<open>
  The byte accounting of \<open>fixed_size_host_memory_resource\<close>: one counter is charged by
  reservations, by the part of an allocation that its reservation does not cover, and by
  allocations without a reservation, and the same amounts have to come off it in every order in
  which reservations and allocations can end. \<open>accounted\<close> is what the counter should hold;
  \<open>host_inv\<close> relates the two, one lemma per operation shows that it is kept, and \<open>host_step\<close>
  collects the operations into a transition system. The theorems about its reachable states
  are in \<open>Host_Guarantees\<close>.
\<close>

section \<open>What RMM promises\<close>

text \<open>
  \<open>rmm::align_up\<close> is documented for powers of two: the least multiple of the alignment that is not
  below the value. The sum that it computes must not overflow.
\<close>

definition power_of_two :: "u64 \<Rightarrow> bool" where
  "power_of_two a \<longleftrightarrow> (\<exists>k < 64. unat a = 2 ^ k)"

definition align_law :: "'u rmm \<Rightarrow> bool" where
  "align_law env \<longleftrightarrow>
     (\<forall>n a. power_of_two a \<and> unat n + unat a < 2 ^ 64 \<longrightarrow>
        unat a dvd unat (align_up env n a) \<and> unat n \<le> unat (align_up env n a)
        \<and> unat (align_up env n a) < unat n + unat a)"

section \<open>The accounting\<close>

text \<open>
  An active reservation accounts for the larger of its size and of what was allocated from it. A
  live allocation that was made without a reservation, or whose reservation is gone, accounts for
  its own bytes. \<open>meets tidy\<close> is equality for the executions in which nothing overcharges the
  counter, and \<open>\<le>\<close> for all of them.
\<close>

definition weigh :: "nat \<Rightarrow> (multiple_blocks_allocation \<Rightarrow> bool) \<Rightarrow> multiple_blocks_allocation list \<Rightarrow> nat" where
  "weigh b P ls = sum_where (\<lambda>al. length (alloc_blocks al) * b) P ls"

definition on_arena :: "nat \<Rightarrow> multiple_blocks_allocation \<Rightarrow> bool" where
  "on_arena a al \<longleftrightarrow> alloc_arena al = Some a"

definition loose :: "(nat \<times> chunked_reserved_area) list \<Rightarrow> multiple_blocks_allocation \<Rightarrow> bool" where
  "loose rs al \<longleftrightarrow> (case alloc_arena al of None \<Rightarrow> True | Some a \<Rightarrow> map_of rs a = None)"

definition footprint :: "chunked_reserved_area \<Rightarrow> nat" where
  "footprint ar = nat (max (area_size ar) (area_allocated ar))"

definition accounted :: "'u host_resource \<Rightarrow> multiple_blocks_allocation list \<Rightarrow> nat" where
  "accounted h ls =
     alist_sum footprint (active_reservations h)
     + weigh (unat (host_block_size h)) (loose (active_reservations h)) ls"

definition meets :: "bool \<Rightarrow> nat \<Rightarrow> nat \<Rightarrow> bool" where
  "meets tidy x y = (if tidy then x = y else x \<le> y)"

lemma meets_le: "meets t x y \<Longrightarrow> x \<le> y"
  by (auto simp: meets_def split: if_splits)

lemma meets_refl [simp]: "meets t x x" by (simp add: meets_def)

lemma meets_step: "meets t x y \<Longrightarrow> x' + d = x + c \<Longrightarrow> y' + d = y + c \<Longrightarrow> meets t x' y'"
  by (auto simp: meets_def split: if_splits)

definition host_bounds :: "'u host_resource \<Rightarrow> bool" where
  "host_bounds h \<longleftrightarrow> power_of_two (host_block_size h) \<and> unat (host_block_size h) < 2 ^ 61
     \<and> host_memory_limit h \<le> host_memory_capacity h \<and> unat (host_memory_capacity h) < 2 ^ 62"

definition host_inv :: "bool \<Rightarrow> 'u host_resource \<Rightarrow> multiple_blocks_allocation list \<Rightarrow> bool" where
  "host_inv tidy h ls \<longleftrightarrow>
     host_bounds h \<and> distinct (map fst (active_reservations h))
     \<and> (\<forall>a ar. map_of (active_reservations h) a = Some ar \<longrightarrow>
          0 \<le> area_size ar \<and> 0 \<le> area_allocated ar
          \<and> meets tidy (weigh (unat (host_block_size h)) (on_arena a) ls) (nat (area_allocated ar)))
     \<and> meets tidy (accounted h ls) (unat (host_allocated_bytes h))
     \<and> host_allocated_bytes h \<le> host_memory_capacity h"

section \<open>Weights\<close>

lemma weigh_simps [simp]:
  "weigh b P [] = 0"
  "weigh b P (al # ls) = (if P al then length (alloc_blocks al) * b else 0) + weigh b P ls"
  by (simp_all add: weigh_def)

lemma weigh_append [simp]: "weigh b P (xs @ ys) = weigh b P xs + weigh b P ys"
  by (simp add: weigh_def)

lemma weigh_remove1:
  "al \<in> set ls \<Longrightarrow>
     weigh b P (remove1 al ls) + (if P al then length (alloc_blocks al) * b else 0) = weigh b P ls"
  unfolding weigh_def by (rule sum_where_remove1)

lemma weigh_cong: "(\<And>al. al \<in> set ls \<Longrightarrow> P al \<longleftrightarrow> Q al) \<Longrightarrow> weigh b P ls = weigh b Q ls"
  unfolding weigh_def by (rule sum_where_cong)

lemma weigh_disj:
  "(\<And>al. al \<in> set ls \<Longrightarrow> R al \<longleftrightarrow> P al \<or> Q al) \<Longrightarrow> (\<And>al. \<not> (P al \<and> Q al)) \<Longrightarrow>
     weigh b R ls = weigh b P ls + weigh b Q ls"
  unfolding weigh_def by (rule sum_where_disj)

lemma weigh_none: "(\<And>al. al \<in> set ls \<Longrightarrow> \<not> P al) \<Longrightarrow> weigh b P ls = 0"
  unfolding weigh_def by (rule sum_where_none)

lemma loose_same_keys:
  "(\<And>a. map_of rs a = None \<longleftrightarrow> map_of rs' a = None) \<Longrightarrow> loose rs = loose rs'"
  by (auto simp: loose_def fun_eq_iff split: option.splits)

lemma loose_alist_set [simp]:
  "map_of rs a = Some ar \<Longrightarrow> loose (alist_set a ar' rs) = loose rs"
  by (rule loose_same_keys) auto

section \<open>Reading the invariant\<close>

lemma host_inv_arena:
  assumes "host_inv t h ls" and "map_of (active_reservations h) a = Some ar"
  shows "0 \<le> area_size ar" and "0 \<le> area_allocated ar"
    and "meets t (weigh (unat (host_block_size h)) (on_arena a) ls) (nat (area_allocated ar))"
    and "footprint ar \<le> unat (host_allocated_bytes h)"
proof -
  show "0 \<le> area_size ar" "0 \<le> area_allocated ar"
    "meets t (weigh (unat (host_block_size h)) (on_arena a) ls) (nat (area_allocated ar))"
    using assms by (auto simp: host_inv_def)
  have "footprint ar \<le> accounted h ls"
    using alist_sum_ge [OF assms(2), of footprint] by (simp add: accounted_def)
  also have "\<dots> \<le> unat (host_allocated_bytes h)"
    using assms(1) meets_le by (auto simp: host_inv_def)
  finally show "footprint ar \<le> unat (host_allocated_bytes h)" .
qed

lemma host_inv_bound:
  assumes "host_inv t h ls"
  shows "unat (host_allocated_bytes h) < 2 ^ 62"
  using assms by (auto simp: host_inv_def host_bounds_def word_le_nat_alt)

lemma host_inv_small:
  assumes "host_inv t h ls" and "map_of (active_reservations h) a = Some ar"
  shows "area_size ar < 2 ^ 62" and "area_allocated ar < 2 ^ 62"
  using host_inv_arena(4) [OF assms] host_inv_bound [OF assms(1)]
  by (auto simp: footprint_def)

lemma aligned:
  assumes "align_law env" and "power_of_two bs" and "unat bs < 2 ^ 61" and "unat n < 2 ^ 61"
  shows "unat bs dvd unat (align_up env n bs)" and "unat (align_up env n bs) < 2 ^ 62"
    and "unat n \<le> unat (align_up env n bs)"
proof -
  have "unat bs dvd unat (align_up env n bs) \<and> unat n \<le> unat (align_up env n bs)
      \<and> unat (align_up env n bs) < unat n + unat bs"
    using assms unfolding align_law_def by (auto intro: order_less_trans [of _ "2 ^ 61 + 2 ^ 61"])
  with assms show "unat bs dvd unat (align_up env n bs)" "unat (align_up env n bs) < 2 ^ 62"
    "unat n \<le> unat (align_up env n bs)"
    by auto
qed

section \<open>Preservation, one operation at a time\<close>

definition same_config :: "'u host_resource \<Rightarrow> 'u host_resource \<Rightarrow> bool" where
  "same_config h h' \<longleftrightarrow> host_block_size h' = host_block_size h
     \<and> host_memory_limit h' = host_memory_limit h \<and> host_memory_capacity h' = host_memory_capacity h"

lemma host_inv_arena_change:
  assumes inv: "host_inv t h ls" and a: "map_of (active_reservations h) a = Some ar"
    and cfg: "same_config h h'"
    and act: "active_reservations h' = alist_set a ar' (active_reservations h)"
    and nonneg: "0 \<le> area_size ar'" "0 \<le> area_allocated ar'"
    and counter: "meets t (unat (host_allocated_bytes h) + footprint ar')
                          (unat (host_allocated_bytes h') + footprint ar)"
    and cap: "host_allocated_bytes h' \<le> host_memory_capacity h"
    and this_arena: "meets t (weigh (unat (host_block_size h)) (on_arena a) ls')
                             (nat (area_allocated ar'))"
    and others: "\<And>a'. a' \<noteq> a \<Longrightarrow> weigh (unat (host_block_size h)) (on_arena a') ls'
                                 = weigh (unat (host_block_size h)) (on_arena a') ls"
    and unbound: "weigh (unat (host_block_size h)) (loose (active_reservations h)) ls'
                = weigh (unat (host_block_size h)) (loose (active_reservations h)) ls"
  shows "host_inv t h' ls'"
proof -
  have "accounted h' ls' + footprint ar = accounted h ls + footprint ar'"
    using alist_sum_set [OF a, of footprint ar'] act unbound cfg a
    by (simp add: accounted_def same_config_def)
  moreover have "meets t (accounted h ls) (unat (host_allocated_bytes h))"
    using inv by (simp add: host_inv_def)
  ultimately have "meets t (accounted h' ls') (unat (host_allocated_bytes h'))"
    using counter by (auto simp: meets_def split: if_splits)
  then show ?thesis
    using inv cfg nonneg cap this_arena others
    by (auto simp: host_inv_def host_bounds_def same_config_def act distinct_alist_set)
qed

lemma host_inv_loose_change:
  assumes inv: "host_inv t h ls" and cfg: "same_config h h'"
    and act: "active_reservations h' = active_reservations h"
    and counter: "unat (host_allocated_bytes h')
                    + weigh (unat (host_block_size h)) (loose (active_reservations h)) ls
                  = unat (host_allocated_bytes h)
                    + weigh (unat (host_block_size h)) (loose (active_reservations h)) ls'"
    and cap: "host_allocated_bytes h' \<le> host_memory_capacity h"
    and bound: "\<And>a ar. map_of (active_reservations h) a = Some ar \<Longrightarrow>
                  weigh (unat (host_block_size h)) (on_arena a) ls'
                = weigh (unat (host_block_size h)) (on_arena a) ls"
  shows "host_inv t h' ls'"
proof -
  have "meets t (accounted h' ls') (unat (host_allocated_bytes h'))"
    using inv counter act cfg
    by (auto simp: host_inv_def accounted_def same_config_def meets_def split: if_splits)
  then show ?thesis
    using inv cfg cap bound by (auto simp: host_inv_def host_bounds_def same_config_def act)
qed

lemma host_inv_same:
  assumes "host_inv t h ls" and "same_config h h'"
    and "active_reservations h' = active_reservations h"
    and "host_allocated_bytes h' = host_allocated_bytes h"
  shows "host_inv t h' ls"
  using assms by (intro host_inv_loose_change [OF assms(1,2)]) (auto simp: host_inv_def)

lemma try_add_host:
  assumes "try_add (c :: u64) d b = (True, p)"
  shows "unat p = unat c + unat d" and "p \<le> b"
  using try_add_u64 [of c d b] try_add_bound [of c d b] assms by auto

lemma host_do_reserve_ok:
  assumes "host_do_reserve bytes lim h = (True, h')"
  shows "unat (host_allocated_bytes h') = unat (host_allocated_bytes h) + unat bytes"
    and "host_allocated_bytes h' \<le> lim" and "same_config h h'"
    and "active_reservations h' = active_reservations h"
  using assms try_add_host
  by (auto simp: host_do_reserve_def same_config_def split: prod.splits if_splits)

lemma host_do_reserve_fail:
  "host_do_reserve bytes lim h = (False, h') \<Longrightarrow> h' = h"
  by (auto simp: host_do_reserve_def split: prod.splits if_splits)

lemma host_do_reserve_upto_ok:
  assumes "host_do_reserve_upto bytes lim h = (got, h')"
  shows "unat (host_allocated_bytes h') = unat (host_allocated_bytes h) + unat got"
    and "unat got = min (unat bytes) (unat lim - unat (host_allocated_bytes h))"
    and "same_config h h'" and "active_reservations h' = active_reservations h"
  using assms add_bounded_u64 [of "host_allocated_bytes h" bytes lim]
  by (auto simp: host_do_reserve_upto_def same_config_def split: prod.splits if_splits)

definition fresh_arena :: "nat \<Rightarrow> 'u host_resource \<Rightarrow> multiple_blocks_allocation list \<Rightarrow> bool" where
  "fresh_arena a h ls \<longleftrightarrow>
     map_of (active_reservations h) a = None \<and> (\<forall>al \<in> set ls. alloc_arena al \<noteq> Some a)"

lemma register_preserves:
  assumes inv: "host_inv t h ls" and fresh: "fresh_arena a h ls" and cfg: "same_config h h'"
    and act: "active_reservations h' = active_reservations h"
    and counter: "unat (host_allocated_bytes h') = unat (host_allocated_bytes h) + unat bytes"
    and cap: "host_allocated_bytes h' \<le> host_memory_capacity h"
  shows "host_inv t (register_reservation a bytes h') ls"
proof -
  let ?rs = "active_reservations h" and ?b = "unat (host_block_size h)"
  let ?h = "register_reservation a bytes h'"
  from cap inv have small: "unat bytes < 2 ^ 62"
    using counter by (auto simp: host_inv_def host_bounds_def word_le_nat_alt)
  then have size: "to_i64 bytes = int (unat bytes)" by (simp add: to_i64_small)
  from fresh have new: "map_of ?rs a = None" and unused: "\<And>al. al \<in> set ls \<Longrightarrow> \<not> on_arena a al"
    by (auto simp: fresh_arena_def on_arena_def)
  have "weigh ?b (loose (alist_set a \<lparr>area_size = to_i64 bytes, area_allocated = 0\<rparr> ?rs)) ls
        = weigh ?b (loose ?rs) ls"
    using unused by (intro weigh_cong) (auto simp: loose_def on_arena_def split: option.splits)
  then have "accounted ?h ls = accounted h ls + unat bytes"
    using alist_sum_new [OF new] cfg
    by (simp add: accounted_def register_reservation_def same_config_def act footprint_def size)
  moreover have "weigh ?b (on_arena a) ls = 0" by (rule weigh_none [OF unused])
  ultimately show ?thesis
    using inv cfg counter cap
    by (auto simp: host_inv_def host_bounds_def same_config_def register_reservation_def act size
        distinct_alist_set meets_def split: if_splits)
qed

lemma reserve_preserves:
  assumes inv: "host_inv t h ls" and fresh: "fresh_arena a h ls"
    and r: "host_reserve env a bytes h = (r, h')"
  shows "host_inv t h' ls"
proof (cases "host_do_reserve (align_up env bytes (host_block_size h)) (host_memory_limit h) h")
  case (Pair ok h1)
  show ?thesis
  proof (cases ok)
    case True
    with Pair r have h': "h' = register_reservation a (align_up env bytes (host_block_size h)) h1"
      by (auto simp: host_reserve_def Let_def)
    from True Pair have got: "host_do_reserve (align_up env bytes (host_block_size h)) (host_memory_limit h) h
                        = (True, h1)" by simp
    note ok = host_do_reserve_ok [OF got]
    have "host_allocated_bytes h1 \<le> host_memory_capacity h"
      using ok(2) inv by (auto simp: host_inv_def host_bounds_def)
    with ok show ?thesis unfolding h' by (intro register_preserves [OF inv fresh]) auto
  next
    case False
    with Pair r inv show ?thesis by (auto simp: host_reserve_def Let_def dest: host_do_reserve_fail)
  qed
qed

lemma reserve_upto_preserves:
  assumes inv: "host_inv t h ls" and fresh: "fresh_arena a h ls"
    and r: "host_reserve_upto env a bytes h = (r, h')"
  shows "host_inv t h' ls"
proof (cases "host_do_reserve_upto (align_up env bytes (host_block_size h)) (host_memory_limit h) h")
  case (Pair got h1)
  with r have h': "h' = register_reservation a got h1"
    by (auto simp: host_reserve_upto_def Let_def)
  note ok = host_do_reserve_upto_ok [OF Pair]
  have "host_allocated_bytes h1 \<le> host_memory_capacity h"
    using ok(1,2) inv by (auto simp: host_inv_def host_bounds_def word_le_nat_alt)
  with ok show ?thesis unfolding h' by (intro register_preserves [OF inv fresh]) auto
qed

lemma grow_preserves:
  assumes inv: "host_inv t h ls" and law: "align_law env" and small: "unat bytes < 2 ^ 61"
    and a: "map_of (active_reservations h) a = Some ar"
    and within: "t \<Longrightarrow> area_allocated ar \<le> area_size ar"
    and r: "host_grow_reservation_by env a bytes h = (ok, h')"
  shows "host_inv t h' ls"
proof -
  let ?n = "align_up env bytes (host_block_size h)"
  have b: "host_bounds h" using inv by (simp add: host_inv_def)
  then have n: "unat ?n < 2 ^ 62"
    using aligned(2) [OF law _ _ small] by (auto simp: host_bounds_def)
  define k where "k = unat ?n"
  from n have i: "to_i64 ?n = int k" unfolding k_def by (intro to_i64_small) simp
  note ar = host_inv_arena [OF inv a]
  show ?thesis
  proof (cases "host_do_reserve ?n (host_memory_limit h) h")
    case (Pair ok' h1)
    show ?thesis
    proof (cases ok')
      case False
      with Pair r inv show ?thesis
        by (auto simp: host_grow_reservation_by_def Let_def dest: host_do_reserve_fail)
    next
      case True
      from True Pair have got: "host_do_reserve ?n (host_memory_limit h) h = (True, h1)" by simp
      note ok = host_do_reserve_ok [OF got]
      let ?ar = "ar\<lparr>area_size := area_size ar + to_i64 ?n\<rparr>"
      have h': "h' = h1\<lparr>active_reservations := alist_set a ?ar (active_reservations h)\<rparr>"
        using r Pair True ok(4) a by (auto simp: host_grow_reservation_by_def Let_def)
      have "meets t (unat (host_allocated_bytes h) + footprint ?ar)
                    (unat (host_allocated_bytes h1) + footprint ar)"
        using within ok(1) ar(1,2) unfolding k_def [symmetric]
        by (auto simp: meets_def footprint_def i max_def nat_add_distrib)
      moreover have "host_allocated_bytes h1 \<le> host_memory_capacity h"
        using ok(2) b by (auto simp: host_bounds_def)
      ultimately show ?thesis
        using ar(1-3) ok(3) unfolding h'
        by (intro host_inv_arena_change [OF inv a, where ar' = ?ar]) (auto simp: same_config_def i)
    qed
  qed
qed

lemma sub_host:
  assumes "unat d \<le> unat c" shows "unat (sub (c :: u64) d) = unat c - unat d" and "sub c d \<le> c"
  using assms by (simp_all add: sub_def unat_sub_exact word_le_nat_alt)

lemma shrink_preserves:
  assumes inv: "host_inv t h ls" and r: "host_shrink_reservation_to_fit a h = (r, h')"
  shows "host_inv t h' ls"
proof (cases "map_of (active_reservations h) a")
  case None with inv r show ?thesis by (simp add: host_shrink_reservation_to_fit_def)
next
  case (Some ar)
  note ar = host_inv_arena [OF inv Some] and lt = host_inv_small [OF inv Some]
  show ?thesis
  proof (cases "area_allocated ar < area_size ar")
    case False
    with inv r Some ar(2) show ?thesis
      by (simp add: host_shrink_reservation_to_fit_def Let_def max_def)
  next
    case True
    let ?d = "to_u64 (area_size ar - area_allocated ar)"
    let ?ar = "ar\<lparr>area_size := area_allocated ar\<rparr>"
    have d: "unat ?d = nat (area_size ar - area_allocated ar)"
      using True lt ar by (intro unat_to_u64) auto
    have le: "unat ?d \<le> unat (host_allocated_bytes h)"
      using d ar(2,4) True by (simp add: footprint_def max_def)
    have h': "h' = h\<lparr>active_reservations := alist_set a ?ar (active_reservations h),
                   host_allocated_bytes := sub (host_allocated_bytes h) ?d\<rparr>"
      using r Some True ar(2) by (simp add: host_shrink_reservation_to_fit_def Let_def max_def)
    have "unat (host_allocated_bytes h) + footprint ?ar
          = unat (sub (host_allocated_bytes h) ?d) + footprint ar"
      using sub_host(1) [OF le] le d True ar(2,4)
      by (simp add: footprint_def max_def nat_diff_distrib)
    moreover have "sub (host_allocated_bytes h) ?d \<le> host_memory_capacity h"
      using sub_host(2) [OF le] inv by (auto simp: host_inv_def)
    ultimately show ?thesis
      using ar(2,3) unfolding h'
      by (intro host_inv_arena_change [OF inv Some, where ar' = ?ar]) (auto simp: same_config_def)
  qed
qed

lemma release_preserves:
  assumes inv: "host_inv t h ls" and r: "release_reservation a h = (r, h')"
  shows "host_inv t h' ls"
proof (cases "map_of (active_reservations h) a")
  case None with inv r show ?thesis by (simp add: release_reservation_def)
next
  case (Some ar)
  let ?rs = "active_reservations h" and ?b = "unat (host_block_size h)"
  let ?d = "if area_allocated ar < area_size ar then to_u64 (area_size ar - area_allocated ar) else 0"
  note ar = host_inv_arena [OF inv Some] and lt = host_inv_small [OF inv Some]
  have h': "h' = h\<lparr>host_allocated_bytes := sub (host_allocated_bytes h) ?d,
                  active_reservations := alist_erase a ?rs\<rparr>"
    using r Some ar(2) by (simp add: release_reservation_def Let_def max_def)
  have d: "unat ?d + nat (area_allocated ar) = footprint ar"
    using ar(1,2) lt by (auto simp: footprint_def unat_to_u64 nat_diff_distrib)
  have le: "unat ?d \<le> unat (host_allocated_bytes h)"
    using d ar(4) by linarith
  have dis: "distinct (map fst ?rs)" using inv by (simp add: host_inv_def)
  have "weigh ?b (loose (alist_erase a ?rs)) ls = weigh ?b (loose ?rs) ls + weigh ?b (on_arena a) ls"
    using Some by (intro weigh_disj) (auto simp: loose_def on_arena_def split: option.splits)
  then have acc: "accounted h' ls + footprint ar = accounted h ls + weigh ?b (on_arena a) ls"
    using alist_sum_erase [OF dis Some, of footprint] by (simp add: accounted_def h')
  have "meets t (accounted h ls) (unat (host_allocated_bytes h))"
    using inv by (simp add: host_inv_def)
  with acc d ar(3) have "meets t (accounted h' ls) (unat (host_allocated_bytes h'))"
    using sub_host(1) [OF le] le by (auto simp: meets_def h' split: if_splits)
  moreover have "host_allocated_bytes h' \<le> host_memory_capacity h"
    using sub_host(2) [OF le] inv by (auto simp: host_inv_def h')
  ultimately show ?thesis
    using inv by (auto simp: host_inv_def host_bounds_def h' distinct_alist_erase split: if_splits)
qed

section \<open>Allocation\<close>

definition pool_frame :: "'u host_resource \<Rightarrow> 'u host_resource \<Rightarrow> bool" where
  "pool_frame h h' \<longleftrightarrow> same_config h h' \<and> host_pool_size h' = host_pool_size h
     \<and> active_reservations h' = active_reservations h
     \<and> host_allocated_bytes h' = host_allocated_bytes h"

lemma expand_pool_frame: "expand_pool env h = (r, h') \<Longrightarrow> pool_frame h h'"
  by (auto simp: expand_pool_def pool_frame_def same_config_def Let_def split: prod.splits option.splits)

lemma pool_frame_trans: "pool_frame h h' \<Longrightarrow> pool_frame h' h'' \<Longrightarrow> pool_frame h h''"
  by (simp add: pool_frame_def same_config_def)

lemma take_blocks_frame:
  "take_blocks env n taken h = (r, h') \<Longrightarrow>
     pool_frame h h' \<and> (\<forall>blocks. r = Got blocks \<longrightarrow> length blocks = length taken + n)"
proof (induction env n taken h arbitrary: r h' rule: take_blocks.induct)
  case (1 env taken h)
  then show ?case by (auto simp: pool_frame_def same_config_def)
next
  case (2 env n taken h)
  obtain e h1 where x: "(if free_blocks h = [] then expand_pool env h else (Inr (), h)) = (e, h1)"
    by fastforce
  then have f1: "pool_frame h h1"
    by (auto split: if_splits dest: expand_pool_frame simp: pool_frame_def same_config_def)
  show ?case
  proof (cases e)
    case (Inl err) with "2.prems" x f1 show ?thesis by auto
  next
    case (Inr u)
    show ?thesis
    proof (cases "free_blocks h1 = []")
      case True with "2.prems" x f1 Inr show ?thesis by auto
    next
      case False
      let ?h = "h1\<lparr>free_blocks := butlast (free_blocks h1)\<rparr>"
      from "2.prems" x Inr False
      have run: "take_blocks env n (taken @ [last (free_blocks h1)]) ?h = (r, h')" by simp
      have "pool_frame h ?h" using f1 by (simp add: pool_frame_def same_config_def)
      with "2.IH" [OF x [symmetric] Inr False run] show ?thesis
        using pool_frame_trans by auto
    qed
  qed
qed

lemma alist_set_same: "map_of xs k = Some v \<Longrightarrow> alist_set k v xs = xs"
  by (induction k v xs rule: alist_set.induct) (auto split: if_splits)

lemma charge_frame:
  "charge res n h = Inr (tracked, h1) \<Longrightarrow>
     host_allocated_bytes h1 = host_allocated_bytes h \<and> same_config h h1"
  by (auto simp: charge_def same_config_def Let_def split: option.splits arena_ref.splits)

text \<open>A charge, read on integers: the tracker takes all, the counter the growth of the footprint.\<close>

lemma charge_cases:
  assumes inv: "host_inv t h ls" and n: "unat n < 2 ^ 62" and c: "charge res n h = Inr (tracked, h1)"
  obtains "arena_of res = None" "tracked = n" "h1 = h"
  | a ar ar' where "arena_of res = Some a" "res = Some (Chunked_area a)"
      "map_of (active_reservations h) a = Some ar"
      "ar' = ar\<lparr>area_allocated := area_allocated ar + int (unat n)\<rparr>"
      "h1 = h\<lparr>active_reservations := alist_set a ar' (active_reservations h)\<rparr>"
      "unat tracked + footprint ar = footprint ar'"
proof (cases "arena_of res")
  case None
  with c that(1) show ?thesis
    by (auto simp: charge_def arena_of_def split: option.splits arena_ref.splits)
next
  case (Some a)
  then have res: "res = Some (Chunked_area a)"
    by (auto simp: arena_of_def split: option.splits arena_ref.splits)
  with c obtain ar where a: "map_of (active_reservations h) a = Some ar"
    by (auto simp: charge_def split: option.splits)
  note ar = host_inv_arena [OF inv a] and lt = host_inv_small [OF inv a]
  define k where "k = unat n"
  from n have i: "to_i64 n = int k" and k: "k < 2 ^ 62"
    unfolding k_def by (auto intro: to_i64_small simp del: of_nat_unat)
  have w: "wrap_i64 (area_allocated ar + int k) = area_allocated ar + int k"
    using lt ar k by (intro wrap_i64_id) auto
  let ?ar = "ar\<lparr>area_allocated := area_allocated ar + int k\<rparr>"
  have h1: "h1 = h\<lparr>active_reservations := alist_set a ?ar (active_reservations h)\<rparr>"
    and tr: "tracked = (if area_allocated ar + int k \<le> area_size ar then 0
               else if area_allocated ar < area_size ar
               then to_u64 (area_allocated ar + int k - area_size ar) else n)"
    using c res a by (auto simp: charge_def Let_def i w)
  have "unat tracked + footprint ar = footprint ?ar"
  proof (cases "area_allocated ar + int k \<le> area_size ar")
    case True then show ?thesis using tr ar(1,2) by (simp add: footprint_def)
  next
    case False
    show ?thesis
    proof (cases "area_allocated ar < area_size ar")
      case True
      have "unat (to_u64 (area_allocated ar + int k - area_size ar))
            = nat (area_allocated ar + int k - area_size ar)"
        using lt ar False k by (intro unat_to_u64) auto
      then show ?thesis using tr True False ar(1,2) by (simp add: footprint_def nat_add_distrib)
    next
      case large: False
      then show ?thesis using tr False ar(1,2) k_def by (simp add: footprint_def nat_add_distrib)
    qed
  qed
  with that(2) [OF Some res a _ h1] show ?thesis unfolding k_def by simp
qed

lemma uncharge_charge:
  assumes inv: "host_inv t h ls" and n: "unat n < 2 ^ 62" and c: "charge res n h = Inr (tracked, h1)"
    and f: "pool_frame h1 h2'" and h2: "active_reservations h2 = active_reservations h1"
  shows "active_reservations (uncharge res n h2) = active_reservations h"
    and "same_config h2 (uncharge res n h2)"
    and "host_allocated_bytes (uncharge res n h2) = host_allocated_bytes h2"
proof -
  from n have i: "to_i64 n = int (unat n)" by (intro to_i64_small) simp
  show "same_config h2 (uncharge res n h2)"
    "host_allocated_bytes (uncharge res n h2) = host_allocated_bytes h2"
    by (auto simp: uncharge_def same_config_def split: option.splits arena_ref.splits)
  show "active_reservations (uncharge res n h2) = active_reservations h"
    using charge_cases [OF inv n c]
  proof cases
    case 1
    then show ?thesis using h2
      by (auto simp: uncharge_def arena_of_def split: option.splits arena_ref.splits)
  next
    case (2 a ar ar')
    note ar = host_inv_arena [OF inv "2"(3)] and lt = host_inv_small [OF inv "2"(3)]
    have "wrap_i64 (area_allocated ar) = area_allocated ar"
      using lt ar by (intro wrap_i64_id) auto
    with 2 h2 show ?thesis by (simp add: uncharge_def i alist_set_same del: of_nat_unat)
  qed
qed

definition handed_out :: "multiple_blocks_allocation option outcome \<Rightarrow> multiple_blocks_allocation list" where
  "handed_out r = (case r of Inr (Some al) \<Rightarrow> [al] | _ \<Rightarrow> [])"

lemma take_blocks_threw:
  "take_blocks env n taken h = (Threw e, h') \<Longrightarrow> e = out_of_memory ''upstream''"
proof (induction n arbitrary: taken h)
  case (Suc n)
  obtain x h1 where x: "(if free_blocks h = [] then expand_pool env h else (Inr (), h)) = (x, h1)"
    by fastforce
  show ?case
  proof (cases x)
    case (Inl err)
    with x have "expand_pool env h = (Inl err, h1)" by (auto split: if_splits)
    then have "err = out_of_memory ''upstream''"
      by (auto simp: expand_pool_def Let_def split: prod.splits option.splits)
    with Suc.prems x Inl show ?thesis by simp
  next
    case (Inr u)
    with Suc x show ?thesis by (simp split: if_splits)
  qed
qed simp

text \<open>What the counters hold once a charge has been accepted, with the blocks or without them.\<close>

lemma charged_preserves:
  assumes inv: "host_inv t h ls" and n: "unat n < 2 ^ 62" and c: "charge res n h = Inr (tracked, h1)"
    and acc: "try_add (host_allocated_bytes h1) tracked (host_memory_capacity h1) = (True, post)"
    and f: "pool_frame (h1\<lparr>host_allocated_bytes := post\<rparr>) h2"
    and new: "new = [] \<and> \<not> t \<or>
       (\<exists>al. new = [al] \<and> alloc_arena al = arena_of res
          \<and> length (alloc_blocks al) * unat (host_block_size h) = unat n)"
  shows "host_inv t h2 (ls @ new)"
proof -
  let ?b = "unat (host_block_size h)"
  note got = try_add_host [OF acc]
  show ?thesis
    using charge_cases [OF inv n c]
  proof cases
    case 1
    have cfg: "same_config h h2" and act: "active_reservations h2 = active_reservations h"
      and cnt: "host_allocated_bytes h2 = post"
      using f 1 by (auto simp: pool_frame_def same_config_def)
    from new show ?thesis
    proof (elim disjE exE conjE)
      assume "new = []" and "\<not> t"
      have "meets t (accounted h ls) (unat (host_allocated_bytes h))"
        using inv by (simp add: host_inv_def)
      then show ?thesis
        using \<open>new = []\<close> \<open>\<not> t\<close> got inv cfg act cnt 1
        by (auto simp: host_inv_def host_bounds_def same_config_def meets_def accounted_def)
    next
      fix al assume al: "new = [al]" "alloc_arena al = arena_of res" "length (alloc_blocks al) * ?b = unat n"
      show ?thesis
        using al got 1 cnt
        by (intro host_inv_loose_change [OF inv cfg act]) (auto simp: loose_def on_arena_def)
    qed
  next
    case (2 a ar ar')
    note ar = host_inv_arena [OF inv "2"(3)]
    have cfg: "same_config h h2" and act: "active_reservations h2 = alist_set a ar' (active_reservations h)"
      and cnt: "host_allocated_bytes h2 = post"
      using f 2 by (auto simp: pool_frame_def same_config_def)
    have eq: "unat (host_allocated_bytes h) + footprint ar' = unat (host_allocated_bytes h2) + footprint ar"
      using got(1) 2 cnt by simp
    then have eq: "meets t (unat (host_allocated_bytes h) + footprint ar')
                           (unat (host_allocated_bytes h2) + footprint ar)" by simp
    have nonneg: "0 \<le> area_size ar'" "0 \<le> area_allocated ar'" using ar(1,2) 2 by simp_all
    have tracker: "nat (area_allocated ar') = nat (area_allocated ar) + unat n"
      using ar(2) 2 by (simp add: nat_add_distrib del: of_nat_unat)
    have cap: "host_allocated_bytes h2 \<le> host_memory_capacity h"
      using got(2) 2 cnt by simp
    from new show ?thesis
    proof (elim disjE exE conjE)
      assume "new = []" and "\<not> t"
      with ar(3) tracker show ?thesis
        by (intro host_inv_arena_change [OF inv "2"(3) cfg act nonneg eq cap])
           (auto simp: meets_def)
    next
      fix al assume al: "new = [al]" "alloc_arena al = arena_of res" "length (alloc_blocks al) * ?b = unat n"
      with ar(3) tracker 2 show ?thesis
        by (intro host_inv_arena_change [OF inv "2"(3) cfg act nonneg eq cap])
           (auto simp: loose_def on_arena_def meets_def split: if_splits)
    qed
  qed
qed

lemma allocate_charged_preserves:
  assumes inv: "host_inv t h ls" and nz: "bytes \<noteq> 0" and nn: "n = align_up env bytes (host_block_size h)"
    and n: "unat n < 2 ^ 62"
    and blocks: "unat (n div host_block_size h) * unat (host_block_size h) = unat n"
    and c: "charge res n h = Inr (tracked, h1)"
    and acc: "try_add (host_allocated_bytes h1) tracked (host_memory_capacity h1) = (True, post)"
    and tidy: "t \<Longrightarrow> r \<noteq> Inl (out_of_memory ''upstream'')"
    and r: "allocate_multiple_blocks env bytes res h = (r, h')"
  shows "host_inv t h' (ls @ handed_out r)"
proof -
  have h1: "host_allocated_bytes h1 = host_allocated_bytes h" "same_config h h1"
    using charge_frame [OF c] by auto
  obtain run h2 where run: "take_blocks env (unat (n div host_block_size h)) []
                              (h1\<lparr>host_allocated_bytes := post\<rparr>) = (run, h2)"
    by fastforce
  note f = take_blocks_frame [OF run]
  note go = charged_preserves [OF inv n c acc]
  show ?thesis
  proof (cases run)
    case (Threw e)
    with r nz nn c acc run have "h' = h2" "r = Inl e"
      by (auto simp: allocate_multiple_blocks_def Let_def)
    moreover have "e = out_of_memory ''upstream''"
      using take_blocks_threw run Threw by blast
    ultimately show ?thesis
      using go [of h2 "[]"] f tidy by (cases t) (auto simp: handed_out_def)
  next
    case (Still_empty taken)
    let ?h = "h2\<lparr>free_blocks := free_blocks h2 @ taken,
                 host_allocated_bytes := sub (host_allocated_bytes h2) tracked\<rparr>"
    have r': "h' = uncharge res n ?h" "handed_out r = []"
      using r nz nn c acc run Still_empty
      by (auto simp: allocate_multiple_blocks_def Let_def handed_out_def)
    have cnt: "unat (sub (host_allocated_bytes h2) tracked) = unat (host_allocated_bytes h)"
      using try_add_host [OF acc] f h1 sub_host(1) [of tracked post]
      by (simp add: pool_frame_def)
    have "active_reservations ?h = active_reservations h1"
      using f by (simp add: pool_frame_def)
    from uncharge_charge [OF inv n c, of h1 ?h, OF _ this] cnt f h1 r'
    have "host_inv t h' ls"
      by (intro host_inv_same [OF inv])
         (auto simp: pool_frame_def same_config_def word_unat_eq_iff)
    with r' show ?thesis by simp
  next
    case (Got bs)
    let ?al = "\<lparr>alloc_blocks = bs, alloc_has_mr = True, alloc_block_size = host_block_size h,
                alloc_arena = arena_of res\<rparr>"
    have r': "h' = h2\<lparr>host_peak_allocated_bytes := update_peak (host_peak_allocated_bytes h2) post\<rparr>"
      "handed_out r = [?al]"
      using r nz nn c acc run Got by (auto simp: allocate_multiple_blocks_def Let_def handed_out_def)
    have "length bs * unat (host_block_size h) = unat n" using f Got blocks by simp
    then have "host_inv t h2 (ls @ [?al])" using f by (intro go) auto
    then show ?thesis unfolding r'
      by (rule host_inv_same) (auto simp: same_config_def)
  qed
qed

lemma allocate_preserves:
  assumes inv: "host_inv t h ls" and law: "align_law env" and small: "unat bytes < 2 ^ 61"
    and tidy: "t \<Longrightarrow> r \<noteq> Inl (out_of_memory ''upstream'')"
    and r: "allocate_multiple_blocks env bytes res h = (r, h')"
  shows "host_inv t h' (ls @ handed_out r)"
proof (cases "bytes = 0")
  case True
  with r have "h' = h" and "r = Inr (Some empty_allocation)"
    by (auto simp: allocate_multiple_blocks_def)
  with inv show ?thesis
    by (intro host_inv_loose_change [OF inv])
       (auto simp: same_config_def handed_out_def empty_allocation_def host_inv_def)
next
  case False
  let ?n = "align_up env bytes (host_block_size h)" and ?b = "unat (host_block_size h)"
  have b: "host_bounds h" using inv by (simp add: host_inv_def)
  then have n: "unat ?n < 2 ^ 62" and dvd: "?b dvd unat ?n"
    using aligned [OF law _ _ small] by (auto simp: host_bounds_def)
  from dvd have blocks: "unat (?n div host_block_size h) * ?b = unat ?n"
    by (simp add: unat_div)
  show ?thesis
  proof (cases "charge res ?n h")
    case (Inl e)
    with r False inv show ?thesis by (auto simp: allocate_multiple_blocks_def Let_def handed_out_def)
  next
    case (Inr x)
    obtain tracked h1 where c: "charge res ?n h = Inr (tracked, h1)"
      using Inr by (cases x) auto
    obtain ok post where acc: "try_add (host_allocated_bytes h1) tracked (host_memory_capacity h1) = (ok, post)"
      by fastforce
    have h1: "host_allocated_bytes h1 = host_allocated_bytes h" "same_config h h1"
      using charge_frame [OF c] by auto
    show ?thesis
    proof (cases ok)
      case no: False
      from r False c acc no have r': "h' = uncharge res ?n h1" "handed_out r = []"
        by (auto simp: allocate_multiple_blocks_def Let_def handed_out_def)
      have "host_inv t h' ls"
        using h1 uncharge_charge [OF inv n c, of h1 h1] unfolding r'
        by (intro host_inv_same [OF inv]) (auto simp: pool_frame_def same_config_def)
      with r' show ?thesis by simp
    next
      case True
      with acc have "try_add (host_allocated_bytes h1) tracked (host_memory_capacity h1) = (True, post)" by simp
      then show ?thesis by (rule allocate_charged_preserves [OF inv False refl n blocks c _ tidy r])
    qed
  qed
qed

lemma destroy_loose_preserves:
  assumes inv: "host_inv t h ls" and al: "al \<in> set ls" and mr: "alloc_has_mr al"
    and blocks: "alloc_blocks al \<noteq> []" and loose: "loose (active_reservations h) al"
  shows "host_inv t (destroy_allocation al h) (remove1 al ls)"
proof -
  let ?b = "unat (host_block_size h)" and ?rs = "active_reservations h"
  let ?k = "length (alloc_blocks al) * ?b"
  let ?w = "of_nat (length (alloc_blocks al)) * host_block_size h"
  have d: "destroy_allocation al h = return_allocated_chunks (alloc_blocks al) (alloc_arena al) h"
    using blocks mr by (simp add: destroy_allocation_def)
  have w: "unat ?w = ?k" if "?k < 2 ^ 62"
    using that by (simp add: unat_word_ariths unat_of_nat mod_mult_left_eq)
  note bound = host_inv_bound [OF inv]
  have rem: "weigh ?b P (remove1 al ls) + (if P al then ?k else 0) = weigh ?b P ls" for P
    by (rule weigh_remove1 [OF al])
  let ?h = "h\<lparr>host_allocated_bytes := sub (host_allocated_bytes h) ?w\<rparr>"
  have h': "destroy_allocation al h = ?h"
    using loose by (auto simp: d return_allocated_chunks_def loose_def Let_def split: option.splits)
  have "?k \<le> accounted h ls"
    using rem [of "loose ?rs"] loose by (simp add: accounted_def)
  also have "\<dots> \<le> unat (host_allocated_bytes h)"
    using inv meets_le by (auto simp: host_inv_def)
  finally have le: "?k \<le> unat (host_allocated_bytes h)" .
  with bound have w: "unat ?w = ?k" by (intro w) simp
  have others: "weigh ?b (on_arena a) (remove1 al ls) = weigh ?b (on_arena a) ls"
    if "map_of ?rs a = Some ar" for a ar
    using that loose rem [of "on_arena a"] by (auto simp: loose_def on_arena_def split: if_splits)
  from others show ?thesis
    using sub_host [of ?w "host_allocated_bytes h"] le w rem [of "loose ?rs"] loose inv
    unfolding h'
    by (intro host_inv_loose_change [OF inv])
       (auto simp: same_config_def host_inv_def intro: order_trans)
qed

lemma destroy_charged_preserves:
  assumes inv: "host_inv t h ls" and al: "al \<in> set ls" and mr: "alloc_has_mr al"
    and blocks: "alloc_blocks al \<noteq> []" and not_loose: "\<not> loose (active_reservations h) al"
  shows "host_inv t (destroy_allocation al h) (remove1 al ls)"
proof -
  let ?b = "unat (host_block_size h)" and ?rs = "active_reservations h"
  let ?k = "length (alloc_blocks al) * ?b"
  let ?w = "of_nat (length (alloc_blocks al)) * host_block_size h"
  have d: "destroy_allocation al h = return_allocated_chunks (alloc_blocks al) (alloc_arena al) h"
    using blocks mr by (simp add: destroy_allocation_def)
  have w: "unat ?w = ?k" if "?k < 2 ^ 62"
    using that by (simp add: unat_word_ariths unat_of_nat mod_mult_left_eq)
  note bound = host_inv_bound [OF inv]
  have rem: "weigh ?b P (remove1 al ls) + (if P al then ?k else 0) = weigh ?b P ls" for P
    by (rule weigh_remove1 [OF al])
  from not_loose obtain a ar where arena: "alloc_arena al = Some a" and a: "map_of ?rs a = Some ar"
    by (auto simp: loose_def split: option.splits)
  note ar = host_inv_arena [OF inv a] and lt = host_inv_small [OF inv a]
  have on: "on_arena a' al \<longleftrightarrow> a' = a" for a' using arena by (auto simp: on_arena_def)
  have k: "?k \<le> nat (area_allocated ar)"
    using rem [of "on_arena a"] meets_le [OF ar(3)] by (simp add: on)
  then have k': "?k < 2 ^ 62" using lt(2) ar(2) by simp
  define n where "n = ?k"
  have i: "to_i64 ?w = int n"
    using w [OF k'] k' unfolding n_def by (subst to_i64_small) (auto simp del: of_nat_unat)
  have wr: "wrap_i64 (area_allocated ar - int n) = area_allocated ar - int n"
    using k lt ar(2) unfolding n_def [symmetric] by (intro wrap_i64_id) auto
  let ?ar = "ar\<lparr>area_allocated := area_allocated ar - int n\<rparr>"
  let ?re = "if area_allocated ar \<le> area_size ar then 0
             else if area_allocated ar - int n < area_size ar then to_u64 (area_allocated ar - area_size ar)
             else ?w"
  let ?h = "h\<lparr>active_reservations := alist_set a ?ar ?rs,
             host_allocated_bytes := sub (host_allocated_bytes h) ?re\<rparr>"
  have h': "destroy_allocation al h = ?h"
    using arena a by (simp add: d return_allocated_chunks_def Let_def i wr)
  have re: "unat ?re + footprint ?ar = footprint ar"
    using k w [OF k'] lt ar(1,2) unfolding n_def [symmetric]
    by (auto simp: footprint_def unat_to_u64 nat_diff_distrib)
  then have le: "unat ?re \<le> unat (host_allocated_bytes h)" using ar(4) by linarith
  have others: "weigh ?b (on_arena a') (remove1 al ls) = weigh ?b (on_arena a') ls" if "a' \<noteq> a" for a'
    using rem [of "on_arena a'"] that by (simp add: on)
  show ?thesis unfolding h'
  proof (rule host_inv_arena_change [OF inv a, where ar' = ?ar])
    show "meets t (unat (host_allocated_bytes h) + footprint ?ar)
                  (unat (host_allocated_bytes ?h) + footprint ar)"
      using sub_host(1) [OF le] le re by (auto simp: meets_def)
    show "host_allocated_bytes ?h \<le> host_memory_capacity h"
      using sub_host(2) [OF le] inv by (auto simp: host_inv_def)
    show "meets t (weigh ?b (on_arena a) (remove1 al ls)) (nat (area_allocated ?ar))"
      using rem [of "on_arena a"] ar(3) k unfolding n_def [symmetric]
      by (auto simp: on meets_def nat_diff_distrib split: if_splits)
    show "weigh ?b (loose ?rs) (remove1 al ls) = weigh ?b (loose ?rs) ls"
      using rem [of "loose ?rs"] not_loose by simp
    show "0 \<le> area_allocated ?ar" using k ar(2) unfolding n_def [symmetric] by simp
  qed (use ar others in \<open>auto simp: same_config_def\<close>)
qed

lemma destroy_preserves:
  assumes inv: "host_inv t h ls" and al: "al \<in> set ls" and mr: "alloc_blocks al \<noteq> [] \<Longrightarrow> alloc_has_mr al"
  shows "host_inv t (destroy_allocation al h) (remove1 al ls)"
proof (cases "alloc_blocks al = []")
  case True
  then have "destroy_allocation al h = h" by (simp add: destroy_allocation_def)
  moreover have "weigh b P (remove1 al ls) = weigh b P ls" for b P
    using weigh_remove1 [OF al, of b P] True by (cases "P al") auto
  ultimately show ?thesis using inv
    by (intro host_inv_loose_change [OF inv]) (auto simp: same_config_def host_inv_def)
next
  case False
  with destroy_loose_preserves [OF inv al mr] destroy_charged_preserves [OF inv al mr]
  show ?thesis by blast
qed

section \<open>The resource and its clients as a transition system\<close>

text \<open>
  A state is the resource with the allocations that are alive. The step relation has one rule per
  public operation. A caller may let a reservation go before the allocations charged to it; the
  address of a new arena is then assumed not to be one that a live allocation still remembers.
  With \<open>tidy\<close> the steps leave out the two executions that overcharge the counter: a failing
  upstream during the expansion of a pool, and growing a reservation that is already exceeded.
\<close>

inductive host_step ::
  "'u rmm \<Rightarrow> bool \<Rightarrow> 'u host_resource \<times> multiple_blocks_allocation list \<Rightarrow>
   'u host_resource \<times> multiple_blocks_allocation list \<Rightarrow> bool"
  for env tidy where
  reserve: "fresh_arena a h ls \<Longrightarrow> host_reserve env a bytes h = (r, h') \<Longrightarrow>
     host_step env tidy (h, ls) (h', ls)"
| reserve_upto: "fresh_arena a h ls \<Longrightarrow> host_reserve_upto env a bytes h = (r, h') \<Longrightarrow>
     host_step env tidy (h, ls) (h', ls)"
| grow: "map_of (active_reservations h) a = Some ar \<Longrightarrow> unat bytes < 2 ^ 61 \<Longrightarrow>
     (tidy \<Longrightarrow> area_allocated ar \<le> area_size ar) \<Longrightarrow>
     host_grow_reservation_by env a bytes h = (ok, h') \<Longrightarrow> host_step env tidy (h, ls) (h', ls)"
| shrink: "host_shrink_reservation_to_fit a h = (x, h') \<Longrightarrow> host_step env tidy (h, ls) (h', ls)"
| release: "release_reservation a h = (x, h') \<Longrightarrow> host_step env tidy (h, ls) (h', ls)"
| allocate: "unat bytes < 2 ^ 61 \<Longrightarrow> allocate_multiple_blocks env bytes res h = (got, h') \<Longrightarrow>
     (tidy \<Longrightarrow> got \<noteq> Inl (out_of_memory ''upstream'')) \<Longrightarrow>
     host_step env tidy (h, ls) (h', ls @ handed_out got)"
| deallocate: "al \<in> set ls \<Longrightarrow> host_step env tidy (h, ls) (destroy_allocation al h, remove1 al ls)"

definition new_state :: "'u host_resource \<Rightarrow> bool" where
  "new_state h \<longleftrightarrow> host_bounds h \<and> host_allocated_bytes h = 0 \<and> active_reservations h = []"

lemma new_host_resource_state:
  assumes "new_host_resource env dev u limit capacity bs pool n = (r, h)"
  shows "host_allocated_bytes h = 0" and "active_reservations h = []"
    and "host_memory_limit h = limit" and "host_memory_capacity h = capacity"
    and "host_block_size h = align_up env bs 16"
proof -
  have "expand_pools env k h0 = (r, h) \<Longrightarrow> pool_frame h0 h" for k and h0 :: "'a host_resource"
    by (induction k arbitrary: h0)
       (auto simp: pool_frame_def same_config_def split: prod.splits sum.splits dest!: expand_pool_frame)
  from this [OF assms [unfolded new_host_resource_def]]
  show "host_allocated_bytes h = 0" "active_reservations h = []" "host_memory_limit h = limit"
    "host_memory_capacity h = capacity" "host_block_size h = align_up env bs 16"
    by (simp_all add: pool_frame_def same_config_def)
qed

definition honest :: "multiple_blocks_allocation list \<Rightarrow> bool" where
  "honest ls \<longleftrightarrow> (\<forall>al \<in> set ls. alloc_blocks al \<noteq> [] \<longrightarrow> alloc_has_mr al)"

lemma handed_out_honest:
  assumes "allocate_multiple_blocks env bytes res h = (r, h')"
  shows "honest (handed_out r)"
proof (cases r)
  case (Inr x)
  with assms show ?thesis
    by (cases x)
       (auto simp: honest_def handed_out_def allocate_multiple_blocks_def empty_allocation_def Let_def
          split: if_splits sum.splits prod.splits bool.splits block_run.splits)
qed (simp add: honest_def handed_out_def)

lemma host_step_preserves:
  assumes "host_step env t (h, ls) (h', ls')" and "align_law env" and "host_inv t h ls" and "honest ls"
  shows "host_inv t h' ls' \<and> honest ls'"
  using assms
proof (cases rule: host_step.cases)
  case (allocate bytes res got)
  have "host_inv t h' ls'"
    using allocate_preserves [OF assms(3,2) allocate(2) allocate(4,3)] allocate(1) by simp
  moreover have "honest ls'"
    using allocate handed_out_honest assms(4) by (fastforce simp: honest_def)
  ultimately show ?thesis ..
next
  case (deallocate al)
  with assms(4) have "host_inv t h' ls'"
    using destroy_preserves [OF assms(3) deallocate(3)] by (auto simp: honest_def)
  with deallocate assms(4) show ?thesis
    by (auto simp: honest_def dest: notin_set_remove1)
next
  case (reserve a bytes r)
  with reserve_preserves [OF assms(3)] assms(4) show ?thesis by simp
next
  case (reserve_upto a bytes r)
  with reserve_upto_preserves [OF assms(3)] assms(4) show ?thesis by simp
next
  case (grow a ar bytes ok)
  have "host_inv t h' ls"
    by (rule grow_preserves [OF assms(3,2) grow(3,2,4,5)])
  with grow assms(4) show ?thesis by simp
next
  case (shrink a x)
  with shrink_preserves [OF assms(3)] assms(4) show ?thesis by simp
next
  case (release a x)
  with release_preserves [OF assms(3)] assms(4) show ?thesis by simp
qed

lemma host_reachable_inv:
  assumes "(host_step env t)\<^sup>*\<^sup>* (h0, []) (h, ls)" and "align_law env" and "new_state h0"
  shows "host_inv t h ls"
proof -
  have start: "host_inv t h0 []"
    using assms(3) by (simp add: new_state_def host_inv_def accounted_def)
  have "host_inv t (fst s) (snd s) \<and> honest (snd s)"
    if "(host_step env t)\<^sup>*\<^sup>* (h0, []) s" for s
    using that
  proof (induction rule: rtranclp_induct)
    case base
    then show ?case using start by (simp add: honest_def)
  next
    case (step s s')
    then show ?case
      using host_step_preserves [of env t "fst s" "snd s" "fst s'" "snd s'"] assms(2) by simp
  qed
  from this [OF assms(1)] show ?thesis by simp
qed
end
