(* ===== verification/Reserving.thy ===== *)
theory Reserving
  imports Prelude
begin

text \<open>
  The contract that \<open>memory_space\<close> relies on in the three resources it dispatches to
  (\<open>disk_access_limiter\<close>, \<open>fixed_size_host_memory_resource\<close>, \<open>reservation_aware_resource_adaptor\<close>):
  a byte counter, a limit, the size a request is rounded to, and the two calls that make a
  reservation. \<open>reserve\<close> is all or nothing; \<open>reserve_upto\<close> takes what is left and never fails. The
  argument of type \<open>nat\<close> is the address of the arena object that the call creates.
\<close>

locale reserving =
  fixes total :: "'s \<Rightarrow> u64" and limit :: "'s \<Rightarrow> u64" and rounded :: "u64 \<Rightarrow> 's \<Rightarrow> u64"
    and reserve :: "nat \<Rightarrow> u64 \<Rightarrow> 's \<Rightarrow> nat option \<times> 's"
    and reserve_upto :: "nat \<Rightarrow> u64 \<Rightarrow> 's \<Rightarrow> nat option \<times> 's"
  assumes reserve_fits:
      "unat (total s) + unat (rounded b s) \<le> unat (limit s) \<Longrightarrow>
         \<exists>s'. reserve a b s = (Some a, s') \<and> limit s' = limit s
            \<and> unat (total s') = unat (total s) + unat (rounded b s)"
    and reserve_refuses:
      "unat (limit s) < unat (total s) + unat (rounded b s) \<Longrightarrow> reserve a b s = (None, s)"
    and reserve_upto_takes:
      "\<exists>s'. reserve_upto a b s = (Some a, s') \<and> limit s' = limit s
          \<and> unat (total s') = unat (total s)
              + min (unat (rounded b s)) (unat (limit s) - unat (total s))"
begin

lemma reserve_iff:
  "fst (reserve a b s) \<noteq> None \<longleftrightarrow> unat (total s) + unat (rounded b s) \<le> unat (limit s)"
proof (cases "unat (total s) + unat (rounded b s) \<le> unat (limit s)")
  case True
  with reserve_fits [of s b a] show ?thesis by force
next
  case False
  with reserve_refuses [of s b a] show ?thesis by simp
qed

lemma reserve_result: "fst (reserve a b s) = None \<or> fst (reserve a b s) = Some a"
  using reserve_fits [of s b a] reserve_refuses [of s b a]
  by (cases "unat (total s) + unat (rounded b s) \<le> unat (limit s)") force+

lemma reserve_within:
  assumes "unat (total s) \<le> unat (limit s)"
  shows "unat (total (snd (reserve a b s))) \<le> unat (limit (snd (reserve a b s)))"
  using assms reserve_fits [of s b a] reserve_refuses [of s b a]
  by (cases "unat (total s) + unat (rounded b s) \<le> unat (limit s)") force+

lemma reserve_upto_within:
  assumes "unat (total s) \<le> unat (limit s)"
  shows "unat (total (snd (reserve_upto a b s))) \<le> unat (limit (snd (reserve_upto a b s)))"
  using assms reserve_upto_takes [of a b s] by auto

text \<open>After a refusal, \<open>reserve_upto\<close> takes all that is left.\<close>

lemma reserve_upto_after_refusal:
  assumes "fst (reserve a b s) = None" and "unat (total s) \<le> unat (limit s)"
  shows "unat (total (snd (reserve_upto a' b s))) = unat (limit s)"
proof -
  have "unat (limit s) < unat (total s) + unat (rounded b s)"
    using assms(1) reserve_iff [of a b s] by auto
  with assms(2) reserve_upto_takes [of a' b s] show ?thesis by auto
qed

end

text \<open>
  The contract extended by the end of a reservation: the resource knows the bytes of each live
  arena, a new arena has the bytes the counter has grown by, and releasing one gives back exactly
  its bytes. \<open>ok\<close> is the resource's own invariant, for the time that no memory is allocated.
\<close>

locale releasing = reserving total limit rounded reserve reserve_upto
  for total :: "'s \<Rightarrow> u64" and limit :: "'s \<Rightarrow> u64" and rounded :: "u64 \<Rightarrow> 's \<Rightarrow> u64"
    and reserve :: "nat \<Rightarrow> u64 \<Rightarrow> 's \<Rightarrow> nat option \<times> 's"
    and reserve_upto :: "nat \<Rightarrow> u64 \<Rightarrow> 's \<Rightarrow> nat option \<times> 's" +
  fixes ok :: "'s \<Rightarrow> bool" and bytes_of :: "'s \<Rightarrow> nat \<Rightarrow> nat option" and release :: "nat \<Rightarrow> 's \<Rightarrow> 's"
  assumes ok_within: "ok s \<Longrightarrow> unat (total s) \<le> unat (limit s)"
    and reserve_registers:
      "ok s \<Longrightarrow> bytes_of s a = None \<Longrightarrow> reserve a b s = (Some a, s') \<Longrightarrow>
         ok s' \<and> bytes_of s' = (bytes_of s)(a \<mapsto> unat (total s') - unat (total s))"
    and reserve_upto_registers:
      "ok s \<Longrightarrow> bytes_of s a = None \<Longrightarrow> reserve_upto a b s = (Some a, s') \<Longrightarrow>
         ok s' \<and> bytes_of s' = (bytes_of s)(a \<mapsto> unat (total s') - unat (total s))"
    and release_gives_back:
      "ok s \<Longrightarrow> bytes_of s a = Some n \<Longrightarrow>
         ok (release a s) \<and> unat (total (release a s)) + n = unat (total s)
         \<and> limit (release a s) = limit s \<and> bytes_of (release a s) = (bytes_of s)(a := None)"

text \<open>
  What the holders of reservations have: a ledger of their arenas and bytes. It agrees with the
  resource when it lists the live arenas and the counter is its sum.
\<close>

type_synonym ledger = "(nat \<times> nat) list"

definition ledger_sum :: "ledger \<Rightarrow> nat" where
  "ledger_sum l = alist_sum id l"

context releasing
begin

definition agrees :: "'s \<Rightarrow> ledger \<Rightarrow> bool" where
  "agrees s l \<longleftrightarrow> ok s \<and> distinct (map fst l) \<and> map_of l = bytes_of s \<and> unat (total s) = ledger_sum l"

lemma agreesD:
  assumes "agrees s l"
  shows "ok s" and "map_of l = bytes_of s" and "unat (total s) = ledger_sum l"
    and "ledger_sum l \<le> unat (limit s)" and "distinct (map fst l)"
  using assms ok_within [of s] by (simp_all add: agrees_def)

lemma agrees_new_arena:
  assumes "agrees s l" and "bytes_of s a = None" and "ok s'"
    and "bytes_of s' = (bytes_of s)(a \<mapsto> unat (total s') - unat (total s))"
    and "unat (total s) \<le> unat (total s')"
  shows "agrees s' (alist_set a (unat (total s') - unat (total s)) l)"
proof -
  have "map_of l a = None" using assms(1,2) by (simp add: agrees_def)
  from alist_sum_new [OF this, of id] assms show ?thesis
    by (simp add: agrees_def ledger_sum_def distinct_alist_set)
qed

lemma agrees_reserve:
  assumes "agrees s l" and "bytes_of s a = None" and "reserve a b s = (Some a, s')"
  shows "agrees s' (alist_set a (unat (total s') - unat (total s)) l)"
proof -
  from assms(3) have "unat (total s) + unat (rounded b s) \<le> unat (limit s)"
    using reserve_iff [of a b s] by simp
  from reserve_fits [OF this, of a] assms(3) have "unat (total s) \<le> unat (total s')" by auto
  with reserve_registers [OF agreesD(1) [OF assms(1)] assms(2,3)] assms(1,2) show ?thesis
    by (intro agrees_new_arena) blast+
qed

lemma agrees_reserve_upto:
  assumes "agrees s l" and "bytes_of s a = None" and "reserve_upto a b s = (Some a, s')"
  shows "agrees s' (alist_set a (unat (total s') - unat (total s)) l)"
proof -
  have "unat (total s) \<le> unat (total s')" using reserve_upto_takes [of a b s] assms(3) by auto
  with reserve_upto_registers [OF agreesD(1) [OF assms(1)] assms(2,3)] assms(1,2) show ?thesis
    by (intro agrees_new_arena) blast+
qed

lemma agrees_release:
  assumes "agrees s l" and "map_of l a = Some n"
  shows "agrees (release a s) (alist_erase a l)"
proof -
  have b: "bytes_of s a = Some n" using assms by (simp add: agrees_def)
  have "distinct (map fst l)" using assms(1) by (simp add: agrees_def)
  from alist_sum_erase [OF this assms(2), of id] release_gives_back [OF agreesD(1) [OF assms(1)] b] assms(1)
  show ?thesis by (simp add: agrees_def ledger_sum_def distinct_alist_erase)
qed

end

end
