(* ===== verification/Host_Guarantees.thy ===== *)
theory Host_Guarantees
  imports Host_Accounting Reserving
begin

text \<open>
  What clients of \<open>fixed_size_host_memory_resource\<close> may rely on, over all reachable states of
  \<open>host_step\<close>: the counter is exact, live bytes stay within the capacity, a reservation is honoured.
  The last section shows three executions after which memory stays charged or lost.
\<close>

section \<open>The reservation contract\<close>

interpretation host: reserving host_allocated_bytes host_memory_limit
  "\<lambda>b h. align_up env b (host_block_size h)" "host_reserve env" "host_reserve_upto env"
  for env :: "'u rmm"
proof
  fix h :: "'u host_resource" and b :: u64 and a :: nat
  let ?b = "align_up env b (host_block_size h)"
  note adds = try_add_u64 [of "host_allocated_bytes h" ?b "host_memory_limit h"]
  show "\<exists>h'. host_reserve env a b h = (Some a, h') \<and> host_memory_limit h' = host_memory_limit h
      \<and> unat (host_allocated_bytes h') = unat (host_allocated_bytes h) + unat ?b"
    if "unat (host_allocated_bytes h) + unat ?b \<le> unat (host_memory_limit h)"
    using that adds(1,2)
    by (auto simp: host_reserve_def host_do_reserve_def register_reservation_def Let_def split: prod.splits)
  show "host_reserve env a b h = (None, h)"
    if "unat (host_memory_limit h) < unat (host_allocated_bytes h) + unat ?b"
    using that adds(1)
    by (auto simp: host_reserve_def host_do_reserve_def Let_def split: prod.splits bool.splits)
  show "\<exists>h'. host_reserve_upto env a b h = (Some a, h') \<and> host_memory_limit h' = host_memory_limit h
      \<and> unat (host_allocated_bytes h') = unat (host_allocated_bytes h)
          + min (unat ?b) (unat (host_memory_limit h) - unat (host_allocated_bytes h))"
    using add_bounded_u64 [of "host_allocated_bytes h" ?b "host_memory_limit h"]
    by (auto simp: host_reserve_upto_def host_do_reserve_upto_def register_reservation_def Let_def
        split: prod.splits)
qed

section \<open>The books of the holders\<close>

definition host_books :: "'u host_resource \<Rightarrow> bool" where
  "host_books h \<longleftrightarrow> host_inv True h [] \<and> host_allocated_bytes h \<le> host_memory_limit h"

definition host_bytes_of :: "'u host_resource \<Rightarrow> nat \<Rightarrow> nat option" where
  "host_bytes_of h a = map_option footprint (map_of (active_reservations h) a)"

lemma host_registered:
  assumes inv: "host_inv True (register_reservation a b h') []"
    and act: "active_reservations h' = active_reservations h"
    and bytes: "unat (host_allocated_bytes h') = unat (host_allocated_bytes h) + unat b"
    and le: "unat (host_allocated_bytes h') \<le> unat (host_memory_limit h')"
    and s': "s' = register_reservation a b h'"
  shows "host_books s' \<and>
    host_bytes_of s' = (host_bytes_of h)(a \<mapsto> unat (host_allocated_bytes s') - unat (host_allocated_bytes h))"
proof -
  have "unat (host_allocated_bytes h') < 2 ^ 62"
    using host_inv_bound [OF inv] by (simp add: register_reservation_def)
  then have "to_i64 b = int (unat b)" using bytes by (intro to_i64_small) simp
  then show ?thesis
    using inv act bytes le
    by (auto simp: s' host_books_def host_bytes_of_def register_reservation_def footprint_def fun_eq_iff
        word_le_nat_alt simp del: of_nat_unat)
qed

lemma no_live_fresh: "host_bytes_of h a = None \<Longrightarrow> fresh_arena a h []"
  by (simp add: host_bytes_of_def fresh_arena_def)

interpretation host_books: releasing host_allocated_bytes host_memory_limit
  "\<lambda>b h. align_up env b (host_block_size h)" "host_reserve env" "host_reserve_upto env"
  host_books host_bytes_of "\<lambda>a h. snd (release_reservation a h)"
  for env :: "'u rmm"
proof
  fix h h' :: "'u host_resource" and b :: u64 and a n :: nat
  let ?b = "align_up env b (host_block_size h)"
  show "unat (host_allocated_bytes h) \<le> unat (host_memory_limit h)" if "host_books h"
    using that by (simp add: host_books_def word_le_nat_alt)
  show "host_books h' \<and> host_bytes_of h' = (host_bytes_of h)(a \<mapsto>
      unat (host_allocated_bytes h') - unat (host_allocated_bytes h))"
    if ok: "host_books h" and new: "host_bytes_of h a = None" and run: "host_reserve env a b h = (Some a, h')"
  proof -
    obtain h1 where h1: "host_do_reserve ?b (host_memory_limit h) h = (True, h1)"
      and h': "h' = register_reservation a ?b h1"
      using run by (auto simp: host_reserve_def Let_def split: prod.splits bool.splits)
    have "host_inv True (register_reservation a ?b h1) []"
      using reserve_preserves [OF _ no_live_fresh [OF new] run] ok h' by (simp add: host_books_def)
    then show ?thesis
      using host_do_reserve_ok [OF h1] h'
      by (intro host_registered [of a ?b h1 h]) (auto simp: same_config_def word_le_nat_alt)
  qed
  show "host_books h' \<and> host_bytes_of h' = (host_bytes_of h)(a \<mapsto>
      unat (host_allocated_bytes h') - unat (host_allocated_bytes h))"
    if ok: "host_books h" and new: "host_bytes_of h a = None" and run: "host_reserve_upto env a b h = (Some a, h')"
  proof -
    obtain g h1 where h1: "host_do_reserve_upto ?b (host_memory_limit h) h = (g, h1)"
      and h': "h' = register_reservation a g h1"
      using run by (auto simp: host_reserve_upto_def Let_def split: prod.splits)
    have "host_inv True (register_reservation a g h1) []"
      using reserve_upto_preserves [OF _ no_live_fresh [OF new] run] ok h' by (simp add: host_books_def)
    then show ?thesis
      using host_do_reserve_upto_ok [OF h1] h' ok
      by (intro host_registered [of a g h1 h]) (auto simp: same_config_def host_books_def word_le_nat_alt)
  qed
  show "host_books (snd (release_reservation a h))
      \<and> unat (host_allocated_bytes (snd (release_reservation a h))) + n = unat (host_allocated_bytes h)
      \<and> host_memory_limit (snd (release_reservation a h)) = host_memory_limit h
      \<and> host_bytes_of (snd (release_reservation a h)) = (host_bytes_of h)(a := None)"
    if ok: "host_books h" and a: "host_bytes_of h a = Some n"
  proof -
    obtain ar where m: "map_of (active_reservations h) a = Some ar" and n: "n = footprint ar"
      using a by (auto simp: host_bytes_of_def)
    have inv: "host_inv True h []" and le: "host_allocated_bytes h \<le> host_memory_limit h"
      using ok by (simp_all add: host_books_def)
    let ?h = "snd (release_reservation a h)"
    have inv': "host_inv True ?h []" by (rule release_preserves [OF inv prod.collapse [symmetric]])
    have act: "active_reservations ?h = alist_erase a (active_reservations h)"
      "host_memory_limit ?h = host_memory_limit h"
      using m by (simp_all add: release_reservation_def Let_def)
    have "distinct (map fst (active_reservations h))" using inv by (simp add: host_inv_def)
    from alist_sum_erase [OF this m, of footprint] inv inv' act(1)
    have "unat (host_allocated_bytes ?h) + n = unat (host_allocated_bytes h)"
      by (simp add: host_inv_def meets_def accounted_def n)
    with inv' act le show ?thesis
      by (auto simp: host_books_def host_bytes_of_def fun_eq_iff word_le_nat_alt)
  qed
qed

section \<open>Guarantees\<close>

lemma weigh_all_le:
  "weigh b (\<lambda>_. True) ls \<le> sum_list (map (\<lambda>p. weigh b (on_arena (fst p)) ls) rs) + weigh b (loose rs) ls"
proof (induction ls)
  case (Cons al ls)
  let ?k = "length (alloc_blocks al) * b"
  have "?k \<le> sum_list (map (\<lambda>p. if on_arena (fst p) al then ?k else 0) rs) + (if loose rs al then ?k else 0)"
  proof (cases "loose rs al")
    case False
    then obtain a ar where a: "alloc_arena al = Some a" and "map_of rs a = Some ar"
      by (auto simp: loose_def split: option.splits)
    then have mem: "(a, ar) \<in> set rs" by (simp add: map_of_SomeD)
    let ?f = "\<lambda>p. if on_arena (fst p) al then ?k else 0"
    have "?f (a, ar) \<le> sum_list (map ?f rs)" using mem by (intro member_le_sum_list) auto
    with a show ?thesis by (simp add: on_arena_def)
  qed simp
  moreover have "sum_list (map (\<lambda>p. weigh b (on_arena (fst p)) (al # ls)) rs)
      = sum_list (map (\<lambda>p. if on_arena (fst p) al then ?k else 0) rs)
        + sum_list (map (\<lambda>p. weigh b (on_arena (fst p)) ls) rs)"
    by (simp add: sum_list_addf [symmetric])
  ultimately show ?case using Cons by simp
qed simp

lemma live_le_accounted:
  assumes "host_inv t h ls"
  shows "weigh (unat (host_block_size h)) (\<lambda>_. True) ls \<le> accounted h ls"
proof -
  let ?b = "unat (host_block_size h)" and ?rs = "active_reservations h"
  have dis: "distinct (map fst ?rs)" using assms by (simp add: host_inv_def)
  have "weigh ?b (on_arena (fst p)) ls \<le> footprint (snd p)" if "p \<in> set ?rs" for p
  proof -
    have "map_of ?rs (fst p) = Some (snd p)" using that dis by simp
    from meets_le [OF host_inv_arena(3) [OF assms this]] show ?thesis by (simp add: footprint_def)
  qed
  then have "sum_list (map (\<lambda>p. weigh ?b (on_arena (fst p)) ls) ?rs) \<le> alist_sum footprint ?rs"
    unfolding alist_sum_def by (intro sum_list_mono) auto
  with weigh_all_le [of ?b ls ?rs] show ?thesis by (simp add: accounted_def)
qed


text \<open>
  Property C15. A reservation is honoured. An allocation that still fits in its
  reservation is never refused for lack of memory, however full the resource is, and takes nothing
  more from the counter: the result is not the null pointer (it is the blocks, or the exception of
  an upstream that cannot deliver them).
\<close>

theorem host_reservation_honoured:
  assumes "align_law env" and "new_state h0" and "(host_step env False)\<^sup>*\<^sup>* (h0, []) (h, ls)"
    and "map_of (active_reservations h) a = Some ar" and "0 < bytes" and "unat bytes < 2 ^ 61"
    and "area_allocated ar + int (unat (align_up env bytes (host_block_size h))) \<le> area_size ar"
    and "allocate_multiple_blocks env bytes (Some (Chunked_area a)) h = (r, h')"
  shows "r \<noteq> Inr None \<and> host_allocated_bytes h' = host_allocated_bytes h"
proof -
  let ?n = "align_up env bytes (host_block_size h)" and ?res = "Some (Chunked_area a)"
  have inv: "host_inv False h ls" by (rule host_reachable_inv [OF assms(3,1,2)])
  note lt = host_inv_small [OF inv assms(4)] and ar = host_inv_arena [OF inv assms(4)]
  have "int (unat ?n) < 2 ^ 62" using assms(7) lt(1) ar(2) by linarith
  then have n: "unat ?n < 2 ^ 62" by (metis of_nat_less_iff of_nat_numeral of_nat_power)
  have i: "to_i64 ?n = int (unat ?n)" using n by (intro to_i64_small) simp
  obtain h1 where c: "charge ?res ?n h = Inr (0, h1)"
    using assms(4,7) by (simp add: charge_def Let_def i del: of_nat_unat)
  have "host_allocated_bytes h1 \<le> host_memory_capacity h1"
    and same: "host_allocated_bytes h1 = host_allocated_bytes h"
    using charge_frame [OF c] inv by (auto simp: host_inv_def same_config_def)
  then have acc: "try_add (host_allocated_bytes h1) 0 (host_memory_capacity h1)
      = (True, host_allocated_bytes h1)"
    by (auto simp: try_add_def)
  obtain run h2 where run: "take_blocks env (unat (?n div host_block_size h)) [] h1 = (run, h2)"
    by fastforce
  have f: "host_allocated_bytes h2 = host_allocated_bytes h"
    using take_blocks_frame [OF run] same by (simp add: pool_frame_def)
  have u: "host_allocated_bytes (uncharge ?res ?n h3) = host_allocated_bytes h3" for h3 :: "'a host_resource"
    by (auto simp: uncharge_def split: option.splits)
  have "bytes \<noteq> 0" using assms(5) by auto
  with assms(8) c acc run f u show ?thesis
    by (cases run) (auto simp: allocate_multiple_blocks_def Let_def sub_def)
qed

section \<open>A concrete upstream\<close>

definition bump_rmm :: "nat rmm" where
  "bump_rmm =
     \<lparr>align_up = (\<lambda>n a. of_nat ((unat n + unat a - 1) div unat a * unat a)),
      up_allocate = (\<lambda>n u. if u + unat n \<le> 2 ^ 62 then (Some (of_nat u), u + unat n) else (None, u)),
      up_deallocate = (\<lambda>p n u. u)\<rparr>"

lemma bump_align: "align_law bump_rmm"
proof -
  have "unat a dvd unat (align_up bump_rmm n a) \<and> unat n \<le> unat (align_up bump_rmm n a)
     \<and> unat (align_up bump_rmm n a) < unat n + unat a"
    if "power_of_two a" and "unat n + unat a < 2 ^ 64" for n a
  proof -
    have a: "0 < unat a" using that(1) by (auto simp: power_of_two_def)
    let ?q = "(unat n + unat a - 1) div unat a * unat a"
    have split: "?q + (unat n + unat a - 1) mod unat a = unat n + unat a - 1" by simp
    have m: "(unat n + unat a - 1) mod unat a < unat a" using a by simp
    have lt: "?q < unat n + unat a" using split a by linarith
    have ge: "unat n \<le> ?q" using split m by linarith
    have "unat (align_up bump_rmm n a) = ?q"
      using lt that(2) by (simp add: bump_rmm_def unat_of_nat del: of_nat_mult)
    with lt ge show ?thesis by simp
  qed
  then show ?thesis by (simp add: align_law_def)
qed

definition small_host :: "nat host_resource" where
  "small_host =
     \<lparr>host_space_id = memory_space_id HOST 0, host_memory_limit = 64, host_memory_capacity = 128,
      host_block_size = 16, host_pool_size = 4, upstream = 0, allocated_blocks = [], free_blocks = [],
      host_allocated_bytes = 0, host_peak_allocated_bytes = 0, active_reservations = []\<rparr>"

lemma small_host_new: "new_state small_host"
  by (auto simp: new_state_def host_bounds_def small_host_def power_of_two_def intro!: exI [of _ 4])

definition reserved_host :: "nat host_resource" where
  "reserved_host =
     small_host\<lparr>host_allocated_bytes := 32, host_peak_allocated_bytes := 32,
       active_reservations := [(7, \<lparr>area_size = 32, area_allocated = 0\<rparr>)]\<rparr>"

definition busy_host :: "nat host_resource" where
  "busy_host =
     reserved_host\<lparr>upstream := 64, allocated_blocks := [0], free_blocks := [0],
       host_allocated_bytes := 48, host_peak_allocated_bytes := 48,
       active_reservations := [(7, \<lparr>area_size = 32, area_allocated = 48\<rparr>)]\<rparr>"

definition busy_allocation :: multiple_blocks_allocation where
  "busy_allocation =
     \<lparr>alloc_blocks = [48, 32, 16], alloc_has_mr = True, alloc_block_size = 16, alloc_arena = Some 7\<rparr>"

lemmas small_defs = small_host_def reserved_host_def busy_host_def busy_allocation_def

lemma small_host_reserves: "host_reserve bump_rmm 7 20 small_host = (Some 7, reserved_host)"
  by (simp add: host_reserve_def host_do_reserve_def bump_rmm_def small_host_def reserved_host_def
      try_add_def register_reservation_def update_peak_def to_i64_def)

lemma take_three:
  "take_blocks env 3 [] h =
     (case (if free_blocks h = [] then expand_pool env h else (Inr (), h)) of
        (Inl e, h') \<Rightarrow> (Threw e, h')
      | (Inr _, h') \<Rightarrow>
          if free_blocks h' = [] then (Still_empty [], h')
          else take_blocks env 2 [last (free_blocks h')] (h'\<lparr>free_blocks := butlast (free_blocks h')\<rparr>))"
  unfolding numeral_3_eq_3 numeral_2_eq_2 by (simp split: sum.splits prod.splits)

lemma small_expands:
  "expand_pool bump_rmm (reserved_host\<lparr>active_reservations := rs, host_allocated_bytes := c\<rparr>)
   = (Inr (), reserved_host\<lparr>active_reservations := rs, host_allocated_bytes := c, upstream := 64,
        allocated_blocks := [0], free_blocks := [0, 16, 32, 48]\<rparr>)"
  by (simp add: expand_pool_def small_defs bump_rmm_def upt_rec)

lemma reserved_host_allocates:
  "allocate_multiple_blocks bump_rmm 40 (Some (Chunked_area 7)) reserved_host
     = (Inr (Some busy_allocation), busy_host)"
proof -
  have n: "align_up bump_rmm 40 16 = 48" by (simp add: bump_rmm_def)
  have b: "host_block_size reserved_host = 16" "free_blocks reserved_host = []"
    by (simp_all add: small_defs)
  have c: "charge (Some (Chunked_area 7)) 48 reserved_host =
      Inr (16, reserved_host\<lparr>active_reservations := [(7, \<lparr>area_size = 32, area_allocated = 48\<rparr>)]\<rparr>)"
    by (simp add: charge_def small_defs to_i64_def wrap_i64_def to_u64_def)
  have a: "host_allocated_bytes reserved_host = 32" "host_memory_capacity reserved_host = 128"
    "try_add (32 :: u64) 16 128 = (True, 48)"
    by (simp_all add: try_add_def small_defs)
  have t: "take_blocks bump_rmm 3 []
      (reserved_host\<lparr>active_reservations := rs, host_allocated_bytes := c\<rparr>)
    = (Got [48, 32, 16], reserved_host\<lparr>active_reservations := rs, host_allocated_bytes := c, upstream := 64,
        allocated_blocks := [0], free_blocks := [0]\<rparr>)" for rs c
    by (simp add: take_three small_expands b numeral_2_eq_2)
  have d: "unat ((48 :: u64) div 16) = 3" by (simp add: unat_div)
  show ?thesis
    by (simp add: allocate_multiple_blocks_def n b c a t d)
       (simp add: busy_allocation_def busy_host_def arena_of_def reserved_host_def small_host_def update_peak_def)
qed

lemma busy_host_reachable:
  "(host_step bump_rmm t)\<^sup>*\<^sup>* (small_host, []) (busy_host, [busy_allocation])"
proof -
  have "host_step bump_rmm t (small_host, []) (reserved_host, [])"
    by (rule host_step.reserve [OF _ small_host_reserves]) (simp add: fresh_arena_def small_defs)
  moreover have "host_step bump_rmm t (reserved_host, []) (busy_host, [] @ handed_out (Inr (Some busy_allocation)))"
    by (rule host_step.allocate [OF _ reserved_host_allocates]) simp_all
  ultimately show ?thesis by (simp add: handed_out_def)
qed


lemma reserved_host_reachable: "(host_step bump_rmm t)\<^sup>*\<^sup>* (small_host, []) (reserved_host, [])"
  by (rule r_into_rtranclp, rule host_step.reserve [OF _ small_host_reserves])
     (simp add: fresh_arena_def small_defs)

theorem host_reservation_honoured_witness:
  "fst (allocate_multiple_blocks bump_rmm 20 (Some (Chunked_area 7)) reserved_host) \<noteq> Inr None
   \<and> host_allocated_bytes (snd (allocate_multiple_blocks bump_rmm 20 (Some (Chunked_area 7)) reserved_host))
     = host_allocated_bytes reserved_host"
proof -
  have a: "map_of (active_reservations reserved_host) 7 = Some \<lparr>area_size = 32, area_allocated = 0\<rparr>"
    by (simp add: small_defs)
  have fits: "area_allocated \<lparr>area_size = 32, area_allocated = 0\<rparr>
      + int (unat (align_up bump_rmm 20 (host_block_size reserved_host)))
      \<le> area_size \<lparr>area_size = 32, area_allocated = 0\<rparr>"
    by (simp add: bump_rmm_def small_defs)
  show ?thesis
    using host_reservation_honoured [OF bump_align small_host_new reserved_host_reachable a _ _ fits
        prod.collapse [symmetric]]
    by simp
qed

section \<open>Executions that lose memory\<close>

text \<open>
  Growing an exceeded reservation charges twice. The bytes by which
  allocations exceed a reservation have been charged when they were allocated; \<open>grow_reservation_by\<close>
  charges the growth again in full, although it only covers bytes already charged: what the
  resource accounts for stays the same, the counter rises by the whole growth.
\<close>

theorem grow_past_size_charges_twice:
  assumes "map_of (active_reservations h) a = Some ar"
    and "unat (align_up env bytes (host_block_size h)) < 2 ^ 62"
    and "area_size ar + int (unat (align_up env bytes (host_block_size h))) \<le> area_allocated ar"
    and "host_grow_reservation_by env a bytes h = (True, h')"
  shows "accounted h' ls = accounted h ls
    \<and> unat (host_allocated_bytes h')
      = unat (host_allocated_bytes h) + unat (align_up env bytes (host_block_size h))"
proof -
  let ?n = "align_up env bytes (host_block_size h)"
  define k where "k = unat ?n"
  have i: "to_i64 ?n = int k" using assms(2) unfolding k_def by (intro to_i64_small) simp
  let ?ar = "ar\<lparr>area_size := area_size ar + int k\<rparr>"
  obtain ok h1 where d: "host_do_reserve ?n (host_memory_limit h) h = (ok, h1)" by fastforce
  with assms(4) have "ok" by (cases ok) (auto simp: host_grow_reservation_by_def Let_def)
  with d have d: "host_do_reserve ?n (host_memory_limit h) h = (True, h1)" by simp
  note ok = host_do_reserve_ok [OF d]
  have h': "h' = h1\<lparr>active_reservations := alist_set a ?ar (active_reservations h)\<rparr>"
    using assms(1,4) d ok(4) by (auto simp: host_grow_reservation_by_def Let_def i)
  have "footprint ?ar = footprint ar"
    using assms(3) unfolding k_def [symmetric] by (simp add: footprint_def max_def)
  then have "accounted h' ls = accounted h ls"
    using alist_sum_set [OF assms(1), of footprint ?ar] ok(3) assms(1)
    by (simp add: accounted_def h' same_config_def)
  with ok(1) show ?thesis by (simp add: h')
qed

theorem grow_past_size_charges_twice_witness:
  "\<exists>h'. host_grow_reservation_by bump_rmm 7 16 busy_host = (True, h')
     \<and> accounted h' [busy_allocation] = accounted busy_host [busy_allocation]
     \<and> unat (host_allocated_bytes h') = unat (host_allocated_bytes busy_host) + 16"
proof -
  have n: "unat (align_up bump_rmm 16 (host_block_size busy_host)) = 16"
    by (simp add: bump_rmm_def small_defs)
  have a: "map_of (active_reservations busy_host) 7 = Some \<lparr>area_size = 32, area_allocated = 48\<rparr>"
    by (simp add: small_defs)
  have "fst (host_grow_reservation_by bump_rmm 7 16 busy_host)"
    by (simp add: host_grow_reservation_by_def host_do_reserve_def bump_rmm_def small_defs try_add_def)
  then obtain h' where g: "host_grow_reservation_by bump_rmm 7 16 busy_host = (True, h')"
    by (metis (full_types) prod.collapse)
  show ?thesis
    using grow_past_size_charges_twice [OF a _ _ g, of "[busy_allocation]"] g by (auto simp: n)
qed

text \<open>
  A failed expansion keeps the charge. When the upstream throws while
  \<open>allocate_multiple_blocks\<close> expands the pool, the exception leaves the counter raised by the bytes
  of the request although nothing is handed out.
\<close>

theorem failed_expansion_keeps_the_charge:
  assumes "allocate_multiple_blocks env bytes None h = (Inl (out_of_memory ''upstream''), h')"
  shows "unat (host_allocated_bytes h')
    = unat (host_allocated_bytes h) + unat (align_up env bytes (host_block_size h))"
proof -
  let ?n = "align_up env bytes (host_block_size h)"
  from assms have nz: "bytes \<noteq> 0" by (auto simp: allocate_multiple_blocks_def)
  obtain ok post where acc: "try_add (host_allocated_bytes h) ?n (host_memory_capacity h) = (ok, post)"
    by fastforce
  with assms nz have ok: "ok"
    by (cases ok) (auto simp: allocate_multiple_blocks_def Let_def charge_def)
  obtain run h2 where run: "take_blocks env (unat (?n div host_block_size h)) []
      (h\<lparr>host_allocated_bytes := post\<rparr>) = (run, h2)" by fastforce
  have "h' = h2"
    using assms nz acc ok run
    by (cases run) (auto simp: allocate_multiple_blocks_def Let_def charge_def)
  with take_blocks_frame [OF run] try_add_host [of "host_allocated_bytes h" ?n] acc ok
  show ?thesis by (auto simp: pool_frame_def)
qed

definition full_upstream :: "nat host_resource" where
  "full_upstream = small_host\<lparr>upstream := 2 ^ 62\<rparr>"

theorem failed_expansion_keeps_the_charge_witness:
  "\<exists>h'. allocate_multiple_blocks bump_rmm 16 None full_upstream
          = (Inl (out_of_memory ''upstream''), h')
     \<and> unat (host_allocated_bytes h') = unat (host_allocated_bytes full_upstream) + 16"
proof -
  have n: "align_up bump_rmm 16 (host_block_size full_upstream) = 16"
    by (simp add: bump_rmm_def full_upstream_def small_defs)
  have "fst (allocate_multiple_blocks bump_rmm 16 None full_upstream) = Inl (out_of_memory ''upstream'')"
    by (simp add: allocate_multiple_blocks_def full_upstream_def small_defs bump_rmm_def charge_def
        try_add_def expand_pool_def)
  then obtain h' where g: "allocate_multiple_blocks bump_rmm 16 None full_upstream
      = (Inl (out_of_memory ''upstream''), h')"
    by (metis prod.collapse)
  show ?thesis using failed_expansion_keeps_the_charge [OF g] g by (simp add: n)
qed

text \<open>A client that allocates and frees the same number of bytes again and again.\<close>

fun churn :: "'u rmm \<Rightarrow> u64 \<Rightarrow> nat \<Rightarrow> 'u host_resource \<Rightarrow> 'u host_resource option" where
  "churn env bytes 0 h = Some h"
| "churn env bytes (Suc k) h =
     (case allocate_multiple_blocks env bytes None h of
        (Inr (Some al), h') \<Rightarrow> churn env bytes k (destroy_allocation al h')
      | _ \<Rightarrow> None)"

definition pool_blocks :: "'u host_resource \<Rightarrow> nat" where
  "pool_blocks h = unat (host_pool_size h) * length (allocated_blocks h)"

lemma expand_pool_count:
  assumes "expand_pool env h = (r, h')"
  shows "length (free_blocks h') + pool_blocks h = length (free_blocks h) + pool_blocks h'"
  using assms by (auto simp: expand_pool_def pool_blocks_def Let_def split: prod.splits option.splits)

lemma take_blocks_count:
  assumes "take_blocks env n taken h = (Got bs, h')"
  shows "length (free_blocks h') + n + pool_blocks h = length (free_blocks h) + pool_blocks h'"
  using assms
proof (induction n arbitrary: taken h)
  case (Suc n)
  obtain x h1 where x: "(if free_blocks h = [] then expand_pool env h else (Inr (), h)) = (x, h1)"
    by fastforce
  have one: "length (free_blocks h1) + pool_blocks h = length (free_blocks h) + pool_blocks h1"
    using x expand_pool_count by (fastforce split: if_splits)
  from Suc.prems x have ne: "free_blocks h1 \<noteq> []"
    by (auto split: sum.splits if_splits)
  with Suc.prems x have run: "take_blocks env n (taken @ [last (free_blocks h1)])
      (h1\<lparr>free_blocks := butlast (free_blocks h1)\<rparr>) = (Got bs, h')"
    by (auto split: sum.splits)
  have "Suc (length (butlast (free_blocks h1))) = length (free_blocks h1)" using ne by simp
  with Suc.IH [OF run] one show ?case by (simp add: pool_blocks_def)
qed simp

lemma one_round:
  assumes b: "host_bounds h" and law: "align_law env" and small: "unat bytes < 2 ^ 61" and nz: "bytes \<noteq> 0"
    and r: "allocate_multiple_blocks env bytes None h = (Inr (Some al), h')"
  shows "host_allocated_bytes (destroy_allocation al h') = host_allocated_bytes h"
    and "length (free_blocks (destroy_allocation al h')) + pool_blocks h
           + unat (align_up env bytes (host_block_size h)) div unat (host_block_size h)
         = length (free_blocks h) + pool_blocks (destroy_allocation al h')"
    and "same_config h (destroy_allocation al h')"
proof -
  let ?n = "align_up env bytes (host_block_size h)" and ?bs = "host_block_size h"
  from b have n: "unat ?n < 2 ^ 62" and dvd: "unat ?bs dvd unat ?n"
    using aligned [OF law _ _ small] by (auto simp: host_bounds_def)
  have "0 < unat bytes" using nz by (simp add: unat_gt_0)
  then have pos: "0 < unat ?n" using aligned(3) [OF law _ _ small, of ?bs] b
    by (auto simp: host_bounds_def intro: order_less_le_trans)
  obtain ok post where acc: "try_add (host_allocated_bytes h) ?n (host_memory_capacity h) = (ok, post)"
    by fastforce
  with r nz have ok: "ok" by (cases ok) (auto simp: allocate_multiple_blocks_def Let_def charge_def)
  obtain run h2 where run: "take_blocks env (unat (?n div ?bs)) [] (h\<lparr>host_allocated_bytes := post\<rparr>) = (run, h2)"
    by fastforce
  with r nz acc ok obtain bs where g: "run = Got bs"
    by (cases run) (auto simp: allocate_multiple_blocks_def Let_def charge_def)
  have al: "al = \<lparr>alloc_blocks = bs, alloc_has_mr = True, alloc_block_size = ?bs, alloc_arena = None\<rparr>"
    and h': "h' = h2\<lparr>host_peak_allocated_bytes := update_peak (host_peak_allocated_bytes h2) post\<rparr>"
    using r nz acc ok run g by (auto simp: allocate_multiple_blocks_def Let_def charge_def arena_of_def)
  note f = take_blocks_frame [OF run]
  have len: "length bs = unat ?n div unat ?bs" using f g by (simp add: unat_div)
  have lenb: "length bs * unat ?bs = unat ?n" using dvd len by simp
  with pos have ne: "bs \<noteq> []" by auto
  have w: "of_nat (length bs) * ?bs = ?n"
    using arg_cong [OF lenb, of "of_nat :: nat \<Rightarrow> u64"] by simp
  have d: "destroy_allocation al h' = h'\<lparr>host_allocated_bytes := sub (host_allocated_bytes h') ?n\<rparr>"
    using ne f w by (simp add: destroy_allocation_def al return_allocated_chunks_def Let_def h'
        pool_frame_def same_config_def)
  have "post = host_allocated_bytes h + ?n"
    using acc ok by (auto simp: try_add_def split: if_splits)
  with f show "host_allocated_bytes (destroy_allocation al h') = host_allocated_bytes h"
    unfolding d by (simp add: h' pool_frame_def sub_def)
  show "same_config h (destroy_allocation al h')"
    using f unfolding d by (simp add: h' pool_frame_def same_config_def)
  from take_blocks_count [OF run [unfolded g]] f
  show "length (free_blocks (destroy_allocation al h')) + pool_blocks h + unat ?n div unat ?bs
      = length (free_blocks h) + pool_blocks (destroy_allocation al h')"
    unfolding d by (simp add: h' pool_blocks_def pool_frame_def unat_div)
qed

text \<open>
  The pool grows without bound under a client whose demand does not. Rounds of allocating and
  freeing \<open>bytes\<close> bytes leave the byte counter where it was, and yet after \<open>k\<close> rounds the pool has
  taken at least \<open>k\<close> times the blocks of one round from the upstream resource.
\<close>

lemma churn_grows_pool:
  assumes "align_law env" and "host_bounds h" and "unat bytes < 2 ^ 61" and "bytes \<noteq> 0"
    and "length (free_blocks h) \<le> pool_blocks h" and "churn env bytes k h = Some h'"
  shows "host_allocated_bytes h' = host_allocated_bytes h
    \<and> k * (unat (align_up env bytes (host_block_size h)) div unat (host_block_size h)) \<le> pool_blocks h'"
proof -
  let ?m = "\<lambda>h :: 'a host_resource. unat (align_up env bytes (host_block_size h)) div unat (host_block_size h)"
  have "host_allocated_bytes h' = host_allocated_bytes h
      \<and> length (free_blocks h') + pool_blocks h + k * ?m h = length (free_blocks h) + pool_blocks h'"
    using assms(2,6)
  proof (induction k arbitrary: h)
    case (Suc k)
    from Suc.prems(2) obtain al h1 where r: "allocate_multiple_blocks env bytes None h = (Inr (Some al), h1)"
      and rest: "churn env bytes k (destroy_allocation al h1) = Some h'"
      by (auto split: prod.splits sum.splits option.splits)
    note one = one_round [OF Suc.prems(1) assms(1,3,4) r]
    have "host_bounds (destroy_allocation al h1)" and "?m (destroy_allocation al h1) = ?m h"
      using one(3) Suc.prems(1) by (simp_all add: host_bounds_def same_config_def)
    with Suc.IH [OF _ rest] one(1,2) show ?case by simp
  qed simp
  with assms(5) show ?thesis by linarith
qed

end
