(* ===== verification/Host_Blocks.thy ===== *)
theory Host_Blocks
  imports Host_Guarantees "HOL-Library.Multiset"
begin

text \<open>
  The blocks of \<open>fixed_size_host_memory_resource\<close>: an upstream that returns fresh memory is cut into
  blocks that never overlap, and a block is never in two places, be it the free list or a live
  allocation.
\<close>

section \<open>What the upstream promises\<close>

text \<open>
  \<open>owned\<close> gives the regions (address and size) that the upstream may have handed out. A new region
  does not run past the end of the address space, overlaps none of them, and joins them.
\<close>

definition fresh_upstream :: "'u rmm \<Rightarrow> ('u \<Rightarrow> (nat \<times> nat) set) \<Rightarrow> bool" where
  "fresh_upstream env owned \<longleftrightarrow>
     (\<forall>n u p u'. up_allocate env n u = (Some p, u') \<longrightarrow>
        unat p + unat n \<le> 2 ^ 64 \<and> insert (unat p, unat n) (owned u) \<subseteq> owned u'
        \<and> (\<forall>(q, m) \<in> owned u. unat p + unat n \<le> q \<or> q + m \<le> unat p))
     \<and> (\<forall>n u u'. up_allocate env n u = (None, u') \<longrightarrow> owned u \<subseteq> owned u')"

section \<open>Separate blocks\<close>

definition apart :: "nat \<Rightarrow> u64 \<Rightarrow> u64 \<Rightarrow> bool" where
  "apart bs b b' \<longleftrightarrow> unat b + bs \<le> unat b' \<or> unat b' + bs \<le> unat b"

definition separate :: "nat \<Rightarrow> (nat \<times> nat) set \<Rightarrow> u64 list \<Rightarrow> bool" where
  "separate bs own bl \<longleftrightarrow>
     distinct bl
     \<and> (\<forall>b \<in> set bl. \<exists>(q, m) \<in> own. q \<le> unat b \<and> unat b + bs \<le> q + m)
     \<and> (\<forall>b \<in> set bl. \<forall>b' \<in> set bl. b \<noteq> b' \<longrightarrow> apart bs b b')"

lemma separate_perm: "mset xs = mset ys \<Longrightarrow> separate bs own xs \<Longrightarrow> separate bs own ys"
  unfolding separate_def using mset_eq_setD [of xs ys] mset_eq_imp_distinct_iff [of xs ys] by simp

lemma separate_drop: "separate bs own (xs @ ys @ zs) \<Longrightarrow> separate bs own (xs @ zs)"
  unfolding separate_def by auto

lemma separate_own: "separate bs own bl \<Longrightarrow> own \<subseteq> own' \<Longrightarrow> separate bs own' bl"
  unfolding separate_def by (blast intro: subsetD)

lemma separate_append:
  assumes "separate bs own xs" and "separate bs own ys"
    and "\<And>b b'. b \<in> set xs \<Longrightarrow> b' \<in> set ys \<Longrightarrow> apart bs b b'" and "0 < bs"
  shows "separate bs own (xs @ ys)"
proof -
  have "b \<noteq> b'" if "b \<in> set xs" and "b' \<in> set ys" for b b'
    using assms(3) [OF that] assms(4) by (auto simp: apart_def)
  then have "set xs \<inter> set ys = {}" by blast
  moreover have "apart bs b' b" if "b \<in> set xs" and "b' \<in> set ys" for b b'
    using assms(3) [OF that] by (auto simp: apart_def)
  ultimately show ?thesis
    using assms(1-3) unfolding separate_def by auto
qed

lemma pool_block:
  assumes "unat p + unat bs * unat pool \<le> 2 ^ 64" and "i < unat pool" and "0 < unat (bs :: u64)"
  shows "unat (p + of_nat i * bs) = unat p + i * unat bs"
proof -
  have "i * unat bs + unat bs \<le> unat pool * unat bs"
    using assms(2) by (metis Suc_leI add.commute mult_Suc mult_le_mono1)
  then have lt: "unat p + i * unat bs < 2 ^ 64" using assms(1,3) by (simp add: mult.commute)
  then have "unat (of_nat i * bs) = i * unat bs"
    by (simp add: unat_word_ariths unat_of_nat mod_mult_left_eq)
  with lt show ?thesis by (simp add: unat_add_exact)
qed

lemma new_pool_separate:
  assumes bound: "unat p + unat bs * unat pool \<le> 2 ^ 64" and pos: "0 < unat bs"
  shows "separate (unat bs) {(unat p, unat bs * unat pool)}
           (map (\<lambda>i. p + of_nat i * bs) [0..<unat pool])"
proof -
  let ?f = "\<lambda>i. p + of_nat i * bs"
  note at = pool_block [OF bound _ pos]
  have step: "i * unat bs + unat bs \<le> j * unat bs" if "i < j" for i j
    using that by (metis Suc_leI add.commute mult_Suc mult_le_mono1)
  have apart: "apart (unat bs) (?f i) (?f j)" if "i < unat pool" "j < unat pool" "i \<noteq> j" for i j
    using that at [of i] at [of j] step [of i j] step [of j i]
    by (cases "i < j") (auto simp: apart_def)
  have "inj_on ?f {0..<unat pool}"
  proof (rule inj_onI)
    fix i j assume ij: "i \<in> {0..<unat pool}" "j \<in> {0..<unat pool}" and eq: "?f i = ?f j"
    show "i = j"
    proof (rule ccontr)
      assume "i \<noteq> j"
      with apart ij have "apart (unat bs) (?f i) (?f j)" by simp
      with eq pos show False by (auto simp: apart_def)
    qed
  qed
  then have dis: "distinct (map ?f [0..<unat pool])" by (simp add: distinct_map)
  have inside: "unat p \<le> unat (?f i) \<and> unat (?f i) + unat bs \<le> unat p + unat bs * unat pool"
    if "i < unat pool" for i
    using that at [of i] step [of i "unat pool"] by (simp add: mult.commute)
  from dis inside apart show ?thesis
    unfolding separate_def by fastforce
qed

section \<open>The pool keeps its blocks separate\<close>

definition sane_pool :: "'u host_resource \<Rightarrow> bool" where
  "sane_pool h \<longleftrightarrow> 0 < unat (host_block_size h)
     \<and> unat (host_block_size h) * unat (host_pool_size h) < 2 ^ 64"

abbreviation sep :: "('u \<Rightarrow> (nat \<times> nat) set) \<Rightarrow> 'u host_resource \<Rightarrow> u64 list \<Rightarrow> bool" where
  "sep owned h bl \<equiv> separate (unat (host_block_size h)) (owned (upstream h)) bl"

lemma expand_pool_separate:
  assumes up: "fresh_upstream env owned" and sane: "sane_pool h"
    and s: "sep owned h (free_blocks h @ rest)" and r: "expand_pool env h = (r, h')"
  shows "sep owned h' (free_blocks h' @ rest)"
proof -
  let ?bs = "host_block_size h" and ?n = "host_block_size h * host_pool_size h"
  have n: "unat ?n = unat ?bs * unat (host_pool_size h)"
    using sane by (simp add: sane_pool_def unat_word_ariths)
  obtain x u where x: "up_allocate env ?n (upstream h) = (x, u)" by fastforce
  show ?thesis
  proof (cases x)
    case None
    with up x have "owned (upstream h) \<subseteq> owned u" by (simp add: fresh_upstream_def)
    with None x r s show ?thesis by (auto simp: expand_pool_def Let_def intro: separate_own)
  next
    case (Some p)
    let ?new = "map (\<lambda>i. p + of_nat i * ?bs) [0..<unat (host_pool_size h)]"
    have h': "host_block_size h' = ?bs" "upstream h' = u" "free_blocks h' = free_blocks h @ ?new"
      using Some x r by (auto simp: expand_pool_def Let_def)
    have fresh: "unat p + unat ?bs * unat (host_pool_size h) \<le> 2 ^ 64"
      and own: "insert (unat p, unat ?bs * unat (host_pool_size h)) (owned (upstream h)) \<subseteq> owned u"
      and away: "\<And>q m. (q, m) \<in> owned (upstream h) \<Longrightarrow>
                  unat p + unat ?bs * unat (host_pool_size h) \<le> q \<or> q + m \<le> unat p"
      using up x Some unfolding fresh_upstream_def n [symmetric] by blast+
    have pos: "0 < unat ?bs" using sane by (simp add: sane_pool_def)
    have "separate (unat ?bs) (owned u) ?new"
      by (rule separate_own [OF new_pool_separate [OF fresh pos]]) (use own in simp)
    moreover have "separate (unat ?bs) (owned u) (free_blocks h @ rest)"
      by (rule separate_own [OF s]) (use own in simp)
    moreover have "apart (unat ?bs) b b'" if "b \<in> set (free_blocks h @ rest)" and "b' \<in> set ?new" for b b'
    proof -
      from that(1) s obtain q m where "(q, m) \<in> owned (upstream h)"
        and "q \<le> unat b" and "unat b + unat ?bs \<le> q + m"
        unfolding separate_def by blast
      moreover from that(2) new_pool_separate [OF fresh pos]
      have "unat p \<le> unat b'" and "unat b' + unat ?bs \<le> unat p + unat ?bs * unat (host_pool_size h)"
        unfolding separate_def by blast+
      ultimately show ?thesis using away [of q m] by (auto simp: apart_def)
    qed
    ultimately have "separate (unat ?bs) (owned u) ((free_blocks h @ rest) @ ?new)"
      using pos separate_append [of "unat ?bs" "owned u" "free_blocks h @ rest" ?new] by blast
    then show ?thesis unfolding h' by (rule separate_perm [rotated]) simp
  qed
qed

fun blocks_of_run :: "block_run \<Rightarrow> u64 list" where
  "blocks_of_run (Got bl) = bl"
| "blocks_of_run (Still_empty bl) = bl"
| "blocks_of_run (Threw e) = []"

lemma take_blocks_separate:
  assumes up: "fresh_upstream env owned"
  shows "sane_pool h \<Longrightarrow> sep owned h (free_blocks h @ taken @ rest) \<Longrightarrow>
         take_blocks env n taken h = (r, h') \<Longrightarrow> sep owned h' (free_blocks h' @ blocks_of_run r @ rest)"
proof (induction n arbitrary: taken h)
  case (Suc n)
  obtain x h1 where x: "(if free_blocks h = [] then expand_pool env h else (Inr (), h)) = (x, h1)"
    by fastforce
  have s1: "sep owned h1 (free_blocks h1 @ taken @ rest)"
    using x Suc.prems(2) expand_pool_separate [OF up Suc.prems(1,2)] by (auto split: if_splits)
  have sane1: "sane_pool h1"
    using x Suc.prems(1) by (auto simp: sane_pool_def pool_frame_def same_config_def
        split: if_splits dest: expand_pool_frame)
  show ?case
  proof (cases "isl x \<or> free_blocks h1 = []")
    case True
    with Suc.prems(3) x have "h' = h1 \<and> (blocks_of_run r = taken \<or> blocks_of_run r = [])"
      by (cases x) auto
    with s1 separate_drop show ?thesis by auto
  next
    case False
    let ?h = "h1\<lparr>free_blocks := butlast (free_blocks h1)\<rparr>" and ?l = "last (free_blocks h1)"
    from False Suc.prems(3) x have run: "take_blocks env n (taken @ [?l]) ?h = (r, h')"
      by (cases x) auto
    have "free_blocks h1 = butlast (free_blocks h1) @ [?l]" using False by simp
    then have "mset (free_blocks h1) = mset (butlast (free_blocks h1)) + {#?l#}"
      by (metis mset_append mset_single_iff_right)
    then have "sep owned ?h (free_blocks ?h @ (taken @ [?l]) @ rest)"
      using s1 by (auto elim!: separate_perm [rotated] simp: ac_simps)
    from Suc.IH [OF _ this run] sane1 show ?thesis by (simp add: sane_pool_def)
  qed
qed auto

section \<open>All reachable states\<close>

definition live_blocks :: "multiple_blocks_allocation list \<Rightarrow> u64 list" where
  "live_blocks ls = concat (map alloc_blocks ls)"

definition pool_kept :: "'u host_resource \<Rightarrow> 'u host_resource \<Rightarrow> bool" where
  "pool_kept h h' \<longleftrightarrow> free_blocks h' = free_blocks h \<and> upstream h' = upstream h
     \<and> host_block_size h' = host_block_size h \<and> host_pool_size h' = host_pool_size h"

lemma pool_kept_ops:
  "host_reserve env a bytes h = (r, h') \<Longrightarrow> pool_kept h h'"
  "host_reserve_upto env a bytes h = (r, h') \<Longrightarrow> pool_kept h h'"
  "host_grow_reservation_by env a bytes h = (ok, h') \<Longrightarrow> pool_kept h h'"
  "host_shrink_reservation_to_fit a h = (x, h') \<Longrightarrow> pool_kept h h'"
  "release_reservation a h = (x, h') \<Longrightarrow> pool_kept h h'"
  by (auto simp: pool_kept_def host_reserve_def host_reserve_upto_def host_grow_reservation_by_def
      host_shrink_reservation_to_fit_def release_reservation_def host_do_reserve_def
      host_do_reserve_upto_def register_reservation_def Let_def
      split: prod.splits if_splits option.splits bool.splits)

lemma pool_kept_charge: "charge res n h = Inr (tracked, h1) \<Longrightarrow> pool_kept h h1"
  by (auto simp: pool_kept_def charge_def Let_def split: option.splits arena_ref.splits)

lemma pool_kept_uncharge: "pool_kept h (uncharge res n h)"
  by (auto simp: pool_kept_def uncharge_def split: option.splits arena_ref.splits)

lemma pool_kept_destroy: "pool_kept h (destroy_allocation al h)"
  by (auto simp: pool_kept_def destroy_allocation_def return_allocated_chunks_def Let_def
      split: option.splits)

definition blocks_inv :: "('u \<Rightarrow> (nat \<times> nat) set) \<Rightarrow> 'u host_resource \<Rightarrow> u64 list \<Rightarrow> bool" where
  "blocks_inv owned h rest \<longleftrightarrow> sane_pool h \<and> sep owned h (free_blocks h @ rest)"

lemma blocks_inv_kept: "pool_kept h h' \<Longrightarrow> blocks_inv owned h rest \<Longrightarrow> blocks_inv owned h' rest"
  by (simp add: pool_kept_def blocks_inv_def sane_pool_def)

lemma allocate_blocks_inv:
  assumes up: "fresh_upstream env owned" and inv: "blocks_inv owned h rest"
    and r: "allocate_multiple_blocks env bytes res h = (r, h')"
  shows "blocks_inv owned h' (live_blocks (handed_out r) @ rest)"
proof (cases "bytes = 0 \<or> isl (charge res (align_up env bytes (host_block_size h)) h)")
  case True
  with r have "h' = h \<and> live_blocks (handed_out r) = []"
    by (auto simp: allocate_multiple_blocks_def Let_def handed_out_def live_blocks_def
        empty_allocation_def split: if_splits sum.splits)
  with inv show ?thesis by simp
next
  case False
  let ?n = "align_up env bytes (host_block_size h)"
  obtain tracked h1 where c: "charge res ?n h = Inr (tracked, h1)"
    using False by (cases "charge res ?n h") auto
  obtain ok post where acc: "try_add (host_allocated_bytes h1) tracked (host_memory_capacity h1) = (ok, post)"
    by fastforce
  let ?h = "h1\<lparr>host_allocated_bytes := post\<rparr>"
  obtain run h2 where run: "take_blocks env (unat (?n div host_block_size h)) [] ?h = (run, h2)"
    by fastforce
  have inv1: "blocks_inv owned h1 rest" by (rule blocks_inv_kept [OF pool_kept_charge [OF c] inv])
  then have "sane_pool ?h" and "sep owned ?h (free_blocks ?h @ [] @ rest)"
    by (simp_all add: blocks_inv_def sane_pool_def)
  from take_blocks_separate [OF up this run]
  have s2: "sep owned h2 (free_blocks h2 @ blocks_of_run run @ rest)" .
  have sane2: "sane_pool h2"
    using inv1 take_blocks_frame [OF run]
    by (simp add: blocks_inv_def sane_pool_def pool_frame_def same_config_def)
  show ?thesis
  proof (cases ok)
    case no: False
    with r False c acc have "h' = uncharge res ?n h1" "live_blocks (handed_out r) = []"
      by (auto simp: allocate_multiple_blocks_def Let_def handed_out_def live_blocks_def)
    with blocks_inv_kept [OF pool_kept_uncharge inv1] show ?thesis by simp
  next
    case True
    note here = r False c acc True run
    show ?thesis
    proof (cases run)
      case (Got bl)
      with here have "pool_kept h2 h'" and "live_blocks (handed_out r) = bl"
        by (auto simp: allocate_multiple_blocks_def Let_def handed_out_def live_blocks_def pool_kept_def)
      with s2 sane2 Got show ?thesis by (auto simp: blocks_inv_def pool_kept_def sane_pool_def)
    next
      case (Still_empty bl)
      let ?h3 = "h2\<lparr>free_blocks := free_blocks h2 @ bl,
                    host_allocated_bytes := sub (host_allocated_bytes h2) tracked\<rparr>"
      have "h' = uncharge res ?n ?h3" and "live_blocks (handed_out r) = []"
        using here Still_empty
        by (auto simp: allocate_multiple_blocks_def Let_def handed_out_def live_blocks_def)
      moreover have "blocks_inv owned ?h3 rest"
        using s2 sane2 Still_empty by (simp add: blocks_inv_def sane_pool_def)
      ultimately show ?thesis using blocks_inv_kept [OF pool_kept_uncharge] by simp
    next
      case (Threw e)
      with here have "h' = h2" and "live_blocks (handed_out r) = []"
        by (auto simp: allocate_multiple_blocks_def Let_def handed_out_def live_blocks_def)
      with s2 sane2 Threw show ?thesis by (simp add: blocks_inv_def)
    qed
  qed
qed

lemma live_blocks_remove1:
  assumes "al \<in> set ls"
  shows "mset (live_blocks ls) = mset (alloc_blocks al) + mset (live_blocks (remove1 al ls))"
  using assms by (induction ls) (auto simp: live_blocks_def)

text \<open>One client's steps, with blocks \<open>rest\<close> that others hold.\<close>

lemma blocks_inv_drop: "blocks_inv owned h (xs @ rest) \<Longrightarrow> blocks_inv owned h rest"
  using separate_drop by (auto simp: blocks_inv_def)

lemma blocks_inv_perm: "mset xs = mset ys \<Longrightarrow> blocks_inv owned h xs \<Longrightarrow> blocks_inv owned h ys"
  by (auto simp: blocks_inv_def elim!: separate_perm [rotated])

lemma step_blocks_inv:
  assumes "host_step env t (h, ls) (h', ls')" and up: "fresh_upstream env owned"
    and inv: "blocks_inv owned h (live_blocks ls @ rest)"
  shows "blocks_inv owned h' (live_blocks ls' @ rest)"
  using assms(1)
proof (cases rule: host_step.cases)
  case (allocate bytes res got)
  have "mset (live_blocks (handed_out got) @ live_blocks ls @ rest) = mset (live_blocks ls' @ rest)"
    by (simp add: allocate(1) live_blocks_def)
  from blocks_inv_perm [OF this allocate_blocks_inv [OF up inv allocate(3)]] show ?thesis .
next
  case (deallocate al)
  have "mset (live_blocks ls @ rest) = mset (alloc_blocks al @ live_blocks ls' @ rest)"
    using live_blocks_remove1 [OF deallocate(3)] deallocate(2) by simp
  from blocks_inv_perm [OF this inv] have "blocks_inv owned h (live_blocks ls' @ rest)"
    by (rule blocks_inv_drop)
  with deallocate(1) blocks_inv_kept [OF pool_kept_destroy] show ?thesis by simp
next
  case (reserve a bytes r)
  with blocks_inv_kept [OF pool_kept_ops(1) inv] show ?thesis by simp
next
  case (reserve_upto a bytes r)
  with blocks_inv_kept [OF pool_kept_ops(2) inv] show ?thesis by simp
next
  case (grow a ar bytes ok)
  show ?thesis using blocks_inv_kept [OF pool_kept_ops(3) [OF grow(5)] inv] grow(1) by simp
next
  case (shrink a x)
  with blocks_inv_kept [OF pool_kept_ops(4) inv] show ?thesis by simp
next
  case (release a x)
  with blocks_inv_kept [OF pool_kept_ops(5) inv] show ?thesis by simp
qed

text \<open>No step changes the sizes that a resource was constructed with.\<close>

lemma allocate_same_config:
  assumes "allocate_multiple_blocks env bytes res h = (r, h')"
  shows "same_config h h'"
proof (cases "bytes = 0 \<or> isl (charge res (align_up env bytes (host_block_size h)) h)")
  case True
  with assms have "h' = h" by (auto simp: allocate_multiple_blocks_def Let_def split: if_splits sum.splits)
  then show ?thesis by (simp add: same_config_def)
next
  case False
  let ?n = "align_up env bytes (host_block_size h)"
  obtain tracked h1 where c: "charge res ?n h = Inr (tracked, h1)"
    using False by (cases "charge res ?n h") auto
  obtain ok post where acc: "try_add (host_allocated_bytes h1) tracked (host_memory_capacity h1) = (ok, post)"
    by fastforce
  obtain run h2 where run: "take_blocks env (unat (?n div host_block_size h)) []
      (h1\<lparr>host_allocated_bytes := post\<rparr>) = (run, h2)" by fastforce
  have "same_config h h1" using charge_frame [OF c] by simp
  moreover have "same_config h1 h2"
    using take_blocks_frame [OF run] by (simp add: pool_frame_def same_config_def)
  moreover have "same_config g (uncharge res ?n g)" for g :: "'a host_resource"
    by (auto simp: uncharge_def same_config_def split: option.splits arena_ref.splits)
  ultimately show ?thesis
    using assms False c acc run
    by (cases ok; cases run) (auto simp: allocate_multiple_blocks_def Let_def same_config_def)
qed

lemma destroy_same_config: "same_config h (destroy_allocation al h)"
  by (auto simp: same_config_def destroy_allocation_def return_allocated_chunks_def Let_def split: option.splits)

lemma step_same_config:
  assumes "host_step env t (h, ls) (h', ls')" shows "same_config h h'"
  using assms
proof (cases rule: host_step.cases)
  case allocate
  then show ?thesis using allocate_same_config by blast
next
  case deallocate
  then show ?thesis using destroy_same_config by simp
qed (auto simp: same_config_def host_reserve_def host_reserve_upto_def host_grow_reservation_by_def
    host_shrink_reservation_to_fit_def release_reservation_def host_do_reserve_def
    host_do_reserve_upto_def register_reservation_def Let_def
    split: prod.splits if_splits option.splits bool.splits)

text \<open>
  Property C11. Memory is never handed out twice. Over an upstream that returns fresh regions, in
  every reachable state the free list and the live allocations together hold no block twice, every
  block lies within a region of the upstream, and any two of the blocks are disjoint byte ranges.
\<close>

theorem host_blocks_disjoint:
  assumes "fresh_upstream env owned" and "sane_pool h0"
    and "separate (unat (host_block_size h0)) (owned (upstream h0)) (free_blocks h0)"
    and "(host_step env False)\<^sup>*\<^sup>* (h0, []) (h, ls)"
  shows "separate (unat (host_block_size h)) (owned (upstream h)) (free_blocks h @ live_blocks ls)"
proof -
  have "blocks_inv owned (fst s) (live_blocks (snd s))"
    if "(host_step env False)\<^sup>*\<^sup>* (h0, []) s" for s
    using that
  proof (induction rule: rtranclp_induct)
    case base
    then show ?case using assms(2,3) by (simp add: blocks_inv_def live_blocks_def)
  next
    case (step s s')
    then show ?case
      using step_blocks_inv [of env False "fst s" "snd s" "fst s'" "snd s'" owned "[]", OF _ assms(1)] by simp
  qed
  from this [OF assms(4)] show ?thesis by (simp add: blocks_inv_def)
qed

definition bump_owned :: "nat \<Rightarrow> (nat \<times> nat) set" where
  "bump_owned u = {(q, m). q + m \<le> u}"

lemma bump_fresh: "fresh_upstream bump_rmm bump_owned"
proof -
  have small: "unat (of_nat u :: u64) = u" if "u \<le> 2 ^ 62" for u
    using that by (simp add: unat_of_nat)
  show ?thesis
    by (auto simp: fresh_upstream_def bump_rmm_def bump_owned_def small split: if_splits)
qed

theorem host_blocks_disjoint_witness:
  "separate (unat (host_block_size busy_host)) (bump_owned (upstream busy_host))
     (free_blocks busy_host @ live_blocks [busy_allocation])"
proof (rule host_blocks_disjoint [OF bump_fresh _ _ busy_host_reachable])
  show "sane_pool small_host" by (simp add: sane_pool_def small_defs)
  show "separate (unat (host_block_size small_host)) (bump_owned (upstream small_host))
          (free_blocks small_host)"
    by (simp add: separate_def small_defs)
qed

section \<open>Blocks that were freed\<close>

text \<open>The regions that the pool has taken from the upstream are kept by every step.\<close>

lemma expand_pool_keeps_regions:
  "expand_pool env h = (r, h') \<Longrightarrow> set (allocated_blocks h) \<subseteq> set (allocated_blocks h')"
  by (auto simp: expand_pool_def Let_def split: prod.splits option.splits)

lemma take_blocks_keeps_regions:
  "take_blocks env n taken h = (r, h') \<Longrightarrow> set (allocated_blocks h) \<subseteq> set (allocated_blocks h')"
proof (induction n arbitrary: taken h)
  case (Suc n)
  obtain x h1 where x: "(if free_blocks h = [] then expand_pool env h else (Inr (), h)) = (x, h1)"
    by fastforce
  then have one: "set (allocated_blocks h) \<subseteq> set (allocated_blocks h1)"
    using expand_pool_keeps_regions by (fastforce split: if_splits)
  show ?case
  proof (cases "isl x \<or> free_blocks h1 = []")
    case True
    with Suc.prems x one show ?thesis by (cases x) auto
  next
    case False
    with Suc.prems x have "take_blocks env n (taken @ [last (free_blocks h1)])
        (h1\<lparr>free_blocks := butlast (free_blocks h1)\<rparr>) = (r, h')"
      by (cases x) auto
    from Suc.IH [OF this] one show ?thesis by auto
  qed
qed simp

lemma allocate_keeps_regions:
  assumes r: "allocate_multiple_blocks env bytes res h = (r, h')"
  shows "set (allocated_blocks h) \<subseteq> set (allocated_blocks h')"
proof (cases "bytes = 0 \<or> isl (charge res (align_up env bytes (host_block_size h)) h)")
  case True
  with r have "h' = h" by (auto simp: allocate_multiple_blocks_def Let_def split: if_splits sum.splits)
  then show ?thesis by simp
next
  case False
  let ?n = "align_up env bytes (host_block_size h)"
  obtain tracked h1 where c: "charge res ?n h = Inr (tracked, h1)"
    using False by (cases "charge res ?n h") auto
  obtain ok post where acc: "try_add (host_allocated_bytes h1) tracked (host_memory_capacity h1) = (ok, post)"
    by fastforce
  obtain run h2 where run: "take_blocks env (unat (?n div host_block_size h)) []
      (h1\<lparr>host_allocated_bytes := post\<rparr>) = (run, h2)" by fastforce
  have "allocated_blocks h1 = allocated_blocks h"
    using c by (auto simp: charge_def Let_def split: option.splits arena_ref.splits)
  moreover have "allocated_blocks (uncharge res ?n g) = allocated_blocks g" for g :: "'a host_resource"
    by (auto simp: uncharge_def split: option.splits arena_ref.splits)
  ultimately show ?thesis
    using r False c acc run take_blocks_keeps_regions [OF run]
    by (cases ok; cases run) (auto simp: allocate_multiple_blocks_def Let_def)
qed

lemma step_keeps_regions:
  assumes "host_step env t (h, ls) (h', ls')"
  shows "set (allocated_blocks h) \<subseteq> set (allocated_blocks h')"
  using assms
proof (cases rule: host_step.cases)
  case (allocate bytes res got)
  then show ?thesis using allocate_keeps_regions by blast
next
  case (deallocate al)
  then show ?thesis
    by (auto simp: destroy_allocation_def return_allocated_chunks_def Let_def split: option.splits)
qed (auto simp: host_reserve_def host_reserve_upto_def host_grow_reservation_by_def
    host_shrink_reservation_to_fit_def release_reservation_def host_do_reserve_def
    host_do_reserve_upto_def register_reservation_def Let_def
    split: prod.splits if_splits option.splits bool.splits)

lemma run_blocks_inv:
  assumes "(host_step env t)\<^sup>*\<^sup>* (h, ls) (h', ls')" and "fresh_upstream env owned"
    and "blocks_inv owned h (live_blocks ls @ rest)"
  shows "blocks_inv owned h' (live_blocks ls' @ rest) \<and> set (allocated_blocks h) \<subseteq> set (allocated_blocks h')"
  using assms(1)
proof (induction "(h', ls')" arbitrary: h' ls' rule: rtranclp_induct)
  case base
  with assms(3) show ?case by simp
next
  case (step y)
  obtain g gs where y: "y = (g, gs)" by fastforce
  from step.hyps(3) [OF y] step_blocks_inv [OF step.hyps(2) [unfolded y] assms(2)]
    step_keeps_regions [OF step.hyps(2) [unfolded y]]
  show ?case by auto
qed

text \<open>
  Property C38. Freed blocks never come back. Whatever allocation is freed in a run of the resource,
  charged to a reservation or not, and whatever operations follow, in any number and order: its
  blocks are never in the free list and never part of a live allocation again, while the regions
  that the pool had taken from the upstream are never given back.
\<close>

theorem freed_blocks_are_never_reused:
  assumes "fresh_upstream env owned" and "sane_pool h0"
    and "separate (unat (host_block_size h0)) (owned (upstream h0)) (free_blocks h0)"
    and "(host_step env False)\<^sup>*\<^sup>* (h0, []) (h, ls)" and "al \<in> set ls"
    and "(host_step env False)\<^sup>*\<^sup>* (destroy_allocation al h, remove1 al ls) (h', ls')"
  shows "set (alloc_blocks al) \<inter> set (free_blocks h' @ live_blocks ls') = {}
    \<and> set (allocated_blocks h) \<subseteq> set (allocated_blocks h')"
proof -
  have "blocks_inv owned h0 (live_blocks [] @ [])"
    using assms(2,3) by (simp add: blocks_inv_def live_blocks_def)
  with run_blocks_inv [OF assms(4,1)] have "blocks_inv owned h (live_blocks ls @ [])" by blast
  moreover have "mset (live_blocks ls @ []) = mset (live_blocks (remove1 al ls) @ alloc_blocks al)"
    using live_blocks_remove1 [OF assms(5)] by simp
  ultimately have "blocks_inv owned h (live_blocks (remove1 al ls) @ alloc_blocks al)"
    by (rule blocks_inv_perm [rotated])
  from blocks_inv_kept [OF pool_kept_destroy this]
  have "blocks_inv owned (destroy_allocation al h) (live_blocks (remove1 al ls) @ alloc_blocks al)" .
  note run = run_blocks_inv [OF assms(6,1) this]
  have "distinct (free_blocks h' @ live_blocks ls' @ alloc_blocks al)"
    using run by (simp add: blocks_inv_def separate_def)
  moreover have "set (allocated_blocks h) \<subseteq> set (allocated_blocks (destroy_allocation al h))"
    by (auto simp: destroy_allocation_def return_allocated_chunks_def Let_def split: option.splits)
  ultimately show ?thesis using run by auto
qed

text \<open>The blocks 16, 32 and 48 are freed, two more allocations take the block 0 and a new region.\<close>

definition freed_host :: "nat host_resource" where
  "freed_host = destroy_allocation busy_allocation busy_host"

definition later_host :: "nat host_resource" where
  "later_host = snd (allocate_multiple_blocks bump_rmm 32 None freed_host)"

lemma freed_host_fields:
  "freed_host = busy_host\<lparr>host_allocated_bytes := 32,
     active_reservations := [(7, \<lparr>area_size = 32, area_allocated = 0\<rparr>)]\<rparr>"
  by (simp add: freed_host_def destroy_allocation_def return_allocated_chunks_def small_defs to_i64_def
      to_u64_def wrap_i64_def sub_def)

lemma take_two:
  "take_blocks env 2 [] h =
     (case (if free_blocks h = [] then expand_pool env h else (Inr (), h)) of
        (Inl e, h') \<Rightarrow> (Threw e, h')
      | (Inr _, h') \<Rightarrow>
          if free_blocks h' = [] then (Still_empty [], h')
          else take_blocks env (Suc 0) [last (free_blocks h')] (h'\<lparr>free_blocks := butlast (free_blocks h')\<rparr>))"
  unfolding numeral_2_eq_2 by (simp split: sum.splits prod.splits)

lemma freed_host_allocates:
  "allocate_multiple_blocks bump_rmm 32 None freed_host
     = (Inr (Some \<lparr>alloc_blocks = [0, 112], alloc_has_mr = True, alloc_block_size = 16, alloc_arena = None\<rparr>),
        later_host)" (is ?run)
  and later_free: "free_blocks later_host = [64, 80, 96]"
proof -
  have n: "align_up bump_rmm 32 16 = 32" by (simp add: bump_rmm_def)
  have b: "host_block_size freed_host = 16" by (simp add: freed_host_fields small_defs)
  have d: "unat ((32 :: u64) div 16) = 2" by (simp add: unat_div)
  have a: "host_allocated_bytes freed_host = 32" "host_memory_capacity freed_host = 128"
    "try_add (32 :: u64) 32 128 = (True, 64)"
    by (simp_all add: try_add_def freed_host_fields small_defs)
  have t: "take_blocks bump_rmm 2 [] (freed_host\<lparr>host_allocated_bytes := c\<rparr>)
    = (Got [0, 112], freed_host\<lparr>host_allocated_bytes := c, upstream := 128,
        allocated_blocks := [0, 64], free_blocks := [64, 80, 96]\<rparr>)" for c
    by (simp add: take_two freed_host_fields small_defs expand_pool_def bump_rmm_def upt_rec)
  note ev = later_host_def allocate_multiple_blocks_def n b d a t charge_def arena_of_def
  have "fst (allocate_multiple_blocks bump_rmm 32 None freed_host)
      = Inr (Some \<lparr>alloc_blocks = [0, 112], alloc_has_mr = True, alloc_block_size = 16, alloc_arena = None\<rparr>)"
    by (simp add: ev)
  then show ?run by (simp add: later_host_def prod_eq_iff)
  show "free_blocks later_host = [64, 80, 96]" by (simp add: ev)
qed

theorem freed_blocks_are_never_reused_witness:
  "free_blocks later_host = [64, 80, 96]
   \<and> set (alloc_blocks busy_allocation) \<inter> set (free_blocks later_host @ [0, 112]) = {}
   \<and> set (allocated_blocks busy_host) \<subseteq> set (allocated_blocks later_host)"
proof -
  let ?al = "\<lparr>alloc_blocks = [0, 112], alloc_has_mr = True, alloc_block_size = 16, alloc_arena = None\<rparr>"
  have "host_step bump_rmm False (freed_host, []) (later_host, [] @ handed_out (Inr (Some ?al)))"
    by (rule host_step.allocate [OF _ freed_host_allocates]) simp_all
  then have run: "(host_step bump_rmm False)\<^sup>*\<^sup>*
      (destroy_allocation busy_allocation busy_host, remove1 busy_allocation [busy_allocation]) (later_host, [?al])"
    by (auto simp: freed_host_def handed_out_def)
  have sane: "sane_pool small_host" by (simp add: sane_pool_def small_defs)
  have sep: "separate (unat (host_block_size small_host)) (bump_owned (upstream small_host)) (free_blocks small_host)"
    by (simp add: separate_def small_defs)
  note later_free
  moreover have "live_blocks [?al] = [0, 112]" by (simp add: live_blocks_def)
  ultimately show ?thesis
    using freed_blocks_are_never_reused [OF bump_fresh sane sep busy_host_reachable _ run] by simp
qed

end
