(* ===== verification/Notification.thy ===== *)
theory Notification
  imports Prelude
begin

text \<open>
  \<open>notification_channel\<close>, \<open>event_notifier\<close> and \<open>notify_on_exit\<close>
  (\<open>include/memory/notification_channel.hpp\<close>, \<open>src/memory/notification_channel.cpp\<close>).

  Each method body runs under the channel's mutex and is one step. \<open>wait\<close> is split at its condition
  variable: \<open>wait_check\<close> is one evaluation of the predicate, which either lets \<open>wait\<close> return a status
  or puts the thread to sleep (\<open>None\<close>). An operation also says whom it wakes.
\<close>

section \<open>The channel\<close>

datatype wait_status = IDLE | NOTIFIED | SHUTDOWN

datatype wake = No_wake | Notify_one | Notify_all

record notification_channel =
  has_been_notified :: bool
  n_active_notifiers :: u64
  is_running :: bool

definition new_channel :: notification_channel where
  "new_channel = \<lparr>has_been_notified = False, n_active_notifiers = 0, is_running = True\<rparr>"

definition wait_check :: "notification_channel \<Rightarrow> wait_status option \<times> notification_channel" where
  "wait_check c =
     (let notified = has_been_notified c;
          c' = c\<lparr>has_been_notified := False\<rparr>
      in if notified \<or> n_active_notifiers c = 0 \<or> \<not> is_running c
         then (Some (if \<not> is_running c then SHUTDOWN else if notified then NOTIFIED else IDLE), c')
         else (None, c'))"

definition get_notifier :: "notification_channel \<Rightarrow> notification_channel" where
  "get_notifier c = c"

definition shutdown :: "notification_channel \<Rightarrow> wake \<times> notification_channel" where
  "shutdown c = (Notify_one, c\<lparr>is_running := False\<rparr>)"

definition notify :: "notification_channel \<Rightarrow> wake \<times> notification_channel" where
  "notify c = (Notify_one, c\<lparr>has_been_notified := True\<rparr>)"

definition release_notifier :: "notification_channel \<Rightarrow> wake \<times> notification_channel" where
  "release_notifier c =
     (let n = n_active_notifiers c - 1
      in (if n = 0 then Notify_all else No_wake, c\<lparr>n_active_notifiers := n\<rparr>))"

text \<open>
  The end of a reservation: \<open>~notify_on_exit\<close> posts through the notifier it holds, then its member
  is destroyed. Without a notifier nothing happens.
\<close>

definition notify_on_exit :: "bool \<Rightarrow> notification_channel \<Rightarrow> notification_channel" where
  "notify_on_exit has_notifier c =
     (if has_notifier then snd (release_notifier (snd (notify c))) else c)"

section \<open>Threads asleep on the channel\<close>

text \<open>How many of \<open>n\<close> threads that sleep in \<open>wait\<close> are still asleep after a wake-up call.\<close>

fun asleep_after :: "wake \<Rightarrow> nat \<Rightarrow> nat" where
  "asleep_after No_wake n = n"
| "asleep_after Notify_one n = n - 1"
| "asleep_after Notify_all n = 0"

section \<open>Histories of a channel\<close>

datatype channel_event = Get_notifier | Post | Drop_notifier | Wait_check | Shut_down

fun channel_after :: "channel_event \<Rightarrow> notification_channel \<Rightarrow> notification_channel" where
  "channel_after Get_notifier c = get_notifier c"
| "channel_after Post c = snd (notify c)"
| "channel_after Drop_notifier c = snd (release_notifier c)"
| "channel_after Wait_check c = snd (wait_check c)"
| "channel_after Shut_down c = snd (shutdown c)"

definition channel_history :: "channel_event list \<Rightarrow> notification_channel" where
  "channel_history es = fold channel_after es new_channel"

text \<open>A post that no later evaluation of the predicate has taken.\<close>

fun pending_post :: "channel_event list \<Rightarrow> bool" where
  "pending_post [] = False"
| "pending_post (e # es) =
     (if e = Post \<and> Wait_check \<notin> set es then True else pending_post es)"

lemma channel_history_snoc: "channel_history (es @ [e]) = channel_after e (channel_history es)"
  by (simp add: channel_history_def)

lemma pending_post_snoc:
  "pending_post (es @ [e]) \<longleftrightarrow> e = Post \<or> e \<noteq> Wait_check \<and> pending_post es"
  by (induction es) auto

lemma history_flags:
  "has_been_notified (channel_history es) = pending_post es"
  "is_running (channel_history es) = (Shut_down \<notin> set es)"
  "n_active_notifiers (channel_history es) = - of_nat (count_list es Drop_notifier)"
proof (induction es rule: rev_induct)
  case Nil
  { case 1 show ?case by (simp add: channel_history_def new_channel_def) }
  { case 2 show ?case by (simp add: channel_history_def new_channel_def) }
  { case 3 show ?case by (simp add: channel_history_def new_channel_def) }
next
  case (snoc e es)
  { case 1 show ?case using snoc
      by (cases e) (auto simp: channel_history_snoc pending_post_snoc get_notifier_def notify_def
          release_notifier_def wait_check_def shutdown_def Let_def) }
  { case 2 show ?case using snoc
      by (cases e) (auto simp: channel_history_snoc get_notifier_def notify_def
          release_notifier_def wait_check_def shutdown_def Let_def) }
  { case 3 show ?case using snoc
      by (cases e) (auto simp: channel_history_snoc get_notifier_def notify_def
          release_notifier_def wait_check_def shutdown_def Let_def) }
qed

text \<open>
  A notification is not lost: whatever happened before, if something was posted and
  not yet consumed, the next evaluation of the predicate of \<open>wait\<close> lets it return at once, with
  \<open>NOTIFIED\<close> while the channel is running, and consumes the post.
\<close>

theorem post_is_not_lost:
  assumes "pending_post es"
  shows "fst (wait_check (channel_history es)) = Some (if Shut_down \<in> set es then SHUTDOWN else NOTIFIED)
    \<and> \<not> has_been_notified (snd (wait_check (channel_history es)))"
  using assms by (simp add: wait_check_def Let_def history_flags)

theorem post_is_not_lost_witness:
  "pending_post [Get_notifier, Post, Drop_notifier]
   \<and> fst (wait_check (channel_history [Get_notifier, Post, Drop_notifier])) = Some NOTIFIED"
  using post_is_not_lost [of "[Get_notifier, Post, Drop_notifier]"] by simp

text \<open>
  \<open>wait\<close> does not see live notifiers. \<open>get_notifier\<close> never counts the notifier it
  hands out, while every destroyed notifier is subtracted: on a running channel with no pending
  post, \<open>wait\<close> reports \<open>IDLE\<close> exactly when no notifier has been destroyed (up to a multiple of
  \<open>2 ^ 64\<close>), however many are alive, and goes to sleep otherwise, even when none is alive any more.
\<close>

theorem wait_ignores_live_notifiers:
  assumes "\<not> pending_post es" and "Shut_down \<notin> set es"
  shows "fst (wait_check (channel_history es))
    = (if count_list es Drop_notifier mod 2 ^ 64 = 0 then Some IDLE else None)"
proof -
  have "(- of_nat (count_list es Drop_notifier) :: u64) = 0
      \<longleftrightarrow> count_list es Drop_notifier mod 2 ^ 64 = 0"
    by (simp add: word_of_nat_eq_0_iff dvd_eq_mod_eq_0)
  with assms show ?thesis by (simp add: wait_check_def Let_def history_flags)
qed

theorem wait_ignores_live_notifiers_witness:
  "fst (wait_check (channel_history [Get_notifier])) = Some IDLE
   \<and> fst (wait_check (channel_history [Get_notifier, Drop_notifier])) = None"
  using wait_ignores_live_notifiers [of "[Get_notifier]"]
    wait_ignores_live_notifiers [of "[Get_notifier, Drop_notifier]"]
  by simp

text \<open>
  \<open>shutdown\<close> wakes one sleeper only. All others find the channel stopped if they ever evaluate the
  predicate again, but nothing makes them.
\<close>

lemma shutdown_leaves_sleepers:
  assumes "2 \<le> n"
  shows "0 < asleep_after (fst (shutdown c)) n" and "fst (wait_check (snd (shutdown c))) = Some SHUTDOWN"
  using assms by (simp_all add: shutdown_def wait_check_def Let_def)

end
