(* ===== verification/Disk_Limiter.thy ===== *)
theory Disk_Limiter
  imports Atomics Memory_Common Reserving
begin

text \<open>
  \<open>disk_access_limiter\<close> (\<open>include/memory/disk_access_limiter.hpp\<close>,
  \<open>src/memory/disk_access_limiter.cpp\<close>). The arena objects that are alive are part of the state, by
  address, with their \<open>_size\<close> and base name. \<open>grow_by\<close> and \<open>shrink_to_fit\<close> of the arena do nothing;
  the limiter has methods of its own for growing and shrinking.
\<close>

record disk_reserved_arena =
  disk_arena_size :: int
  base_name :: string

record disk_access_limiter =
  disk_space_id :: memory_space_id
  disk_memory_limit :: u64
  disk_capacity :: u64
  disk_allocated_bytes :: u64
  disk_peak_bytes :: u64
  disk_reservation_count :: u64
  mounting_path :: string
  disk_arenas :: "(nat \<times> disk_reserved_arena) list"

definition new_disk_limiter :: "memory_space_id \<Rightarrow> u64 \<Rightarrow> u64 \<Rightarrow> string \<Rightarrow> disk_access_limiter" where
  "new_disk_limiter i memory_limit capacity mount_path =
     \<lparr>disk_space_id = i, disk_memory_limit = memory_limit, disk_capacity = capacity,
      disk_allocated_bytes = 0, disk_peak_bytes = 0, disk_reservation_count = 0,
      mounting_path = mount_path, disk_arenas = []\<rparr>"

definition disk_available_memory :: "disk_access_limiter \<Rightarrow> u64" where
  "disk_available_memory d =
     (if disk_allocated_bytes d \<le> disk_capacity d
      then disk_capacity d - disk_allocated_bytes d else 0)"

definition disk_total_reserved_bytes :: "disk_access_limiter \<Rightarrow> u64" where
  "disk_total_reserved_bytes d = disk_allocated_bytes d"

definition disk_do_reserve :: "u64 \<Rightarrow> u64 \<Rightarrow> disk_access_limiter \<Rightarrow> bool \<times> disk_access_limiter" where
  "disk_do_reserve size_bytes limit_bytes d =
     (case try_add (disk_allocated_bytes d) size_bytes limit_bytes of
        (ok, post) \<Rightarrow>
          (ok, if ok then d\<lparr>disk_allocated_bytes := post,
                            disk_peak_bytes := update_peak (disk_peak_bytes d) post\<rparr>
               else d))"

definition disk_do_reserve_upto :: "u64 \<Rightarrow> u64 \<Rightarrow> disk_access_limiter \<Rightarrow> u64 \<times> disk_access_limiter" where
  "disk_do_reserve_upto size_bytes limit_bytes d =
     (case add_bounded (disk_allocated_bytes d) size_bytes limit_bytes of
        (size_bytes, post) \<Rightarrow>
          (size_bytes,
           d\<lparr>disk_allocated_bytes := post,
             disk_peak_bytes := (if size_bytes > 0 then update_peak (disk_peak_bytes d) post
                                 else disk_peak_bytes d)\<rparr>))"

definition new_disk_arena :: "nat \<Rightarrow> u64 \<Rightarrow> disk_access_limiter \<Rightarrow> disk_access_limiter" where
  "new_disk_arena a bytes d =
     d\<lparr>disk_arenas := alist_set a \<lparr>disk_arena_size = to_i64 bytes, base_name = mounting_path d\<rparr>
                        (disk_arenas d),
       disk_reservation_count := add (disk_reservation_count d) 1\<rparr>"

definition disk_reserve ::
  "nat \<Rightarrow> u64 \<Rightarrow> disk_access_limiter \<Rightarrow> nat option \<times> disk_access_limiter" where
  "disk_reserve a bytes d =
     (case disk_do_reserve bytes (disk_memory_limit d) d of
        (True, d') \<Rightarrow> (Some a, new_disk_arena a bytes d')
      | (False, d') \<Rightarrow> (None, d'))"

definition disk_reserve_upto ::
  "nat \<Rightarrow> u64 \<Rightarrow> disk_access_limiter \<Rightarrow> nat option \<times> disk_access_limiter" where
  "disk_reserve_upto a bytes d =
     (case disk_do_reserve_upto bytes (disk_memory_limit d) d of
        (reserved, d') \<Rightarrow> (Some a, new_disk_arena a reserved d'))"

definition disk_grow_reservation_by ::
  "nat \<Rightarrow> u64 \<Rightarrow> disk_access_limiter \<Rightarrow> bool \<times> disk_access_limiter" where
  "disk_grow_reservation_by a bytes d =
     (case disk_do_reserve bytes (disk_memory_limit d) d of
        (True, d') \<Rightarrow>
          (True, (case map_of (disk_arenas d') a of
                    None \<Rightarrow> d'
                  | Some ar \<Rightarrow>
                      d'\<lparr>disk_arenas :=
                           alist_set a (ar\<lparr>disk_arena_size := disk_arena_size ar + to_i64 bytes\<rparr>)
                             (disk_arenas d')\<rparr>))
      | (False, d') \<Rightarrow> (False, d'))"

definition size_to_release :: "disk_reserved_arena \<Rightarrow> u64" where
  "size_to_release ar = to_u64 (max 0 (disk_arena_size ar))"

definition disk_shrink_reservation_to_fit :: "nat \<Rightarrow> disk_access_limiter \<Rightarrow> disk_access_limiter" where
  "disk_shrink_reservation_to_fit a d =
     (case map_of (disk_arenas d) a of
        None \<Rightarrow> d
      | Some ar \<Rightarrow>
          d\<lparr>disk_allocated_bytes := sub (disk_allocated_bytes d) (size_to_release ar),
            disk_arenas := alist_set a (ar\<lparr>disk_arena_size := 0\<rparr>) (disk_arenas d)\<rparr>)"

definition disk_arena_grow_by :: "nat \<Rightarrow> u64 \<Rightarrow> disk_access_limiter \<Rightarrow> bool \<times> disk_access_limiter" where
  "disk_arena_grow_by a bytes d = (False, d)"

definition disk_arena_shrink_to_fit :: "nat \<Rightarrow> disk_access_limiter \<Rightarrow> disk_access_limiter" where
  "disk_arena_shrink_to_fit a d = d"

text \<open>\<open>~disk_reserved_arena\<close>: the arena gives its size back and ceases to exist.\<close>

definition disk_release_reservation :: "nat \<Rightarrow> disk_access_limiter \<Rightarrow> disk_access_limiter" where
  "disk_release_reservation a d =
     (case map_of (disk_arenas d) a of
        None \<Rightarrow> d
      | Some ar \<Rightarrow>
          d\<lparr>disk_allocated_bytes := sub (disk_allocated_bytes d) (size_to_release ar),
            disk_reservation_count := sub (disk_reservation_count d) 1,
            disk_arenas := alist_erase a (disk_arenas d)\<rparr>)"

section \<open>The reservation contract\<close>

interpretation disk: reserving disk_allocated_bytes disk_memory_limit "\<lambda>b d. b" disk_reserve disk_reserve_upto
proof
  fix d :: disk_access_limiter and b :: u64 and a :: nat
  note adds = try_add_u64 [of "disk_allocated_bytes d" b "disk_memory_limit d"]
  show "\<exists>d'. disk_reserve a b d = (Some a, d') \<and> disk_memory_limit d' = disk_memory_limit d
      \<and> unat (disk_allocated_bytes d') = unat (disk_allocated_bytes d) + unat b"
    if "unat (disk_allocated_bytes d) + unat b \<le> unat (disk_memory_limit d)"
    using that adds(1,2)
    by (auto simp: disk_reserve_def disk_do_reserve_def new_disk_arena_def split: prod.splits)
  show "disk_reserve a b d = (None, d)"
    if "unat (disk_memory_limit d) < unat (disk_allocated_bytes d) + unat b"
    using that adds(1) by (auto simp: disk_reserve_def disk_do_reserve_def split: prod.splits bool.splits)
  show "\<exists>d'. disk_reserve_upto a b d = (Some a, d') \<and> disk_memory_limit d' = disk_memory_limit d
      \<and> unat (disk_allocated_bytes d') = unat (disk_allocated_bytes d)
          + min (unat b) (unat (disk_memory_limit d) - unat (disk_allocated_bytes d))"
    using add_bounded_u64 [of "disk_allocated_bytes d" b "disk_memory_limit d"]
    by (auto simp: disk_reserve_upto_def disk_do_reserve_upto_def new_disk_arena_def split: prod.splits)
qed

section \<open>Accounting\<close>

definition disk_arena_bytes :: "disk_reserved_arena \<Rightarrow> nat" where
  "disk_arena_bytes ar = nat (disk_arena_size ar)"

definition disk_inv :: "disk_access_limiter \<Rightarrow> bool" where
  "disk_inv d \<longleftrightarrow>
     disk_memory_limit d \<le> disk_capacity d \<and> unat (disk_memory_limit d) < 2 ^ 63
     \<and> distinct (map fst (disk_arenas d))
     \<and> (\<forall>a ar. map_of (disk_arenas d) a = Some ar \<longrightarrow> 0 \<le> disk_arena_size ar)
     \<and> unat (disk_allocated_bytes d) = alist_sum disk_arena_bytes (disk_arenas d)
     \<and> disk_reservation_count d = of_nat (length (disk_arenas d))
     \<and> disk_allocated_bytes d \<le> disk_memory_limit d"

inductive disk_step :: "disk_access_limiter \<Rightarrow> disk_access_limiter \<Rightarrow> bool" where
  reserve: "map_of (disk_arenas d) a = None \<Longrightarrow> disk_step d (snd (disk_reserve a bytes d))"
| reserve_upto: "map_of (disk_arenas d) a = None \<Longrightarrow> disk_step d (snd (disk_reserve_upto a bytes d))"
| grow: "map_of (disk_arenas d) a = Some ar \<Longrightarrow> disk_step d (snd (disk_grow_reservation_by a bytes d))"
| shrink: "disk_step d (disk_shrink_reservation_to_fit a d)"
| arena_grow: "disk_step d (snd (disk_arena_grow_by a bytes d))"
| arena_shrink: "disk_step d (disk_arena_shrink_to_fit a d)"
| release: "disk_step d (disk_release_reservation a d)"

lemma new_disk_arena_inv:
  assumes inv: "disk_inv d" and new: "map_of (disk_arenas d) a = None"
    and d': "disk_memory_limit d' = disk_memory_limit d" "disk_capacity d' = disk_capacity d"
      "disk_arenas d' = disk_arenas d" "disk_reservation_count d' = disk_reservation_count d"
    and total: "unat (disk_allocated_bytes d') = unat (disk_allocated_bytes d) + unat b"
    and le: "disk_allocated_bytes d' \<le> disk_memory_limit d"
  shows "disk_inv (new_disk_arena a b d')"
proof -
  have "unat b < 2 ^ 63"
    using inv total le by (auto simp: disk_inv_def word_le_nat_alt)
  then have i: "to_i64 b = int (unat b)" by (simp add: to_i64_small)
  show ?thesis
    using inv new total le
    by (auto simp: disk_inv_def new_disk_arena_def d' i distinct_alist_set alist_sum_new
        disk_arena_bytes_def length_alist_set_new add_def simp del: of_nat_unat)
qed

lemma disk_reserve_inv:
  assumes "disk_inv d" and "map_of (disk_arenas d) a = None"
  shows "disk_inv (snd (disk_reserve a b d))"
proof (cases "fst (try_add (disk_allocated_bytes d) b (disk_memory_limit d))")
  case True
  have "disk_inv (new_disk_arena a b (snd (disk_do_reserve b (disk_memory_limit d) d)))"
    using True try_add_u64(2) [OF True] try_add_bound [OF True] assms
    by (intro new_disk_arena_inv [OF assms]) (auto simp: disk_do_reserve_def split: prod.splits)
  with True show ?thesis by (auto simp: disk_reserve_def disk_do_reserve_def split: prod.splits)
next
  case False
  with assms show ?thesis by (auto simp: disk_reserve_def disk_do_reserve_def split: prod.splits)
qed

lemma disk_reserve_upto_inv:
  assumes "disk_inv d" and "map_of (disk_arenas d) a = None"
  shows "disk_inv (snd (disk_reserve_upto a b d))"
proof -
  let ?g = "fst (disk_do_reserve_upto b (disk_memory_limit d) d)"
  have "disk_inv (new_disk_arena a ?g (snd (disk_do_reserve_upto b (disk_memory_limit d) d)))"
    using add_bounded_u64 [of "disk_allocated_bytes d" b "disk_memory_limit d"] assms
    by (intro new_disk_arena_inv [OF assms])
       (auto simp: disk_do_reserve_upto_def disk_inv_def word_le_nat_alt split: prod.splits)
  then show ?thesis by (auto simp: disk_reserve_upto_def split: prod.splits)
qed

lemma disk_grow_inv:
  assumes inv: "disk_inv d" and a: "map_of (disk_arenas d) a = Some ar"
  shows "disk_inv (snd (disk_grow_reservation_by a b d))"
proof (cases "fst (try_add (disk_allocated_bytes d) b (disk_memory_limit d))")
  case True
  note got = try_add_u64(2) [OF True] try_add_bound [OF True]
  have small: "unat b < 2 ^ 63"
    using got inv by (auto simp: disk_inv_def word_le_nat_alt)
  define k where "k = unat b"
  have i: "to_i64 b = int k" using small unfolding k_def by (rule to_i64_small)
  have nonneg: "0 \<le> disk_arena_size ar" using inv a by (auto simp: disk_inv_def)
  let ?ar = "ar\<lparr>disk_arena_size := disk_arena_size ar + int k\<rparr>"
  have "alist_sum disk_arena_bytes (alist_set a ?ar (disk_arenas d))
      = alist_sum disk_arena_bytes (disk_arenas d) + k"
    using alist_sum_set [OF a, of disk_arena_bytes ?ar] nonneg
    by (simp add: disk_arena_bytes_def nat_add_distrib)
  then show ?thesis
    using inv True got a nonneg i length_alist_set_old [OF a] unfolding k_def [symmetric]
    by (auto simp: disk_grow_reservation_by_def disk_do_reserve_def disk_inv_def distinct_alist_set
        simp del: map_of_eq_Some_iff split: prod.splits)
next
  case False
  with inv show ?thesis by (auto simp: disk_grow_reservation_by_def disk_do_reserve_def split: prod.splits)
qed

lemma disk_give_back:
  assumes inv: "disk_inv d" and a: "map_of (disk_arenas d) a = Some ar"
  shows "unat (sub (disk_allocated_bytes d) (size_to_release ar)) + disk_arena_bytes ar
       = unat (disk_allocated_bytes d)"
    and "sub (disk_allocated_bytes d) (size_to_release ar) \<le> disk_allocated_bytes d"
proof -
  have nonneg: "0 \<le> disk_arena_size ar" using inv a by (auto simp: disk_inv_def)
  have le: "disk_arena_bytes ar \<le> unat (disk_allocated_bytes d)"
    using alist_sum_ge [OF a, of disk_arena_bytes] inv by (simp add: disk_inv_def)
  have lt: "disk_arena_size ar < 2 ^ 64"
    using le nonneg unat_u64_less [of "disk_allocated_bytes d"] by (simp add: disk_arena_bytes_def)
  have sz: "unat (size_to_release ar) = disk_arena_bytes ar"
    using nonneg lt by (simp add: size_to_release_def disk_arena_bytes_def unat_to_u64)
  show "unat (sub (disk_allocated_bytes d) (size_to_release ar)) + disk_arena_bytes ar
      = unat (disk_allocated_bytes d)"
    and "sub (disk_allocated_bytes d) (size_to_release ar) \<le> disk_allocated_bytes d"
    using sz le by (simp_all add: sub_def unat_sub_exact word_le_nat_alt)
qed

lemma disk_release_inv:
  assumes inv: "disk_inv d" shows "disk_inv (disk_release_reservation a d)"
proof (cases "map_of (disk_arenas d) a")
  case (Some ar)
  have dis: "distinct (map fst (disk_arenas d))" using inv by (simp add: disk_inv_def)
  have "of_nat (length (disk_arenas d)) = (of_nat (length (alist_erase a (disk_arenas d))) + 1 :: u64)"
    using length_alist_erase [OF dis Some] by (metis of_nat_Suc add.commute)
  then show ?thesis
    using inv Some disk_give_back [OF inv Some] alist_sum_erase [OF dis Some, of disk_arena_bytes]
    by (auto simp: disk_release_reservation_def disk_inv_def distinct_alist_erase sub_def
        split: if_splits)
qed (use inv in \<open>simp add: disk_release_reservation_def\<close>)

lemma disk_shrink_inv:
  assumes inv: "disk_inv d" shows "disk_inv (disk_shrink_reservation_to_fit a d)"
proof (cases "map_of (disk_arenas d) a")
  case (Some ar)
  let ?ar = "ar\<lparr>disk_arena_size := 0\<rparr>"
  have "alist_sum disk_arena_bytes (alist_set a ?ar (disk_arenas d)) + disk_arena_bytes ar
      = alist_sum disk_arena_bytes (disk_arenas d)"
    using alist_sum_set [OF Some, of disk_arena_bytes ?ar] by (simp add: disk_arena_bytes_def)
  then show ?thesis
    using inv Some disk_give_back [OF inv Some] length_alist_set_old [OF Some]
    by (auto simp: disk_shrink_reservation_to_fit_def disk_inv_def distinct_alist_set)
qed (use inv in \<open>simp add: disk_shrink_reservation_to_fit_def\<close>)

lemma disk_step_inv: "disk_step d d' \<Longrightarrow> disk_inv d \<Longrightarrow> disk_inv d'"
  by (induction rule: disk_step.induct)
     (auto simp: disk_arena_grow_by_def disk_arena_shrink_to_fit_def
       intro: disk_reserve_inv disk_reserve_upto_inv disk_grow_inv disk_shrink_inv disk_release_inv)

section \<open>The books of the holders\<close>

definition disk_bytes_of :: "disk_access_limiter \<Rightarrow> nat \<Rightarrow> nat option" where
  "disk_bytes_of d a = map_option disk_arena_bytes (map_of (disk_arenas d) a)"

lemma disk_registered:
  assumes inv: "disk_inv (new_disk_arena a b d')" and "disk_arenas d' = disk_arenas d"
    and bytes: "unat (disk_allocated_bytes d') = unat (disk_allocated_bytes d) + unat b"
    and s': "s' = new_disk_arena a b d'"
  shows "disk_inv s' \<and>
    disk_bytes_of s' = (disk_bytes_of d)(a \<mapsto> unat (disk_allocated_bytes s') - unat (disk_allocated_bytes d))"
proof -
  have "disk_allocated_bytes d' \<le> disk_memory_limit d'" "unat (disk_memory_limit d') < 2 ^ 63"
    using inv by (simp_all add: disk_inv_def new_disk_arena_def)
  then have "unat b < 2 ^ 63" using bytes by (auto simp: word_le_nat_alt)
  then have "to_i64 b = int (unat b)" by (rule to_i64_small)
  then show ?thesis
    using inv assms(2) bytes
    by (auto simp: s' disk_bytes_of_def new_disk_arena_def disk_arena_bytes_def fun_eq_iff simp del: of_nat_unat)
qed

interpretation disk_books: releasing disk_allocated_bytes disk_memory_limit "\<lambda>b d. b" disk_reserve
  disk_reserve_upto disk_inv disk_bytes_of disk_release_reservation
proof
  fix d d' :: disk_access_limiter and a n :: nat and b :: u64
  show "unat (disk_allocated_bytes d) \<le> unat (disk_memory_limit d)" if "disk_inv d"
    using that by (simp add: disk_inv_def word_le_nat_alt)
  show "disk_inv d' \<and> disk_bytes_of d' = (disk_bytes_of d)(a \<mapsto>
      unat (disk_allocated_bytes d') - unat (disk_allocated_bytes d))"
    if inv: "disk_inv d" and new: "disk_bytes_of d a = None" and run: "disk_reserve a b d = (Some a, d')"
  proof -
    obtain d1 where d1: "disk_do_reserve b (disk_memory_limit d) d = (True, d1)" and d': "d' = new_disk_arena a b d1"
      using run by (auto simp: disk_reserve_def split: prod.splits bool.splits)
    have "disk_inv (new_disk_arena a b d1)"
      using disk_reserve_inv [of d a b] inv new run d' by (simp add: disk_bytes_of_def)
    moreover have "disk_arenas d1 = disk_arenas d"
      "unat (disk_allocated_bytes d1) = unat (disk_allocated_bytes d) + unat b"
      using d1 try_add_u64 [of "disk_allocated_bytes d" b "disk_memory_limit d"]
      by (auto simp: disk_do_reserve_def split: prod.splits)
    ultimately show ?thesis using d' by (rule disk_registered)
  qed
  show "disk_inv d' \<and> disk_bytes_of d' = (disk_bytes_of d)(a \<mapsto>
      unat (disk_allocated_bytes d') - unat (disk_allocated_bytes d))"
    if inv: "disk_inv d" and new: "disk_bytes_of d a = None" and run: "disk_reserve_upto a b d = (Some a, d')"
  proof -
    obtain g d1 where d1: "disk_do_reserve_upto b (disk_memory_limit d) d = (g, d1)" and d': "d' = new_disk_arena a g d1"
      using run by (auto simp: disk_reserve_upto_def split: prod.splits)
    have "disk_inv (new_disk_arena a g d1)"
      using disk_reserve_upto_inv [of d a b] inv new run d' by (simp add: disk_bytes_of_def)
    moreover have "disk_arenas d1 = disk_arenas d"
      "unat (disk_allocated_bytes d1) = unat (disk_allocated_bytes d) + unat g"
      using d1 add_bounded_u64 [of "disk_allocated_bytes d" b "disk_memory_limit d"]
      by (auto simp: disk_do_reserve_upto_def split: prod.splits)
    ultimately show ?thesis using d' by (rule disk_registered)
  qed
  show "disk_inv (disk_release_reservation a d)
      \<and> unat (disk_allocated_bytes (disk_release_reservation a d)) + n = unat (disk_allocated_bytes d)
      \<and> disk_memory_limit (disk_release_reservation a d) = disk_memory_limit d
      \<and> disk_bytes_of (disk_release_reservation a d) = (disk_bytes_of d)(a := None)"
    if inv: "disk_inv d" and a: "disk_bytes_of d a = Some n"
  proof -
    obtain ar where "map_of (disk_arenas d) a = Some ar" "n = disk_arena_bytes ar"
      using a by (auto simp: disk_bytes_of_def)
    with disk_release_inv [OF inv, of a] disk_give_back(1) [OF inv, of a ar] show ?thesis
      by (auto simp: disk_release_reservation_def disk_bytes_of_def fun_eq_iff)
  qed
qed

text \<open>
  Property C32. The disk limiter's books are exact: after any sequence of reserving, growing,
  shrinking and releasing, the bytes it has given out are the sizes of the live arenas, within the
  limit, the reservation count is their number, and available memory is the rest of the capacity.
\<close>

theorem disk_accounting_exact:
  assumes "disk_step\<^sup>*\<^sup>* (new_disk_limiter i memory_limit capacity path) d"
    and "memory_limit \<le> capacity" and "unat memory_limit < 2 ^ 63"
  shows "unat (disk_allocated_bytes d) = alist_sum disk_arena_bytes (disk_arenas d)
    \<and> disk_allocated_bytes d \<le> disk_memory_limit d
    \<and> disk_reservation_count d = of_nat (length (disk_arenas d))
    \<and> unat (disk_available_memory d) + unat (disk_allocated_bytes d) = unat (disk_capacity d)"
proof -
  have "disk_inv d"
    using assms(1)
  proof (induction rule: rtranclp_induct)
    case base
    show ?case using assms(2,3) by (simp add: disk_inv_def new_disk_limiter_def)
  next
    case (step d d')
    then show ?case using disk_step_inv by blast
  qed
  then have "unat (disk_allocated_bytes d) \<le> unat (disk_capacity d)"
    and inv: "disk_inv d"
    by (auto simp: disk_inv_def word_le_nat_alt)
  then show ?thesis
    by (auto simp: disk_inv_def disk_available_memory_def unat_sub_exact word_le_nat_alt)
qed

definition small_disk :: disk_access_limiter where
  "small_disk = new_disk_limiter (memory_space_id DISK 0) 100 100 ''/mnt''"

theorem disk_accounting_exact_witness:
  "let d = snd (disk_reserve_upto 2 90 (snd (disk_reserve 1 30 small_disk)))
   in unat (disk_allocated_bytes d) = alist_sum disk_arena_bytes (disk_arenas d)
      \<and> disk_allocated_bytes d \<le> disk_memory_limit d
      \<and> disk_reservation_count d = of_nat (length (disk_arenas d))
      \<and> unat (disk_available_memory d) + unat (disk_allocated_bytes d) = unat (disk_capacity d)"
proof -
  have s1: "disk_step small_disk (snd (disk_reserve 1 30 small_disk))"
    by (rule disk_step.reserve) (simp add: small_disk_def new_disk_limiter_def)
  have s2: "disk_step (snd (disk_reserve 1 30 small_disk))
      (snd (disk_reserve_upto 2 90 (snd (disk_reserve 1 30 small_disk))))"
    by (rule disk_step.reserve_upto)
       (simp add: small_disk_def new_disk_limiter_def disk_reserve_def disk_do_reserve_def
         new_disk_arena_def try_add_def)
  have "disk_step\<^sup>*\<^sup>* small_disk (snd (disk_reserve_upto 2 90 (snd (disk_reserve 1 30 small_disk))))"
    using s1 s2 by (meson converse_rtranclp_into_rtranclp rtranclp.rtrancl_refl)
  from disk_accounting_exact [OF this [unfolded small_disk_def]] show ?thesis
    unfolding small_disk_def Let_def by simp
qed

end
