(* ===== verification/Double.thy ===== *)
theory Double
  imports Prelude
begin

text \<open>
  The \<open>double\<close> arithmetic that the program uses on byte counts: \<open>static_cast<double>\<close> of a
  \<open>size_t\<close>, multiplication by a fraction or a padding factor, division, comparison, and the cast
  back, which truncates. A value is \<open>mant * 2 ^ expo\<close>; every result is rounded to 53 bits, to
  nearest with ties to even, as IEEE 754 prescribes. Only finite non-negative values occur, and
  none of a magnitude where the exponent range of the format would matter.
\<close>

datatype dbl = Dbl (mant: nat) (expo: int)

fun bitlen :: "nat \<Rightarrow> nat" where
  "bitlen n = (if n = 0 then 0 else Suc (bitlen (n div 2)))"

declare bitlen.simps [simp del]

text \<open>The bits that do not fit, and the mantissa rounded without them.\<close>

definition excess :: "nat \<Rightarrow> nat" where
  "excess n = bitlen n - 53"

definition rounded_mant :: "nat \<Rightarrow> nat" where
  "rounded_mant n =
     (let s = excess n; q = n div 2 ^ s; r = 2 * (n mod 2 ^ s)
      in if 2 ^ s < r \<or> 2 ^ s = r \<and> odd q then q + 1 else q)"

definition round_dbl :: "nat \<Rightarrow> int \<Rightarrow> dbl" where
  "round_dbl n e = Dbl (rounded_mant n) (e + int (excess n))"

definition dbl_of_u64 :: "u64 \<Rightarrow> dbl" where
  "dbl_of_u64 w = round_dbl (unat w) 0"

definition dbl_mult :: "dbl \<Rightarrow> dbl \<Rightarrow> dbl" where
  "dbl_mult x y = round_dbl (mant x * mant y) (expo x + expo y)"

text \<open>
  Division keeps 64 bits more than the divisor has and one sticky bit for the remainder, which is
  enough to round as if the quotient were exact.
\<close>

definition dbl_div :: "dbl \<Rightarrow> dbl \<Rightarrow> dbl" where
  "dbl_div x y =
     (let k = 64 + bitlen (mant y); n = mant x * 2 ^ k
      in round_dbl (2 * (n div mant y) + (if n mod mant y = 0 then 0 else 1))
           (expo x - expo y - int k - 1))"

definition dbl_trunc :: "dbl \<Rightarrow> nat" where
  "dbl_trunc x = (if 0 \<le> expo x then mant x * 2 ^ nat (expo x) else mant x div 2 ^ nat (- expo x))"

definition dbl_to_u64 :: "dbl \<Rightarrow> u64" where
  "dbl_to_u64 x = of_nat (dbl_trunc x)"

definition dbl_le :: "dbl \<Rightarrow> dbl \<Rightarrow> bool" where
  "dbl_le x y =
     (if expo x \<le> expo y then mant x \<le> mant y * 2 ^ nat (expo y - expo x)
      else mant x * 2 ^ nat (expo x - expo y) \<le> mant y)"

definition dbl_positive :: "dbl \<Rightarrow> bool" where
  "dbl_positive x = (0 < mant x)"

text \<open>\<open>static_cast<std::size_t>(static_cast<double>(bytes) * factor)\<close>\<close>

definition scale_bytes :: "u64 \<Rightarrow> dbl \<Rightarrow> u64" where
  "scale_bytes bytes factor = dbl_to_u64 (dbl_mult (dbl_of_u64 bytes) factor)"

section \<open>Rounding is monotone\<close>

lemma bitlen_bounds: "n < 2 ^ bitlen n" "0 < n \<Longrightarrow> 2 ^ (bitlen n - 1) \<le> n"
proof (induction n rule: bitlen.induct)
  case (1 n)
  { case 1 show ?case
      using "1.IH"(1) by (cases "n = 0") (auto simp: bitlen.simps [of n]) }
  { case 2
    show ?case
    proof (cases "n div 2 = 0")
      case True
      with 2 show ?thesis by (auto simp: bitlen.simps [of n] bitlen.simps [of 0])
    next
      case False
      with 2 "1.IH"(2) have "2 ^ (bitlen (n div 2) - 1) \<le> n div 2" by simp
      moreover have "0 < bitlen (n div 2)" using False by (simp add: bitlen.simps [of "n div 2"])
      ultimately show ?thesis using 2
        by (cases "bitlen (n div 2)") (auto simp: bitlen.simps [of n])
    qed }
qed

lemma bitlen_mono: "m \<le> n \<Longrightarrow> bitlen m \<le> bitlen n"
proof (cases "m = 0")
  case True then show ?thesis by (simp add: bitlen.simps [of 0])
next
  case False
  assume "m \<le> n"
  have "(2::nat) ^ (bitlen m - 1) \<le> m" using False bitlen_bounds(2) [of m] by simp
  also note \<open>m \<le> n\<close>
  also have "n < 2 ^ bitlen n" by (rule bitlen_bounds(1))
  finally have "bitlen m - 1 < bitlen n" by (rule power_less_imp_less_exp [rotated]) simp
  then show ?thesis by simp
qed

lemma bitlen_shift: "0 < n \<Longrightarrow> bitlen (n * 2 ^ k) = bitlen n + k"
proof (induction k)
  case (Suc k)
  have "bitlen (n * 2 ^ Suc k) = Suc (bitlen (n * 2 ^ Suc k div 2))"
    using Suc.prems by (subst bitlen.simps) simp
  also have "n * 2 ^ Suc k div 2 = n * 2 ^ k" by simp
  finally show ?case using Suc by simp
qed simp

definition rounded :: "nat \<Rightarrow> nat" where
  "rounded n = rounded_mant n * 2 ^ excess n"

lemma rounded_mant_small: "excess n = 0 \<Longrightarrow> rounded_mant n = n"
  by (simp add: rounded_mant_def)

lemma rounded_mant_bounds: "n div 2 ^ excess n \<le> rounded_mant n" "rounded_mant n \<le> n div 2 ^ excess n + 1"
  by (simp_all add: rounded_mant_def Let_def)

lemma rounded_upper: "rounded n \<le> 2 ^ bitlen n"
proof (cases "excess n = 0")
  case True
  then show ?thesis using bitlen_bounds(1) [of n] by (simp add: rounded_def rounded_mant_small)
next
  case False
  then have b: "bitlen n = 53 + excess n" by (simp add: excess_def)
  have "n div 2 ^ excess n < 2 ^ 53"
    using bitlen_bounds(1) [of n] by (simp add: b power_add less_mult_imp_div_less)
  then have "rounded_mant n \<le> 2 ^ 53" using rounded_mant_bounds(2) [of n] by simp
  then show ?thesis by (simp add: rounded_def b power_add)
qed

lemma rounded_lower: "0 < n \<Longrightarrow> 2 ^ (bitlen n - 1) \<le> rounded n"
proof (cases "excess n = 0")
  case True
  assume "0 < n"
  with True show ?thesis using bitlen_bounds(2) [of n] by (simp add: rounded_def rounded_mant_small)
next
  case False
  assume n: "0 < n"
  from False have b: "bitlen n - Suc 0 = 52 + excess n" by (simp add: excess_def)
  have "2 ^ 52 * 2 ^ excess n \<le> n" using bitlen_bounds(2) [OF n] by (simp add: b power_add)
  then have "2 ^ 52 \<le> n div 2 ^ excess n" by (simp add: less_eq_div_iff_mult_less_eq)
  then have "2 ^ 52 \<le> rounded_mant n" using rounded_mant_bounds(1) [of n] by linarith
  then show ?thesis by (simp add: rounded_def b power_add)
qed

lemma rounded_mant_mono:
  assumes "m \<le> n" and "excess m = excess n"
  shows "rounded_mant m \<le> rounded_mant n"
proof -
  let ?d = "2 ^ excess n :: nat"
  have q: "m div ?d \<le> n div ?d" using assms(1) by (rule div_le_mono)
  show ?thesis
  proof (cases "m div ?d = n div ?d")
    case True
    have "m mod ?d \<le> n mod ?d"
      using assms(1) True by (metis add_le_cancel_left div_mult_mod_eq)
    with True assms(2) show ?thesis by (auto simp: rounded_mant_def Let_def)
  next
    case False
    with q have "m div ?d + 1 \<le> n div ?d" by simp
    with assms(2) rounded_mant_bounds(2) [of m] rounded_mant_bounds(1) [of n] show ?thesis by simp
  qed
qed

lemma rounded_mono: "m \<le> n \<Longrightarrow> rounded m \<le> rounded n"
proof (cases "m = 0")
  case True
  then show ?thesis by (simp add: rounded_def rounded_mant_def excess_def bitlen.simps [of 0])
next
  case False
  assume le: "m \<le> n"
  show ?thesis
  proof (cases "excess m = excess n")
    case True
    with rounded_mant_mono [OF le True] show ?thesis by (simp add: rounded_def)
  next
    case False
    then have "bitlen m \<noteq> bitlen n" by (auto simp: excess_def)
    then have "bitlen m \<le> bitlen n - 1" using bitlen_mono [OF le] by linarith
    then have "(2::nat) ^ bitlen m \<le> 2 ^ (bitlen n - 1)" by simp
    moreover have "0 < n" using le \<open>m \<noteq> 0\<close> by simp
    ultimately show ?thesis
      using rounded_upper [of m] rounded_lower [of n] by linarith
  qed
qed

lemma rounded_shift: "rounded (n * 2 ^ k) = rounded n * 2 ^ k"
proof (cases "n = 0 \<or> excess (n * 2 ^ k) = 0")
  case True
  then show ?thesis
  proof
    assume "n = 0" then show ?thesis
      by (simp add: rounded_def rounded_mant_def excess_def bitlen.simps [of 0])
  next
    assume z: "excess (n * 2 ^ k) = 0"
    moreover have "excess n \<le> excess (n * 2 ^ k)"
      using bitlen_mono [of n "n * 2 ^ k"] by (simp add: excess_def)
    ultimately show ?thesis by (simp add: rounded_def rounded_mant_small)
  qed
next
  case False
  then have n: "0 < n" and big: "53 < bitlen n + k" using bitlen_shift [of n k] by (auto simp: excess_def)
  show ?thesis
  proof (cases "excess n = 0")
    case True
    let ?s = "excess (n * 2 ^ k)"
    have s: "?s = bitlen n + k - 53" using bitlen_shift [OF n] by (simp add: excess_def)
    then have "?s \<le> k" using True by (simp add: excess_def)
    then have "2 ^ ?s dvd n * 2 ^ k" by (simp add: le_imp_power_dvd)
    then have "rounded (n * 2 ^ k) = n * 2 ^ k" by (simp add: rounded_def rounded_mant_def Let_def)
    with True show ?thesis by (simp add: rounded_def rounded_mant_small)
  next
    case nz: False
    have s: "excess (n * 2 ^ k) = excess n + k"
      using nz bitlen_shift [OF n] by (simp add: excess_def)
    have d: "n * 2 ^ k div 2 ^ (excess n + k) = n div 2 ^ excess n"
      by (simp add: power_add div_mult2_eq mult.commute [of "2 ^ excess n"])
    have m: "n * 2 ^ k mod 2 ^ (excess n + k) = n mod 2 ^ excess n * 2 ^ k"
      by (simp add: power_add mult_mod_left)
    have "rounded_mant (n * 2 ^ k) = rounded_mant n"
      unfolding rounded_mant_def s d m Let_def by (simp add: power_add mult.assoc [symmetric])
    then show ?thesis by (simp add: rounded_def s power_add)
  qed
qed

lemma excess_small: "n < 2 ^ 53 \<Longrightarrow> excess n = 0"
proof (cases "n = 0")
  case False
  assume n: "n < 2 ^ 53"
  have "(2::nat) ^ (bitlen n - 1) \<le> n" using False bitlen_bounds(2) [of n] by blast
  also note n
  finally have "bitlen n - 1 < 53" by (rule power_less_imp_less_exp [rotated]) simp
  then show ?thesis by (simp add: excess_def)
qed (simp add: excess_def bitlen.simps [of 0])

lemma rounded_exact: "n < 2 ^ 53 \<Longrightarrow> rounded n = n"
  by (simp add: rounded_def rounded_mant_small excess_small)

section \<open>Truncating a rounded value\<close>

definition floor_scale :: "nat \<Rightarrow> int \<Rightarrow> nat" where
  "floor_scale v e = (if 0 \<le> e then v * 2 ^ nat e else v div 2 ^ nat (- e))"

lemma floor_scale_shift: "floor_scale (v * 2 ^ k) (e - int k) = floor_scale v e"
proof (cases "0 \<le> e - int k")
  case True
  then have "nat e = nat (e - int k) + k" by simp
  with True show ?thesis by (simp add: floor_scale_def power_add)
next
  case False
  show ?thesis
  proof (cases "0 \<le> e")
    case True
    then have k: "k = nat e + nat (int k - e)" using False by simp
    have "v * 2 ^ k div 2 ^ nat (int k - e) = v * 2 ^ nat e"
      by (subst k) (simp add: power_add mult.assoc [symmetric])
    with True False show ?thesis by (simp add: floor_scale_def)
  next
    case neg: False
    then have "nat (int k - e) = k + nat (- e)" using False by simp
    then have "v * 2 ^ k div 2 ^ nat (int k - e) = v div 2 ^ nat (- e)"
      by (simp add: power_add div_mult2_eq)
    with neg False show ?thesis by (simp add: floor_scale_def)
  qed
qed

lemma floor_scale_mono: "v \<le> w \<Longrightarrow> floor_scale v e \<le> floor_scale w e"
  by (auto simp: floor_scale_def intro: div_le_mono)

lemma dbl_trunc_floor_scale: "dbl_trunc x = floor_scale (mant x) (expo x)"
  by (simp add: dbl_trunc_def floor_scale_def)

lemma dbl_trunc_round: "dbl_trunc (round_dbl n e) = floor_scale (rounded n) e"
proof -
  have "floor_scale (rounded n) e = floor_scale (rounded_mant n * 2 ^ excess n) (e + int (excess n) - int (excess n))"
    by (simp add: rounded_def)
  also have "\<dots> = floor_scale (rounded_mant n) (e + int (excess n))" by (rule floor_scale_shift)
  finally show ?thesis by (simp add: dbl_trunc_floor_scale round_dbl_def)
qed

lemma dbl_trunc_round_shift: "dbl_trunc (round_dbl (n * 2 ^ k) (e - int k)) = dbl_trunc (round_dbl n e)"
  by (simp add: dbl_trunc_round rounded_shift floor_scale_shift)

lemma dbl_trunc_round_mono: "m \<le> n \<Longrightarrow> dbl_trunc (round_dbl m e) \<le> dbl_trunc (round_dbl n e)"
  by (simp add: dbl_trunc_round floor_scale_mono rounded_mono)

lemma dbl_trunc_mult_mono:
  assumes "dbl_le f g"
  shows "dbl_trunc (dbl_mult x f) \<le> dbl_trunc (dbl_mult x g)"
proof (cases "expo f \<le> expo g")
  case True
  let ?k = "nat (expo g - expo f)"
  have "mant x * mant f \<le> mant x * mant g * 2 ^ ?k"
    using assms True by (simp add: dbl_le_def mult.assoc)
  then have "dbl_trunc (dbl_mult x f)
      \<le> dbl_trunc (round_dbl (mant x * mant g * 2 ^ ?k) (expo x + expo g - int ?k))"
    using True by (simp add: dbl_mult_def dbl_trunc_round_mono)
  then show ?thesis by (simp only: dbl_trunc_round_shift dbl_mult_def)
next
  case False
  let ?k = "nat (expo f - expo g)"
  have "mant x * mant f * 2 ^ ?k \<le> mant x * mant g"
    using assms False by (simp add: dbl_le_def mult.assoc)
  then have "dbl_trunc (round_dbl (mant x * mant f * 2 ^ ?k) (expo x + expo f - int ?k))
      \<le> dbl_trunc (dbl_mult x g)"
    using False by (simp add: dbl_mult_def dbl_trunc_round_mono)
  then show ?thesis by (simp only: dbl_trunc_round_shift dbl_mult_def)
qed

text \<open>A fraction of a byte count below \<open>2 ^ 53\<close> is not above it, and grows with the fraction.\<close>

lemma dbl_trunc_fraction_le:
  assumes "dbl_le f (Dbl 1 0)" and "unat c < 2 ^ 53"
  shows "dbl_trunc (dbl_mult (dbl_of_u64 c) f) \<le> unat c"
proof -
  have "dbl_trunc (dbl_mult (dbl_of_u64 c) f) \<le> dbl_trunc (dbl_mult (dbl_of_u64 c) (Dbl 1 0))"
    by (rule dbl_trunc_mult_mono [OF assms(1)])
  also have "\<dots> = unat c"
  proof -
    have "rounded (unat c) = unat c" by (rule rounded_exact [OF assms(2)])
    moreover have "excess (unat c) = 0" by (rule excess_small [OF assms(2)])
    ultimately show ?thesis
      by (simp add: dbl_mult_def dbl_of_u64_def round_dbl_def rounded_mant_small dbl_trunc_def)
  qed
  finally show ?thesis .
qed

lemma scale_bytes_le:
  assumes "dbl_le f (Dbl 1 0)" and "unat c < 2 ^ 53"
  shows "scale_bytes c f \<le> c"
  using dbl_trunc_fraction_le [OF assms] unat_u64_less [of c]
  by (simp add: scale_bytes_def dbl_to_u64_def word_le_nat_alt unat_of_nat)

lemma scale_bytes_mono:
  assumes "dbl_le f g" and "dbl_le g (Dbl 1 0)" and "unat c < 2 ^ 53"
  shows "scale_bytes c f \<le> scale_bytes c g"
proof -
  have "dbl_trunc (dbl_mult (dbl_of_u64 c) f) \<le> dbl_trunc (dbl_mult (dbl_of_u64 c) g)"
    by (rule dbl_trunc_mult_mono [OF assms(1)])
  moreover have "dbl_trunc (dbl_mult (dbl_of_u64 c) g) < 2 ^ 64"
    using dbl_trunc_fraction_le [OF assms(2,3)] unat_u64_less [of c] by simp
  ultimately show ?thesis
    by (simp add: scale_bytes_def dbl_to_u64_def word_le_nat_alt unat_of_nat)
qed

section \<open>Quotients of byte counts\<close>

lemma dbl_of_u64_small: "unat w < 2 ^ 53 \<Longrightarrow> dbl_of_u64 w = Dbl (unat w) 0"
  by (simp add: dbl_of_u64_def round_dbl_def excess_small rounded_mant_small)

lemma round_dbl_le_one:
  assumes "q \<le> 2 ^ Suc k"
  shows "dbl_le (round_dbl q (- int (Suc k))) (Dbl 1 0)"
proof -
  have "2 ^ Suc k * (1 :: nat) = 1 * 2 ^ Suc k" by simp
  have "rounded (1 * 2 ^ Suc k) = 1 * 2 ^ Suc k" using rounded_shift [of 1 "Suc k"] rounded_exact [of 1] by simp
  with rounded_mono [OF assms] have le: "rounded_mant q * 2 ^ excess q \<le> 2 ^ Suc k" by (simp add: rounded_def)
  have "bitlen (2 ^ Suc k) = Suc k + 1" using bitlen_shift [of 1 "Suc k"] by (simp add: bitlen.simps)
  with bitlen_mono [OF assms] have e: "excess q \<le> Suc k" by (simp add: excess_def)
  then have "(2 :: nat) ^ Suc k = 2 ^ (Suc k - excess q) * 2 ^ excess q" by (simp flip: power_add)
  with le have "rounded_mant q \<le> 2 ^ (Suc k - excess q)" by (metis mult_le_cancel2 zero_less_numeral zero_less_power)
  moreover have "nat (0 - (- int (Suc k) + int (excess q))) = Suc k - excess q" using e by simp
  ultimately show ?thesis using e by (simp add: dbl_le_def round_dbl_def)
qed

lemma dbl_div_le_one:
  assumes "a \<le> b" and "unat b < 2 ^ 53" and "b \<noteq> 0"
  shows "dbl_le (dbl_div (dbl_of_u64 a) (dbl_of_u64 b)) (Dbl 1 0)"
proof -
  have ab: "unat a \<le> unat b" and b: "0 < unat b" using assms(1,3) by (simp_all add: word_le_nat_alt unat_gt_0)
  define k where "k = 64 + bitlen (unat b)"
  define n where "n = unat a * 2 ^ k"
  have n: "n \<le> unat b * 2 ^ k" using ab by (simp add: n_def)
  then have d: "n div unat b \<le> 2 ^ k" using b by (metis div_le_mono div_mult_self_is_m mult.commute)
  define q where "q = 2 * (n div unat b) + (if n mod unat b = 0 then 0 else 1)"
  have "q \<le> 2 ^ Suc k"
  proof (cases "n div unat b = 2 ^ k")
    case True
    then have "unat b * 2 ^ k + n mod unat b = n" using mult_div_mod_eq [of "unat b" n] by simp
    with n True show ?thesis by (simp add: q_def)
  qed (use d in \<open>simp add: q_def\<close>)
  then have "dbl_le (round_dbl q (- int (Suc k))) (Dbl 1 0)" by (rule round_dbl_le_one)
  moreover have "unat a < 2 ^ 53" using ab assms(2) by (rule le_less_trans)
  then have "dbl_div (dbl_of_u64 a) (dbl_of_u64 b) = round_dbl q (0 - 0 - int k - 1)"
    unfolding dbl_div_def dbl_of_u64_small [OF assms(2)] dbl_of_u64_small [OF \<open>unat a < 2 ^ 53\<close>] dbl.sel Let_def
      k_def [symmetric] n_def [symmetric] q_def [symmetric] by simp
  moreover have "0 - 0 - int k - 1 = - int (Suc k)" by simp
  ultimately show ?thesis by (simp only:)
qed

end
