(* ===== verification/Double_Error.thy ===== *)
theory Double_Error
  imports Complex_Main Double
begin

text \<open>
  How far the \<open>double\<close> arithmetic of \<open>Double\<close> is from the exact one: the relative error of a rounding,
  and the error of the computation that turns a limit in bytes into a fraction of one byte count and
  then takes that fraction of another.
\<close>

section \<open>A share of a byte count\<close>

text \<open>Rounding to 53 bits has a relative error of at most \<open>2 ^ -53\<close>.\<close>

lemma rounded_error: "2 ^ 53 * \<bar>real (rounded n) - real n\<bar> \<le> real n"
proof (cases "excess n = 0")
  case True
  then show ?thesis by (simp add: rounded_def rounded_mant_small)
next
  case False
  define d q r where "d = (2 :: nat) ^ excess n" and "q = n div d" and "r = n mod d"
  have n: "n = q * d + r" by (simp add: q_def r_def)
  have r: "r < d" by (simp add: r_def d_def)
  have "excess 0 = 0" by (simp add: excess_def bitlen.simps)
  with False have "n \<noteq> 0" by metis
  then have "2 ^ (bitlen n - 1) \<le> n" using bitlen_bounds(2) [of n] by simp
  moreover have "bitlen n - 1 = 52 + excess n" using False by (simp add: excess_def)
  ultimately have big: "2 ^ 52 * d \<le> n" by (simp add: d_def power_add)
  have v: "rounded n = (if d < 2 * r \<or> d = 2 * r \<and> odd q then q + 1 else q) * d"
    by (simp only: rounded_def rounded_mant_def Let_def d_def [symmetric] q_def [symmetric] r_def [symmetric])
  have "2 * \<bar>real (rounded n) - real n\<bar> \<le> real d"
  proof (cases "d < 2 * r \<or> d = 2 * r \<and> odd q")
    case True
    then have "rounded n = (q + 1) * d" unfolding v by (simp only: if_True if_False)
    then have "real (rounded n) - real n = real d - real r" by (subst (2) n) (simp add: algebra_simps)
    with True r show ?thesis by auto
  next
    case False
    then have "rounded n = q * d" unfolding v by (simp only: if_True if_False)
    then have "real (rounded n) - real n = - real r" by (subst (2) n) simp
    with False show ?thesis by auto
  qed
  moreover have "2 ^ 52 * real d \<le> real n" using big by (metis of_nat_le_iff of_nat_mult of_nat_numeral of_nat_power)
  ultimately show ?thesis by simp
qed

lemma dbl_trunc_mult_round:
  "dbl_trunc (dbl_mult (Dbl m 0) (round_dbl q e)) = floor_scale (rounded (m * rounded q)) e"
proof -
  have m: "m * rounded q = (m * rounded_mant q) * 2 ^ excess q" by (simp add: rounded_def)
  have "floor_scale (rounded (m * rounded q)) e
      = floor_scale (rounded (m * rounded_mant q) * 2 ^ excess q) (e + int (excess q) - int (excess q))"
    unfolding m rounded_shift by simp
  also have "\<dots> = floor_scale (rounded (m * rounded_mant q)) (e + int (excess q))" by (rule floor_scale_shift)
  finally show ?thesis by (simp add: dbl_mult_def round_dbl_def [of q] dbl_trunc_round)
qed

text \<open>The division before rounding: one more bit than the quotient, and the sticky bit.\<close>

lemma sticky_quotient:
  fixes n b :: nat
  assumes "0 < b"
  defines "q \<equiv> 2 * (n div b) + (if n mod b = 0 then 0 else 1)"
  shows "\<bar>real q - 2 * real n / real b\<bar> \<le> 1"
proof -
  have "real n = real (n div b) * real b + real (n mod b)"
    by (metis div_mult_mod_eq of_nat_add of_nat_mult)
  define f where "f = real (n mod b) / real b"
  have n: "2 * real n / real b = 2 * real (n div b) + 2 * f"
    unfolding f_def using \<open>real n = _\<close> assms(1) by (simp add: field_simps)
  have "n mod b < b" using assms(1) by simp
  then have "0 \<le> f" "f < 1" using assms(1) by (simp_all add: f_def field_simps)
  moreover have "f = 0" if "n mod b = 0" using that by (simp add: f_def)
  ultimately show ?thesis unfolding n by (auto simp: q_def)
qed

lemma two_roundings:
  fixes x y z w m p :: real
  assumes "0 \<le> x" "x \<le> p" "2 ^ 65 \<le> p" "0 \<le> m" "m \<le> 2 ^ 53"
    and y: "\<bar>y - x\<bar> \<le> 1" "0 \<le> y" and z: "2 ^ 53 * \<bar>z - y\<bar> \<le> y"
    and w: "2 ^ 53 * \<bar>w - m * z\<bar> \<le> m * z"
  shows "\<bar>w - m * x\<bar> \<le> 3 * p"
proof -
  define c where "c = (p + 1) / 2 ^ 53"
  have c: "2 ^ 53 * c = p + 1" "0 \<le> c" "c \<le> p" using assms(3) by (simp_all add: c_def field_simps)
  have yp: "y \<le> p + 1" using assms(2) y(1) by linarith
  then have "2 ^ 53 * \<bar>z - y\<bar> \<le> 2 ^ 53 * c" using z c(1) by linarith
  then have zy: "\<bar>z - y\<bar> \<le> c" by simp
  have bound: "m * t \<le> 2 ^ 53 * t'" if "t \<le> t'" "0 \<le> t'" for t t'
    using mult_left_mono [OF that(1) assms(4)] mult_right_mono [OF assms(5) that(2)] by linarith
  have "m * \<bar>z - x\<bar> \<le> 2 ^ 53 * (1 + c)" using zy y(1) c(2) by (intro bound) linarith+
  moreover have "\<bar>m * z - m * x\<bar> = m * \<bar>z - x\<bar>" using assms(4) by (simp add: abs_mult flip: right_diff_distrib)
  moreover have "(2 :: real) ^ 53 * (1 + c) = 2 ^ 53 + (p + 1)" unfolding c(1) [symmetric] by (simp only: distrib_left mult_1_right)
  ultimately have one: "\<bar>m * z - m * x\<bar> \<le> 2 ^ 53 + (p + 1)" by linarith
  have "m * z \<le> 2 ^ 53 * (p + 1 + c)" using zy yp c(2) assms(1,2) by (intro bound) linarith+
  then have "\<bar>w - m * z\<bar> \<le> p + 1 + c" using w by simp
  moreover have "2 ^ 53 * c \<le> p + 1" using c(1) by simp
  ultimately show ?thesis using one assms(3) by simp
qed

text \<open>
  A byte count times the quotient of two others, each step rounded and the result truncated, is
  within four bytes of the exact product, for byte counts below \<open>2 ^ 53\<close>.
\<close>

lemma scale_bytes_quotient:
  assumes a: "a \<le> b" and b: "unat b < 2 ^ 53" "b \<noteq> 0" and c: "c \<le> b"
  defines "l \<equiv> unat (scale_bytes c (dbl_div (dbl_of_u64 a) (dbl_of_u64 b)))"
  shows "l * unat b \<le> unat a * unat c + 3 * unat b" and "unat a * unat c < (l + 4) * unat b"
    and "l \<le> unat c"
proof -
  define A B C where "A = unat a" and "B = unat b" and "C = unat c"
  have le: "A \<le> B" "C \<le> B" using a c by (simp_all add: A_def B_def C_def word_le_nat_alt)
  have B: "0 < B" "B < 2 ^ 53" using b by (simp_all add: B_def unat_gt_0)
  define k where "k = 64 + bitlen B"
  define q where "q = 2 * (A * 2 ^ k div B) + (if A * 2 ^ k mod B = 0 then 0 else 1)"
  have A53: "unat a < 2 ^ 53" "unat c < 2 ^ 53" using le B by (simp_all add: A_def C_def)
  have e: "0 - 0 - int k - 1 = - int (Suc k)" by simp
  have "dbl_div (dbl_of_u64 a) (dbl_of_u64 b) = round_dbl q (- int (Suc k))"
    unfolding dbl_div_def dbl_of_u64_small [OF b(1)] dbl_of_u64_small [OF A53(1)] dbl.sel Let_def
      A_def [symmetric] B_def [symmetric] k_def [symmetric] q_def [symmetric] e by simp
  then have t: "dbl_trunc (dbl_mult (dbl_of_u64 c) (dbl_div (dbl_of_u64 a) (dbl_of_u64 b)))
      = rounded (C * rounded q) div 2 ^ Suc k"
    by (simp add: dbl_of_u64_small [OF A53(2)] C_def [symmetric] dbl_trunc_mult_round floor_scale_def
        nat_add_distrib)
  have fit: "dbl_trunc (dbl_mult (dbl_of_u64 c) (dbl_div (dbl_of_u64 a) (dbl_of_u64 b))) \<le> C"
    unfolding C_def by (rule dbl_trunc_fraction_le [OF dbl_div_le_one [OF a b] A53(2)])
  then have l: "l = rounded (C * rounded q) div 2 ^ Suc k"
    using unat_u64_less [of c] t
    by (simp add: l_def scale_bytes_def dbl_to_u64_def unat_of_nat C_def)
  show "l \<le> unat c" using fit t l by (simp add: C_def)
  define p where "p = (2 :: real) ^ Suc k"
  define x where "x = real A * p / real B"
  have p: "2 ^ 65 \<le> p" unfolding p_def k_def by (intro power_increasing) simp_all
  have x: "0 \<le> x" "x \<le> p" using le B p by (simp_all add: x_def field_simps)
  have q: "\<bar>real q - x\<bar> \<le> 1"
    using sticky_quotient [OF B(1), of "A * 2 ^ k"] by (simp add: q_def x_def p_def field_simps)
  let ?w = "real (rounded (C * rounded q))"
  have "real C \<le> 2 ^ 53" using le B by simp
  from two_roundings [OF x p _ this q _ rounded_error [of q], of ?w] rounded_error [of "C * rounded q"]
  have w: "\<bar>?w - real C * x\<bar> \<le> 3 * p" by simp
  have pos: "0 < p" by (simp add: p_def)
  have lw: "real l * p \<le> ?w" "?w < (real l + 1) * p"
  proof -
    have "l * 2 ^ Suc k \<le> rounded (C * rounded q)" unfolding l by (rule div_times_less_eq_dividend)
    then have "real (l * 2 ^ Suc k) \<le> ?w" by (simp only: of_nat_le_iff)
    then show "real l * p \<le> ?w" by (simp only: p_def of_nat_mult of_nat_power of_nat_numeral)
    have "rounded (C * rounded q) < (l + 1) * 2 ^ Suc k" unfolding l by (simp add: dividend_less_div_times)
    then have "?w < real ((l + 1) * 2 ^ Suc k)" by (simp only: of_nat_less_iff)
    then show "?w < (real l + 1) * p"
      by (simp only: p_def of_nat_mult of_nat_add of_nat_1 of_nat_power of_nat_numeral)
  qed
  have cx: "real C * x = real A * real C / real B * p" by (simp add: x_def)
  have "real l * p \<le> (real A * real C / real B + 3) * p"
    using lw(1) w unfolding cx by (simp add: distrib_right)
  then have "real l \<le> real A * real C / real B + 3" using pos by (simp only: mult_le_cancel_right_pos)
  then have "real l * real B \<le> real A * real C + 3 * real B" using B(1) by (simp add: field_simps)
  then have "real (l * B) \<le> real (A * C + 3 * B)" by simp
  then show "l * unat b \<le> unat a * unat c + 3 * unat b"
    unfolding A_def [symmetric] B_def [symmetric] C_def [symmetric] by (simp only: of_nat_le_iff)
  have "real A * real C / real B * p < (real l + 4) * p"
    using lw(2) w unfolding cx by (simp add: distrib_right)
  then have "real A * real C / real B < real l + 4" using pos by (simp only: mult_less_cancel_right_pos)
  then have "real A * real C < (real l + 4) * real B" using B(1) by (simp add: field_simps)
  then have "real (A * C) < real ((l + 4) * B)" by simp
  then show "unat a * unat c < (l + 4) * unat b"
    unfolding A_def [symmetric] B_def [symmetric] C_def [symmetric] by (simp only: of_nat_less_iff)
qed

end
