(* ===== verification/Memory_Config.thy ===== *)
theory Memory_Config
  imports Double Memory_Common
begin

text \<open>
  The memory space configurations of \<open>include/memory/config.hpp\<close> and the byte thresholds they
  compute from fractions of the capacity. The factory function of a configuration only constructs
  an allocator and is a value of an unspecified type here. The default fractions are written as the
  doubles nearest to the decimal literals of the source.
\<close>

definition default_block_size :: u64 where "default_block_size = push_bit 20 1"
definition default_pool_size :: u64 where "default_pool_size = 128"
definition default_initial_number_pools :: u64 where "default_initial_number_pools = 4"

definition frac_90 :: dbl where "frac_90 = Dbl 8106479329266893 (- 53)"
definition frac_75 :: dbl where "frac_75 = Dbl 3 (- 2)"
definition frac_65 :: dbl where "frac_65 = Dbl 5854679515581645 (- 53)"
definition frac_99 :: dbl where "frac_99 = Dbl 4458563631096791 (- 52)"

record 'f gpu_memory_space_config =
  gpu_device_id :: i32
  gpu_reservation_limit_fraction :: dbl
  gpu_downgrade_trigger_fraction :: dbl
  gpu_downgrade_stop_fraction :: dbl
  gpu_memory_capacity :: u64
  per_stream_reservation :: bool
  gpu_mr_factory_fn :: "'f option"

definition default_gpu_config :: "'f gpu_memory_space_config" where
  "default_gpu_config =
     \<lparr>gpu_device_id = - 1, gpu_reservation_limit_fraction = frac_90,
      gpu_downgrade_trigger_fraction = frac_75, gpu_downgrade_stop_fraction = frac_65,
      gpu_memory_capacity = 0, per_stream_reservation = True, gpu_mr_factory_fn = None\<rparr>"

definition gpu_reservation_limit :: "'f gpu_memory_space_config \<Rightarrow> u64" where
  "gpu_reservation_limit c = scale_bytes (gpu_memory_capacity c) (gpu_reservation_limit_fraction c)"

definition gpu_downgrade_trigger_threshold :: "'f gpu_memory_space_config \<Rightarrow> u64" where
  "gpu_downgrade_trigger_threshold c =
     scale_bytes (gpu_memory_capacity c) (gpu_downgrade_trigger_fraction c)"

definition gpu_downgrade_stop_threshold :: "'f gpu_memory_space_config \<Rightarrow> u64" where
  "gpu_downgrade_stop_threshold c =
     scale_bytes (gpu_memory_capacity c) (gpu_downgrade_stop_fraction c)"

record 'f host_memory_space_config =
  numa_id :: i32
  host_reservation_limit_fraction :: dbl
  host_downgrade_trigger_fraction :: dbl
  host_downgrade_stop_fraction :: dbl
  host_config_capacity :: u64
  config_block_size :: u64
  config_pool_size :: u64
  initial_number_pools :: u64
  host_mr_factory_fn :: "'f option"

definition default_host_config :: "'f host_memory_space_config" where
  "default_host_config =
     \<lparr>numa_id = - 1, host_reservation_limit_fraction = frac_90,
      host_downgrade_trigger_fraction = frac_75, host_downgrade_stop_fraction = frac_65,
      host_config_capacity = 0, config_block_size = default_block_size,
      config_pool_size = default_pool_size, initial_number_pools = default_initial_number_pools,
      host_mr_factory_fn = None\<rparr>"

definition host_reservation_limit :: "'f host_memory_space_config \<Rightarrow> u64" where
  "host_reservation_limit c = scale_bytes (host_config_capacity c) (host_reservation_limit_fraction c)"

definition host_downgrade_trigger_threshold :: "'f host_memory_space_config \<Rightarrow> u64" where
  "host_downgrade_trigger_threshold c =
     scale_bytes (host_config_capacity c) (host_downgrade_trigger_fraction c)"

definition host_downgrade_stop_threshold :: "'f host_memory_space_config \<Rightarrow> u64" where
  "host_downgrade_stop_threshold c =
     scale_bytes (host_config_capacity c) (host_downgrade_stop_fraction c)"

record disk_memory_space_config =
  disk_id :: i32
  disk_config_capacity :: u64
  mount_paths :: string

definition disk_reservation_limit :: "disk_memory_space_config \<Rightarrow> u64" where
  "disk_reservation_limit c = disk_config_capacity c"

definition disk_downgrade_trigger_threshold :: "disk_memory_space_config \<Rightarrow> u64" where
  "disk_downgrade_trigger_threshold c = disk_config_capacity c"

definition disk_downgrade_stop_threshold :: "disk_memory_space_config \<Rightarrow> u64" where
  "disk_downgrade_stop_threshold c = scale_bytes (disk_config_capacity c) frac_99"

datatype 'f memory_space_config =
    Monostate
  | Gpu_config "'f gpu_memory_space_config"
  | Host_config "'f host_memory_space_config"
  | Disk_config disk_memory_space_config

section \<open>The thresholds are ordered\<close>

text \<open>
  For a capacity below \<open>2 ^ 53\<close> bytes and fractions in the order
  stop \<open>\<le>\<close> trigger \<open>\<le>\<close> limit \<open>\<le>\<close> 1, the byte thresholds of a GPU configuration are in the same
  order and none exceeds the capacity: the rounding of the floating-point product never reverses
  two thresholds and never lifts one above the capacity.
\<close>

theorem gpu_thresholds_ordered:
  assumes "unat (gpu_memory_capacity c) < 2 ^ 53"
    and "dbl_le (gpu_downgrade_stop_fraction c) (gpu_downgrade_trigger_fraction c)"
    and "dbl_le (gpu_downgrade_trigger_fraction c) (gpu_reservation_limit_fraction c)"
    and "dbl_le (gpu_reservation_limit_fraction c) (Dbl 1 0)"
    and "dbl_le (gpu_downgrade_trigger_fraction c) (Dbl 1 0)"
  shows "gpu_downgrade_stop_threshold c \<le> gpu_downgrade_trigger_threshold c
    \<and> gpu_downgrade_trigger_threshold c \<le> gpu_reservation_limit c
    \<and> gpu_reservation_limit c \<le> gpu_memory_capacity c"
  using scale_bytes_mono [OF assms(2,5,1)] scale_bytes_mono [OF assms(3,4,1)]
    scale_bytes_le [OF assms(4,1)]
  by (simp add: gpu_downgrade_stop_threshold_def gpu_downgrade_trigger_threshold_def
      gpu_reservation_limit_def)

theorem gpu_thresholds_ordered_witness:
  "let c = (default_gpu_config :: nat gpu_memory_space_config)\<lparr>gpu_memory_capacity := 2 ^ 30\<rparr>
   in gpu_downgrade_stop_threshold c \<le> gpu_downgrade_trigger_threshold c
      \<and> gpu_downgrade_trigger_threshold c \<le> gpu_reservation_limit c
      \<and> gpu_reservation_limit c \<le> gpu_memory_capacity c"
  unfolding Let_def
  by (rule gpu_thresholds_ordered)
     (simp_all add: default_gpu_config_def dbl_le_def frac_65_def frac_75_def frac_90_def)

end
