(* ===== verification/Reservation.thy ===== *)
theory Reservation
  imports Double Memory_Common
begin

text \<open>
  Reservations and the policies for exceeding them (\<open>include/memory/memory_reservation.hpp\<close>,
  \<open>src/memory/memory_reservation.cpp\<close>, \<open>include/memory/oom_handling_policy.hpp\<close>,
  \<open>src/memory/oom_handling_policy.cpp\<close>).

  A \<open>reservation\<close> pairs a memory space with the arena that one of the resources made for it; the
  arena is known by its address, and \<open>None\<close> is a null \<open>_arena\<close>. The constructor asserts that the
  arena is not null: \<open>asserts\<close> says whether the build checks assertions.
\<close>

record reservation =
  res_space :: memory_space_id
  res_arena :: "nat option"

definition reservation_create ::
  "bool \<Rightarrow> memory_space_id \<Rightarrow> nat option \<Rightarrow> reservation outcome" where
  "reservation_create asserts space arena =
     (if asserts \<and> arena = None then Inl assertion_failure
      else Inr \<lparr>res_space = space, res_arena = arena\<rparr>)"

text \<open>The methods that go to the arena take what the arena's resource provides for them.\<close>

definition reservation_size :: "(nat \<Rightarrow> int) \<Rightarrow> reservation \<Rightarrow> u64 outcome" where
  "reservation_size arena_size r =
     (case res_arena r of
        None \<Rightarrow> Inl invalid_dereference
      | Some a \<Rightarrow> Inr (to_u64 (max 0 (arena_size a))))"

definition reservation_tier :: "reservation \<Rightarrow> Tier" where
  "reservation_tier r = tier (res_space r)"

definition reservation_device_id :: "reservation \<Rightarrow> i32" where
  "reservation_device_id r = device_id (res_space r)"

definition reservation_grow_by ::
  "(nat \<Rightarrow> u64 \<Rightarrow> 's \<Rightarrow> bool \<times> 's) \<Rightarrow> reservation \<Rightarrow> u64 \<Rightarrow> 's \<Rightarrow> bool outcome \<times> 's" where
  "reservation_grow_by grow r bytes s =
     (case res_arena r of
        None \<Rightarrow> (Inl invalid_dereference, s)
      | Some a \<Rightarrow> (case grow a bytes s of (ok, s') \<Rightarrow> (Inr ok, s')))"

definition reservation_shrink_to_fit ::
  "(nat \<Rightarrow> 's \<Rightarrow> 's) \<Rightarrow> reservation \<Rightarrow> 's \<Rightarrow> unit outcome \<times> 's" where
  "reservation_shrink_to_fit shrink r s =
     (case res_arena r of
        None \<Rightarrow> (Inl invalid_dereference, s)
      | Some a \<Rightarrow> (Inr (), shrink a s))"

section \<open>Reservation limit policies\<close>

datatype reservation_limit_policy =
    ignore_reservation_limit_policy
  | fail_reservation_limit_policy
  | increase_reservation_limit_policy dbl bool

definition default_increase_policy :: reservation_limit_policy where
  "default_increase_policy = increase_reservation_limit_policy (Dbl 5 (- 2)) False"

definition make_default_reservation_limit_policy :: reservation_limit_policy where
  "make_default_reservation_limit_policy = ignore_reservation_limit_policy"

fun get_policy_name :: "reservation_limit_policy \<Rightarrow> string" where
  "get_policy_name ignore_reservation_limit_policy = ''ignore''"
| "get_policy_name fail_reservation_limit_policy = ''fail''"
| "get_policy_name (increase_reservation_limit_policy _ _) = ''increase''"

text \<open>
  \<open>handle_over_reservation\<close>: the argument \<open>arena\<close> is the arena's \<open>size()\<close> and \<open>grow_by\<close> on the state
  that holds it, or \<open>None\<close> for a null pointer. \<open>std::size_t\<close> arithmetic wraps.
\<close>

type_synonym 's arena_ops = "('s \<Rightarrow> int) \<times> (u64 \<Rightarrow> 's \<Rightarrow> bool \<times> 's)"

definition fail_message :: "u64 \<Rightarrow> u64 \<Rightarrow> u64 \<Rightarrow> string" where
  "fail_message requested_bytes reserved current_allocated =
     ''Allocation of '' @ decimal (unat requested_bytes)
     @ '' bytes would exceed stream reservation of '' @ decimal (unat reserved)
     @ '' bytes (current: '' @ decimal (unat current_allocated) @ '' bytes)''"

definition increase_over_reservation ::
  "dbl \<Rightarrow> 's arena_ops option \<Rightarrow> u64 \<Rightarrow> u64 \<Rightarrow> 's \<Rightarrow> unit outcome \<times> 's" where
  "increase_over_reservation padding_factor arena requested_bytes current_allocated s =
     (case arena of
        None \<Rightarrow> (Inl (out_of_memory ''No reservation set for stream''), s)
      | Some (arena_size, grow_by) \<Rightarrow>
          let post_allocation_size = current_allocated + requested_bytes;
              current_reserved = to_u64 (max 0 (arena_size s));
              extra_space_needed = post_allocation_size - current_reserved;
              padded_reservation = scale_bytes extra_space_needed padding_factor
          in case grow_by padded_reservation s of
               (True, s') \<Rightarrow> (Inr (), s')
             | (False, s') \<Rightarrow>
                 (case grow_by extra_space_needed s' of
                    (True, s'') \<Rightarrow> (Inr (), s'')
                  | (False, s'') \<Rightarrow>
                      (Inl (out_of_memory
                         (''Failed to increase stream reservation from '' @ decimal_int (arena_size s'')
                          @ '' to '' @ decimal (unat extra_space_needed) @ '' bytes'')), s'')))"

fun handle_over_reservation ::
  "reservation_limit_policy \<Rightarrow> 's arena_ops option \<Rightarrow> u64 \<Rightarrow> u64 \<Rightarrow> 's \<Rightarrow> unit outcome \<times> 's"
where
  "handle_over_reservation ignore_reservation_limit_policy arena requested_bytes current_allocated s =
     (Inr (), s)"
| "handle_over_reservation fail_reservation_limit_policy arena requested_bytes current_allocated s =
     (let reserved =
            (case arena of None \<Rightarrow> 0 | Some (arena_size, _) \<Rightarrow> to_u64 (max 0 (arena_size s)))
      in (Inl (out_of_memory (fail_message requested_bytes reserved current_allocated)), s))"
| "handle_over_reservation (increase_reservation_limit_policy padding_factor _) arena requested_bytes
     current_allocated s =
     increase_over_reservation padding_factor arena requested_bytes current_allocated s"

section \<open>Out-of-memory policy\<close>

datatype oom_handling_policy = throw_on_oom_policy

definition make_default_oom_policy :: oom_handling_policy where
  "make_default_oom_policy = throw_on_oom_policy"

fun oom_policy_name :: "oom_handling_policy \<Rightarrow> string" where
  "oom_policy_name throw_on_oom_policy = ''rethrow''"

text \<open>\<open>handle_oom\<close>: the only policy of the library rethrows and never retries.\<close>

fun handle_oom ::
  "oom_handling_policy \<Rightarrow> u64 \<Rightarrow> exn \<Rightarrow> (u64 \<Rightarrow> 's \<Rightarrow> 'p outcome \<times> 's) \<Rightarrow> 's \<Rightarrow> 'p outcome \<times> 's" where
  "handle_oom throw_on_oom_policy bytes eptr retry s = (Inl eptr, s)"

section \<open>What the increase policy achieves\<close>

lemma dbl_trunc_ge_exact:
  assumes "dbl_le (Dbl 1 0) f" and "unat c < 2 ^ 53"
  shows "unat c \<le> dbl_trunc (dbl_mult (dbl_of_u64 c) f)"
proof -
  have "dbl_trunc (dbl_mult (dbl_of_u64 c) (Dbl 1 0)) = unat c"
    using excess_small [OF assms(2)]
    by (simp add: dbl_mult_def dbl_of_u64_def round_dbl_def rounded_mant_small dbl_trunc_def)
  with dbl_trunc_mult_mono [OF assms(1), of "dbl_of_u64 c"] show ?thesis by simp
qed

text \<open>
  The increase policy covers the request. With a padding factor of at least 1, an arena
  whose \<open>grow_by\<close> adds exactly what it accepts, and sizes in range, \<open>handle_over_reservation\<close> returns
  only with a reservation of at least the current allocation plus the request; and it throws only
  when the arena refused to grow by the bytes that are needed.
\<close>

theorem increase_policy_covers_request:
  assumes "dbl_le (Dbl 1 0) padding_factor" and "0 \<le> arena_size s"
    and "arena_size s < int (unat current) + int (unat requested)"
    and "unat current + unat requested < 2 ^ 53"
    and "dbl_trunc (dbl_mult (dbl_of_u64 (current + requested - to_u64 (arena_size s))) padding_factor) < 2 ^ 63"
    and "\<And>n t t'. grow n t = (True, t') \<Longrightarrow> arena_size t' = arena_size t + int (unat n)"
    and "\<And>n t t'. grow n t = (False, t') \<Longrightarrow> t' = t"
    and "handle_over_reservation (increase_reservation_limit_policy padding_factor allow)
           (Some (arena_size, grow)) requested current s = (r, t')"
  shows "case r of Inr _ \<Rightarrow> int (unat current) + int (unat requested) \<le> arena_size t'
         | Inl _ \<Rightarrow> t' = s \<and> \<not> fst (grow (current + requested - to_u64 (arena_size s)) s)"
proof -
  let ?x = "current + requested - to_u64 (arena_size s)"
  define c q where "c = unat current" and "q = unat requested"
  obtain z where z: "arena_size s = int z" using assms(2) nonneg_int_cases by blast
  have zlt: "z < c + q" and small: "c + q < 2 ^ 53" using assms(3,4) z unfolding c_def q_def by (simp_all del: of_nat_unat)
  have uz: "unat (to_u64 (arena_size s)) = z" using zlt small by (simp add: z unat_to_u64)
  have "unat (current + requested) = c + q"
    using small unfolding c_def q_def by (simp add: unat_add_exact)
  then have x: "unat ?x = c + q - z" using uz zlt by (simp add: unat_sub_exact)
  let ?p = "scale_bytes ?x padding_factor"
  have p: "unat ?x \<le> unat ?p"
    using dbl_trunc_ge_exact [OF assms(1), of ?x] x small assms(5)
    by (simp add: scale_bytes_def dbl_to_u64_def unat_of_nat)
  have mx: "max 0 (arena_size s) = arena_size s" using assms(2) by simp
  show ?thesis
  proof (cases "fst (grow ?p s)")
    case True
    then obtain s1 where g: "grow ?p s = (True, s1)" by (metis (full_types) prod.collapse)
    with assms(8) have "r = Inr ()" "t' = s1" by (simp_all add: increase_over_reservation_def mx Let_def)
    moreover have "arena_size s1 = int z + int (unat ?p)"
      using assms(6) [OF g] z by simp
    ultimately show ?thesis using p x zlt z unfolding c_def [symmetric] q_def [symmetric]
      by (simp del: of_nat_unat)
  next
    case False
    then have g: "grow ?p s = (False, s)" using assms(7) [of ?p s] by (metis (full_types) prod.collapse)
    show ?thesis
    proof (cases "fst (grow ?x s)")
      case True
      then obtain s1 where g2: "grow ?x s = (True, s1)" by (metis (full_types) prod.collapse)
      with assms(8) g have "r = Inr ()" "t' = s1"
        by (simp_all add: increase_over_reservation_def mx Let_def)
      moreover have "arena_size s1 = int z + int (unat ?x)"
        using assms(6) [OF g2] z by simp
      ultimately show ?thesis using x zlt z unfolding c_def [symmetric] q_def [symmetric]
      by (simp del: of_nat_unat)
    next
      case no: False
      then have g2: "grow ?x s = (False, s)" using assms(7) [of ?x s] by (metis (full_types) prod.collapse)
      with assms(8) g have "t' = s" "\<exists>e. r = Inl e"
        by (auto simp: increase_over_reservation_def mx Let_def)
      with no show ?thesis by auto
    qed
  qed
qed

definition toy_grow :: "u64 \<Rightarrow> int \<Rightarrow> bool \<times> int" where
  "toy_grow n t = (if t + int (unat n) \<le> 1000 then (True, t + int (unat n)) else (False, t))"

theorem increase_policy_covers_request_witness:
  "handle_over_reservation default_increase_policy (Some (\<lambda>t. t, toy_grow)) 60 90 (100::int) = (Inr (), 162)
   \<and> (90::int) + 60 \<le> 162"
proof -
  have f: "dbl_mult (dbl_of_u64 (90 + 60 - to_u64 100)) (Dbl 5 (- 2)) = Dbl 250 (- 2)"
    by (simp add: to_u64_def dbl_mult_def dbl_of_u64_def round_dbl_def rounded_mant_small excess_small)
  have run: "handle_over_reservation (increase_reservation_limit_policy (Dbl 5 (- 2)) False)
      (Some (\<lambda>t. t, toy_grow)) 60 90 (100::int) = (Inr (), 162)"
    using f by (simp add: increase_over_reservation_def scale_bytes_def dbl_to_u64_def dbl_trunc_def
        toy_grow_def Let_def)
  have "case Inr () :: unit outcome of
      Inr _ \<Rightarrow> int (unat (90::u64)) + int (unat (60::u64)) \<le> (162::int)
    | Inl _ \<Rightarrow> (162::int) = 100 \<and> \<not> fst (toy_grow (90 + 60 - to_u64 100) 100)"
    by (rule increase_policy_covers_request [OF _ _ _ _ _ _ _ run])
       (use f in \<open>auto simp: dbl_le_def dbl_trunc_def toy_grow_def split: if_splits\<close>)
  then show ?thesis using run by (simp add: default_increase_policy_def)
qed

end
