(* ===== verification/Device_Adaptor.thy ===== *)
theory Device_Adaptor
  imports Atomics Memory_Common Reservation Reserving
begin

text \<open>
  \<open>reservation_aware_resource_adaptor\<close> (\<open>include/memory/reservation_aware_resource_adaptor.hpp\<close>,
  \<open>src/memory/reservation_aware_resource_adaptor.cpp\<close>): a device memory resource that charges
  allocations to the reservation attached to their stream, or thread, and to a global counter.

  The arena objects that are alive are part of the state, by address, whether a \<open>reservation\<close> or a
  tracker owns them. The tracker is one map: its key is the stream for \<open>PER_STREAM\<close> and the calling
  thread for \<open>PER_THREAD\<close>, whose state is thread-local. RMM is the argument \<open>env\<close>: \<open>rmm::align_up\<close>,
  the upstream's \<open>allocate_async\<close>, which returns an address or throws an exception with a
  message, and \<open>deallocate_async\<close>, on an upstream state. \<open>rmm::CUDA_ALLOCATION_ALIGNMENT\<close> is 256.
\<close>

section \<open>State\<close>

record 'u device_rmm =
  dev_align_up :: "u64 \<Rightarrow> u64 \<Rightarrow> u64"
  allocate_async :: "u64 \<Rightarrow> nat \<Rightarrow> 'u \<Rightarrow> (string + u64) \<times> 'u"
  deallocate_async :: "u64 \<Rightarrow> u64 \<Rightarrow> nat \<Rightarrow> 'u \<Rightarrow> 'u"

definition CUDA_ALLOCATION_ALIGNMENT :: u64 where
  "CUDA_ALLOCATION_ALIGNMENT = 256"

record device_reserved_arena =
  dev_arena_size :: int
  dev_arena_allocated :: int
  dev_arena_peak :: int

record stream_ordered_tracker_state =
  memory_reservation :: "nat option"
  reservation_policy :: "reservation_limit_policy option"
  oom_policy :: oom_handling_policy

datatype AllocationTrackingScope = PER_STREAM | PER_THREAD

record 'u device_adaptor =
  dev_space_id :: memory_space_id
  dev_upstream :: 'u
  dev_memory_limit :: u64
  dev_capacity :: u64
  tracking_scope :: AllocationTrackingScope
  allocation_tracker :: "(nat \<times> stream_ordered_tracker_state) list"
  total_reserved_bytes :: u64
  number_of_allocations :: u64
  total_allocated_bytes :: u64
  peak_total_allocated_bytes :: u64
  default_reservation_policy :: reservation_limit_policy
  default_oom_policy :: oom_handling_policy
  dev_arenas :: "(nat \<times> device_reserved_arena) list"

definition new_device_adaptor ::
  "memory_space_id \<Rightarrow> 'u \<Rightarrow> u64 \<Rightarrow> u64 \<Rightarrow> reservation_limit_policy option \<Rightarrow>
   oom_handling_policy option \<Rightarrow> AllocationTrackingScope \<Rightarrow> 'u device_adaptor"
where
  "new_device_adaptor i u memory_limit capacity policy oom scope =
     \<lparr>dev_space_id = i, dev_upstream = u, dev_memory_limit = memory_limit, dev_capacity = capacity,
      tracking_scope = scope, allocation_tracker = [], total_reserved_bytes = 0,
      number_of_allocations = 0, total_allocated_bytes = 0, peak_total_allocated_bytes = 0,
      default_reservation_policy =
        (case policy of Some p \<Rightarrow> p | None \<Rightarrow> make_default_reservation_limit_policy),
      default_oom_policy = (case oom of Some p \<Rightarrow> p | None \<Rightarrow> make_default_oom_policy),
      dev_arenas = []\<rparr>"

text \<open>A call is made on a stream by a thread.\<close>

type_synonym caller = "nat \<times> nat"

definition tracker_key :: "'u device_adaptor \<Rightarrow> caller \<Rightarrow> nat" where
  "tracker_key d at = (case tracking_scope d of PER_STREAM \<Rightarrow> fst at | PER_THREAD \<Rightarrow> snd at)"

definition get_tracker_state ::
  "caller \<Rightarrow> 'u device_adaptor \<Rightarrow> stream_ordered_tracker_state option" where
  "get_tracker_state at d = map_of (allocation_tracker d) (tracker_key d at)"

definition set_arena :: "nat \<Rightarrow> device_reserved_arena \<Rightarrow> 'u device_adaptor \<Rightarrow> 'u device_adaptor" where
  "set_arena a ar d = d\<lparr>dev_arenas := alist_set a ar (dev_arenas d)\<rparr>"

section \<open>Queries\<close>

definition arena_available_memory :: "device_reserved_arena \<Rightarrow> u64" where
  "arena_available_memory ar =
     (if dev_arena_allocated ar < dev_arena_size ar
      then to_u64 (dev_arena_size ar - dev_arena_allocated ar) else 0)"

definition dev_available_memory :: "'u device_adaptor \<Rightarrow> u64" where
  "dev_available_memory d =
     (if dev_capacity d > total_allocated_bytes d then dev_capacity d - total_allocated_bytes d else 0)"

text \<open>The arena that a tracker state points to; a null pointer that is used is an error.\<close>

definition tracked_arena ::
  "stream_ordered_tracker_state \<Rightarrow> 'u device_adaptor \<Rightarrow> (nat \<times> device_reserved_arena) outcome" where
  "tracked_arena st d =
     (case memory_reservation st of
        None \<Rightarrow> Inl invalid_dereference
      | Some a \<Rightarrow> (case map_of (dev_arenas d) a of
                     None \<Rightarrow> Inl invalid_dereference
                   | Some ar \<Rightarrow> Inr (a, ar)))"

definition on_tracked ::
  "(device_reserved_arena \<Rightarrow> u64) \<Rightarrow> caller \<Rightarrow> 'u device_adaptor \<Rightarrow> u64 outcome" where
  "on_tracked f at d =
     (case get_tracker_state at d of
        None \<Rightarrow> Inr 0
      | Some st \<Rightarrow> (case tracked_arena st d of Inl e \<Rightarrow> Inl e | Inr (_, ar) \<Rightarrow> Inr (f ar)))"

definition dev_available_memory_on :: "caller \<Rightarrow> 'u device_adaptor \<Rightarrow> u64 outcome" where
  "dev_available_memory_on at d =
     (case on_tracked arena_available_memory at d of
        Inl e \<Rightarrow> Inl e
      | Inr bytes \<Rightarrow> Inr (dev_available_memory d + bytes))"

definition dev_available_memory_print :: "caller \<Rightarrow> 'u device_adaptor \<Rightarrow> u64 outcome" where
  "dev_available_memory_print at d =
     (case on_tracked arena_available_memory at d of
        Inl e \<Rightarrow> Inl e
      | Inr bytes \<Rightarrow> Inr (dev_available_memory d + bytes))"

text \<open>
  \<open>other\<close> is the argument of \<open>do_is_equal\<close> after the cast to an adaptor, \<open>None\<close> for a resource of another
  class; \<open>same_resource\<close> is the comparison of RMM's references to the upstream resources.
\<close>

definition dev_do_is_equal ::
  "('u \<Rightarrow> 'u \<Rightarrow> bool) \<Rightarrow> 'u device_adaptor \<Rightarrow> 'u device_adaptor option \<Rightarrow> bool" where
  "dev_do_is_equal same_resource d other =
     (case other of None \<Rightarrow> False | Some d' \<Rightarrow> same_resource (dev_upstream d) (dev_upstream d'))"

definition get_allocated_bytes :: "caller \<Rightarrow> 'u device_adaptor \<Rightarrow> u64 outcome" where
  "get_allocated_bytes at d = on_tracked (\<lambda>ar. to_u64 (max 0 (dev_arena_allocated ar))) at d"

definition get_peak_allocated_bytes :: "caller \<Rightarrow> 'u device_adaptor \<Rightarrow> u64 outcome" where
  "get_peak_allocated_bytes at d = on_tracked (\<lambda>ar. to_u64 (max 0 (dev_arena_peak ar))) at d"

definition reset_peak_allocated_bytes ::
  "caller \<Rightarrow> 'u device_adaptor \<Rightarrow> unit outcome \<times> 'u device_adaptor" where
  "reset_peak_allocated_bytes at d =
     (case get_tracker_state at d of
        None \<Rightarrow> (Inr (), d)
      | Some st \<Rightarrow>
          (case tracked_arena st d of
             Inl e \<Rightarrow> (Inl e, d)
           | Inr (a, ar) \<Rightarrow> (Inr (), set_arena a (ar\<lparr>dev_arena_peak := 0\<rparr>) d)))"

definition is_stream_tracked :: "caller \<Rightarrow> 'u device_adaptor \<Rightarrow> bool" where
  "is_stream_tracked at d = (get_tracker_state at d \<noteq> None)"

section \<open>Reservations\<close>

definition dev_do_reserve :: "u64 \<Rightarrow> u64 \<Rightarrow> 'u device_adaptor \<Rightarrow> bool \<times> 'u device_adaptor" where
  "dev_do_reserve size_bytes limit_bytes d =
     (case try_add (total_allocated_bytes d) size_bytes limit_bytes of
        (ok, post) \<Rightarrow>
          (ok, if ok then d\<lparr>total_allocated_bytes := post,
                            peak_total_allocated_bytes := update_peak (peak_total_allocated_bytes d) post,
                            total_reserved_bytes := add (total_reserved_bytes d) size_bytes\<rparr>
               else d))"

definition dev_do_reserve_upto :: "u64 \<Rightarrow> u64 \<Rightarrow> 'u device_adaptor \<Rightarrow> u64 \<times> 'u device_adaptor" where
  "dev_do_reserve_upto size_bytes limit_bytes d =
     (case add_bounded (total_allocated_bytes d) size_bytes limit_bytes of
        (size_bytes, post) \<Rightarrow>
          (size_bytes,
           if post > 0
           then d\<lparr>total_allocated_bytes := post,
                  peak_total_allocated_bytes := update_peak (peak_total_allocated_bytes d) post,
                  total_reserved_bytes := add (total_reserved_bytes d) size_bytes\<rparr>
           else d\<lparr>total_allocated_bytes := post\<rparr>))"

definition new_device_arena :: "nat \<Rightarrow> u64 \<Rightarrow> 'u device_adaptor \<Rightarrow> 'u device_adaptor" where
  "new_device_arena a bytes d =
     set_arena a \<lparr>dev_arena_size = to_i64 bytes, dev_arena_allocated = 0, dev_arena_peak = 0\<rparr>
       (d\<lparr>number_of_allocations := add (number_of_allocations d) 1\<rparr>)"

definition dev_reserve :: "nat \<Rightarrow> u64 \<Rightarrow> 'u device_adaptor \<Rightarrow> nat option \<times> 'u device_adaptor" where
  "dev_reserve a bytes d =
     (case dev_do_reserve bytes (dev_memory_limit d) d of
        (True, d') \<Rightarrow> (Some a, new_device_arena a bytes d')
      | (False, d') \<Rightarrow> (None, d'))"

definition dev_reserve_upto :: "nat \<Rightarrow> u64 \<Rightarrow> 'u device_adaptor \<Rightarrow> nat option \<times> 'u device_adaptor" where
  "dev_reserve_upto a bytes d =
     (case dev_do_reserve_upto bytes (dev_memory_limit d) d of
        (reserved_size, d') \<Rightarrow> (Some a, new_device_arena a reserved_size d'))"

definition dev_grow_reservation_by ::
  "nat \<Rightarrow> u64 \<Rightarrow> 'u device_adaptor \<Rightarrow> bool \<times> 'u device_adaptor" where
  "dev_grow_reservation_by a bytes d =
     (case dev_do_reserve bytes (dev_memory_limit d) d of
        (True, d') \<Rightarrow>
          (True, (case map_of (dev_arenas d') a of
                    None \<Rightarrow> d'
                  | Some ar \<Rightarrow> set_arena a (ar\<lparr>dev_arena_size := dev_arena_size ar + to_i64 bytes\<rparr>) d'))
      | (False, d') \<Rightarrow> (False, d'))"

definition dev_shrink_reservation_to_fit :: "nat \<Rightarrow> 'u device_adaptor \<Rightarrow> 'u device_adaptor" where
  "dev_shrink_reservation_to_fit a d =
     (case map_of (dev_arenas d) a of
        None \<Rightarrow> d
      | Some ar \<Rightarrow>
          let current_bytes = max 0 (dev_arena_allocated ar)
          in if current_bytes < dev_arena_size ar
             then set_arena a (ar\<lparr>dev_arena_size := current_bytes\<rparr>)
                    (d\<lparr>total_allocated_bytes :=
                         sub (total_allocated_bytes d) (to_u64 (dev_arena_size ar - current_bytes))\<rparr>)
             else d)"

text \<open>\<open>~device_reserved_arena\<close>: the books of the adaptor, then the arena is gone.\<close>

definition dev_release_reservation :: "nat \<Rightarrow> 'u device_adaptor \<Rightarrow> 'u device_adaptor" where
  "dev_release_reservation a d =
     (case map_of (dev_arenas d) a of
        None \<Rightarrow> d
      | Some ar \<Rightarrow>
          let allocation_size = dev_arena_allocated ar;
              arena_size = dev_arena_size ar;
              released_bytes = (if arena_size > allocation_size
                                then to_u64 (arena_size - max 0 allocation_size) else 0)
          in d\<lparr>number_of_allocations := sub (number_of_allocations d) 1,
               total_reserved_bytes := sub (total_reserved_bytes d) (to_u64 (max 0 arena_size)),
               total_allocated_bytes := sub (total_allocated_bytes d) released_bytes,
               dev_arenas := alist_erase a (dev_arenas d)\<rparr>)"

section \<open>Trackers\<close>

text \<open>
  \<open>attach_reservation_to_tracker\<close>: \<open>arena\<close> is what the \<open>dynamic_cast\<close> of the released arena gives,
  null for an arena of another tier. The reservation is dropped without its arena. When the stream
  already has a state, the whole reservation is destroyed instead, and with it a device arena.
\<close>

definition attach_reservation_to_tracker ::
  "caller \<Rightarrow> nat option \<Rightarrow> reservation_limit_policy option \<Rightarrow> oom_handling_policy option \<Rightarrow>
   'u device_adaptor \<Rightarrow> bool \<times> 'u device_adaptor"
where
  "attach_reservation_to_tracker at arena policy oom d =
     (case get_tracker_state at d of
        Some _ \<Rightarrow> (False, (case arena of None \<Rightarrow> d | Some a \<Rightarrow> dev_release_reservation a d))
      | None \<Rightarrow>
          (True, d\<lparr>allocation_tracker :=
             alist_set (tracker_key d at)
               \<lparr>memory_reservation = arena,
                reservation_policy =
                  Some (case policy of None \<Rightarrow> make_default_reservation_limit_policy | Some p \<Rightarrow> p),
                oom_policy = (case oom of None \<Rightarrow> make_default_oom_policy | Some p \<Rightarrow> p)\<rparr>
               (allocation_tracker d)\<rparr>))"

definition reset_stream_reservation :: "caller \<Rightarrow> 'u device_adaptor \<Rightarrow> 'u device_adaptor" where
  "reset_stream_reservation at d =
     (case get_tracker_state at d of
        None \<Rightarrow> d
      | Some st \<Rightarrow>
          let d' = (case memory_reservation st of None \<Rightarrow> d | Some a \<Rightarrow> dev_release_reservation a d)
          in d'\<lparr>allocation_tracker := alist_erase (tracker_key d at) (allocation_tracker d')\<rparr>)"

section \<open>Allocation\<close>

definition arena_ops_of :: "nat \<Rightarrow> 'u device_adaptor arena_ops" where
  "arena_ops_of a =
     (\<lambda>d. case map_of (dev_arenas d) a of None \<Rightarrow> 0 | Some ar \<Rightarrow> dev_arena_size ar,
      dev_grow_reservation_by a)"

text \<open>
  \<open>check_reservation_and_handle_overflow\<close>: the size of the reservation is read once, before the
  policy runs; the tracker's counters are the arena's.
\<close>

definition check_reservation_and_handle_overflow ::
  "stream_ordered_tracker_state \<Rightarrow> u64 \<Rightarrow> 'u device_adaptor \<Rightarrow> u64 outcome \<times> 'u device_adaptor"
where
  "check_reservation_and_handle_overflow st allocation_size d =
     (case tracked_arena st d of
        Inl e \<Rightarrow> (Inl e, d)
      | Inr (a, ar) \<Rightarrow>
          let stream_tracking_size = to_i64 allocation_size;
              reservation_size = dev_arena_size ar;
              finish = (\<lambda>post_of d.
                (case map_of (dev_arenas d) a of
                   None \<Rightarrow> (Inl invalid_dereference, d)
                 | Some ar' \<Rightarrow>
                     let post = post_of ar';
                         pre = wrap_i64 (post - stream_tracking_size);
                         upstream_tracking_size =
                           (if post < reservation_size then 0
                            else if pre < reservation_size then to_u64 (post - reservation_size)
                            else allocation_size)
                     in (Inr upstream_tracking_size,
                         set_arena a (ar'\<lparr>dev_arena_allocated := post,
                                          dev_arena_peak := update_peak (dev_arena_peak ar') post\<rparr>) d)))
          in case try_add (dev_arena_allocated ar) stream_tracking_size reservation_size of
               (True, post) \<Rightarrow> finish (\<lambda>_. post) d
             | (False, post) \<Rightarrow>
                 (case (case reservation_policy st of
                          None \<Rightarrow> (Inr (), d)
                        | Some p \<Rightarrow> handle_over_reservation p (Some (arena_ops_of a)) allocation_size
                                      (to_u64 post) d) of
                    (Inl e, d') \<Rightarrow> (Inl e, d')
                  | (Inr _, d') \<Rightarrow>
                      finish (\<lambda>ar'. wrap_i64 (dev_arena_allocated ar' + stream_tracking_size)) d'))"

definition do_allocate_unmanaged ::
  "'u device_rmm \<Rightarrow> u64 \<Rightarrow> u64 \<Rightarrow> nat \<Rightarrow> 'u device_adaptor \<Rightarrow> u64 outcome \<times> 'u device_adaptor"
where
  "do_allocate_unmanaged env allocation_bytes tracking_bytes stream d =
     (case try_add (total_allocated_bytes d) tracking_bytes (dev_capacity d) of
        (False, post) \<Rightarrow>
          (Inl (cucascade_out_of_memory ''not enough capacity to allocate memory'' allocation_bytes post), d)
      | (True, post) \<Rightarrow>
          let d1 = d\<lparr>total_allocated_bytes := post,
                     peak_total_allocated_bytes := update_peak (peak_total_allocated_bytes d) post\<rparr>
          in case allocate_async env allocation_bytes stream (dev_upstream d1) of
               (Inr ptr, u) \<Rightarrow> (Inr ptr, d1\<lparr>dev_upstream := u\<rparr>)
             | (Inl what, u) \<Rightarrow>
                 (Inl (cucascade_out_of_memory what allocation_bytes post),
                  d1\<lparr>dev_upstream := u,
                     total_allocated_bytes := sub (total_allocated_bytes d1) tracking_bytes\<rparr>))"

definition do_allocate_managed_default ::
  "'u device_rmm \<Rightarrow> u64 \<Rightarrow> nat \<Rightarrow> 'u device_adaptor \<Rightarrow> u64 outcome \<times> 'u device_adaptor" where
  "do_allocate_managed_default env bytes stream d =
     (let tracking_size = dev_align_up env bytes 256
      in case do_allocate_unmanaged env bytes tracking_size stream d of
           (Inr ptr, d') \<Rightarrow> (Inr ptr, d')
         | (Inl e, d') \<Rightarrow>
             handle_oom (default_oom_policy d') bytes e
               (\<lambda>b. do_allocate_unmanaged env b tracking_size stream) d')"

definition do_allocate_managed_tracked ::
  "'u device_rmm \<Rightarrow> u64 \<Rightarrow> stream_ordered_tracker_state \<Rightarrow> nat \<Rightarrow> 'u device_adaptor \<Rightarrow>
   u64 outcome \<times> 'u device_adaptor"
where
  "do_allocate_managed_tracked env bytes st stream d =
     (let padded_bytes = dev_align_up env bytes CUDA_ALLOCATION_ALIGNMENT
      in case check_reservation_and_handle_overflow st padded_bytes d of
           (Inl e, d1) \<Rightarrow> (Inl e, d1)
         | (Inr tracking_size, d1) \<Rightarrow>
             (case do_allocate_unmanaged env bytes tracking_size stream d1 of
                (Inr ptr, d2) \<Rightarrow> (Inr ptr, d2)
              | (Inl e, d2) \<Rightarrow>
                  (case handle_oom (oom_policy st) bytes e
                          (\<lambda>b. do_allocate_unmanaged env b tracking_size stream) d2 of
                     (Inr ptr, d3) \<Rightarrow> (Inr ptr, d3)
                   | (Inl e', d3) \<Rightarrow>
                       (case tracked_arena st d3 of
                          Inl e'' \<Rightarrow> (Inl e'', d3)
                        | Inr (a, ar) \<Rightarrow>
                            (Inl e', set_arena a
                               (ar\<lparr>dev_arena_allocated :=
                                    wrap_i64 (dev_arena_allocated ar - to_i64 padded_bytes)\<rparr>) d3)))))"

definition dev_do_allocate ::
  "'u device_rmm \<Rightarrow> u64 \<Rightarrow> caller \<Rightarrow> 'u device_adaptor \<Rightarrow> u64 outcome \<times> 'u device_adaptor" where
  "dev_do_allocate env bytes at d =
     (case get_tracker_state at d of
        Some st \<Rightarrow> do_allocate_managed_tracked env bytes st (fst at) d
      | None \<Rightarrow> do_allocate_managed_default env bytes (fst at) d)"

definition dev_do_deallocate ::
  "'u device_rmm \<Rightarrow> u64 \<Rightarrow> u64 \<Rightarrow> caller \<Rightarrow> 'u device_adaptor \<Rightarrow> unit outcome \<times> 'u device_adaptor"
where
  "dev_do_deallocate env ptr bytes at d =
     (let tracking_bytes = dev_align_up env bytes CUDA_ALLOCATION_ALIGNMENT;
          finish = (\<lambda>reclaimed d.
            (Inr (), d\<lparr>dev_upstream := deallocate_async env ptr bytes (fst at) (dev_upstream d),
                       total_allocated_bytes := sub (total_allocated_bytes d) reclaimed\<rparr>))
      in case get_tracker_state at d of
           None \<Rightarrow> finish tracking_bytes d
         | Some st \<Rightarrow>
             (case tracked_arena st d of
                Inl e \<Rightarrow> (Inl e, d)
              | Inr (a, ar) \<Rightarrow>
                  let reservation_size = dev_arena_size ar;
                      post = wrap_i64 (dev_arena_allocated ar - to_i64 tracking_bytes);
                      pre = wrap_i64 (post + to_i64 tracking_bytes);
                      reclaimed = (if pre \<le> reservation_size then 0
                                   else if post < reservation_size then to_u64 (reservation_size - post)
                                   else tracking_bytes)
                  in finish reclaimed (set_arena a (ar\<lparr>dev_arena_allocated := post\<rparr>) d)))"

end
