(* ===== verification/Device_Guarantees.thy ===== *)
theory Device_Guarantees
  imports Device_Adaptor
begin

text \<open>
  What \<open>reservation_aware_resource_adaptor\<close> guarantees, and where its books drift: the reservation
  contract, the effect of an allocation on every branch of the overflow check, the fail policy, error
  paths, and the effect of allocating and freeing.
\<close>

section \<open>The reservation contract\<close>

interpretation device: reserving total_allocated_bytes dev_memory_limit "\<lambda>b d. b" dev_reserve dev_reserve_upto
proof
  fix d :: "'u device_adaptor" and b :: u64 and a :: nat
  note adds = try_add_u64 [of "total_allocated_bytes d" b "dev_memory_limit d"]
  show "\<exists>d'. dev_reserve a b d = (Some a, d') \<and> dev_memory_limit d' = dev_memory_limit d
      \<and> unat (total_allocated_bytes d') = unat (total_allocated_bytes d) + unat b"
    if "unat (total_allocated_bytes d) + unat b \<le> unat (dev_memory_limit d)"
    using that adds(1,2)
    by (auto simp: dev_reserve_def dev_do_reserve_def new_device_arena_def set_arena_def split: prod.splits)
  show "dev_reserve a b d = (None, d)"
    if "unat (dev_memory_limit d) < unat (total_allocated_bytes d) + unat b"
    using that adds(1) by (auto simp: dev_reserve_def dev_do_reserve_def split: prod.splits bool.splits)
  show "\<exists>d'. dev_reserve_upto a b d = (Some a, d') \<and> dev_memory_limit d' = dev_memory_limit d
      \<and> unat (total_allocated_bytes d') = unat (total_allocated_bytes d)
          + min (unat b) (unat (dev_memory_limit d) - unat (total_allocated_bytes d))"
    using add_bounded_u64 [of "total_allocated_bytes d" b "dev_memory_limit d"]
    by (auto simp: dev_reserve_upto_def dev_do_reserve_upto_def new_device_arena_def set_arena_def
        split: prod.splits)
qed

section \<open>A tracked stream\<close>

definition tracked ::
  "caller \<Rightarrow> 'u device_adaptor \<Rightarrow> stream_ordered_tracker_state \<Rightarrow> nat \<Rightarrow> device_reserved_arena \<Rightarrow> bool"
where
  "tracked at d st a ar \<longleftrightarrow> get_tracker_state at d = Some st \<and> memory_reservation st = Some a
     \<and> map_of (dev_arenas d) a = Some ar"

definition in_range :: "device_reserved_arena \<Rightarrow> u64 \<Rightarrow> bool" where
  "in_range ar n \<longleftrightarrow> 0 \<le> dev_arena_size ar \<and> dev_arena_size ar < 2 ^ 62
     \<and> 0 \<le> dev_arena_allocated ar \<and> dev_arena_allocated ar < 2 ^ 62 \<and> unat n < 2 ^ 62"

definition lenient :: "stream_ordered_tracker_state \<Rightarrow> bool" where
  "lenient st \<longleftrightarrow> reservation_policy st = None \<or> reservation_policy st = Some ignore_reservation_limit_policy"

text \<open>The bytes of a reservation and of what was allocated beyond it.\<close>

definition dev_footprint :: "device_reserved_arena \<Rightarrow> int" where
  "dev_footprint ar = max (dev_arena_size ar) (dev_arena_allocated ar)"

definition charged_arena :: "u64 \<Rightarrow> device_reserved_arena \<Rightarrow> device_reserved_arena" where
  "charged_arena n ar =
     ar\<lparr>dev_arena_allocated := dev_arena_allocated ar + int (unat n),
        dev_arena_peak := update_peak (dev_arena_peak ar) (dev_arena_allocated ar + int (unat n))\<rparr>"

lemma in_range_simps:
  assumes "in_range ar n"
  shows "to_i64 n = int (unat n)"
    and "wrap_i64 (dev_arena_allocated ar + int (unat n)) = dev_arena_allocated ar + int (unat n)"
    and "wrap_i64 (dev_arena_allocated ar) = dev_arena_allocated ar"
proof -
  have k: "int (unat n) < 2 ^ 62" using assms by (simp add: in_range_def del: of_nat_unat)
  show "to_i64 n = int (unat n)" using assms by (intro to_i64_small) (simp add: in_range_def)
  show "wrap_i64 (dev_arena_allocated ar + int (unat n)) = dev_arena_allocated ar + int (unat n)"
    using assms k by (intro wrap_i64_id) (auto simp: in_range_def simp del: of_nat_unat)
  show "wrap_i64 (dev_arena_allocated ar) = dev_arena_allocated ar"
    using assms by (intro wrap_i64_id) (auto simp: in_range_def)
qed

lemma tracked_arena_tracked: "tracked at d st a ar \<Longrightarrow> tracked_arena st d = Inr (a, ar)"
  by (simp add: tracked_def tracked_arena_def)

text \<open>
  The overflow check of a lenient stream: the arena takes the bytes, and what is left for the global
  counter is the growth of the footprint.
\<close>

lemma check_lenient:
  assumes t: "tracked at d st a ar" and r: "in_range ar n"
    and ok: "lenient st \<or> dev_arena_allocated ar + int (unat n) \<le> dev_arena_size ar"
  obtains tr where "check_reservation_and_handle_overflow st n d = (Inr tr, set_arena a (charged_arena n ar) d)"
    and "int (unat tr) = dev_footprint (charged_arena n ar) - dev_footprint ar"
proof -
  note i = in_range_simps [OF r]
  define k where "k = int (unat n)"
  have k: "0 \<le> k" "k < 2 ^ 62" using r by (simp_all add: k_def in_range_def del: of_nat_unat)
  let ?R = "dev_arena_size ar" and ?pre = "dev_arena_allocated ar" and ?post = "dev_arena_allocated ar + k"
  let ?tr = "if ?post < ?R then 0 else if ?pre < ?R then to_u64 (?post - ?R) else n"
  have m: "map_of (dev_arenas d) a = Some ar" using t by (simp add: tracked_def)
  have pre: "wrap_i64 (x - k) = ?pre" if "x = ?post" for x using that i by simp
  have zero: "n = 0" if "k = 0"
    using that unfolding k_def by (simp add: unat_eq_zero del: of_nat_unat)
  have run: "check_reservation_and_handle_overflow st n d = (Inr ?tr, set_arena a (charged_arena n ar) d)"
  proof (cases "?post \<le> ?R")
    case True
    then show ?thesis
      using m k i zero unfolding k_def [symmetric]
      by (auto simp: check_reservation_and_handle_overflow_def tracked_arena_tracked [OF t] try_add_int
          charged_arena_def k_def [symmetric] Let_def pre to_u64_def simp del: of_nat_unat)
  next
    case False
    with ok have "lenient st" unfolding k_def by simp
    with False show ?thesis
      using m k i unfolding k_def [symmetric]
      by (auto simp: check_reservation_and_handle_overflow_def tracked_arena_tracked [OF t] try_add_int
          charged_arena_def k_def [symmetric] Let_def lenient_def simp del: of_nat_unat)
  qed
  have u: "unat (to_u64 (?post - ?R)) = nat (?post - ?R)" if "?R \<le> ?post"
    using that r k by (intro unat_to_u64) (auto simp: in_range_def)
  have "int (unat ?tr) = dev_footprint (charged_arena n ar) - dev_footprint ar"
    using u k unfolding dev_footprint_def charged_arena_def k_def [symmetric]
    by (auto simp: k_def [symmetric] simp del: of_nat_unat)
  with that run show ?thesis by blast
qed

section \<open>The fail policy\<close>

lemma fail_policy_state:
  assumes t: "tracked at d st a ar" and r: "in_range ar (dev_align_up env bytes CUDA_ALLOCATION_ALIGNMENT)"
    and pol: "reservation_policy st = Some fail_reservation_limit_policy"
    and over: "dev_arena_size ar
         < dev_arena_allocated ar + int (unat (dev_align_up env bytes CUDA_ALLOCATION_ALIGNMENT))"
  shows "dev_do_allocate env bytes at d =
    (Inl (out_of_memory (fail_message (dev_align_up env bytes CUDA_ALLOCATION_ALIGNMENT)
            (to_u64 (dev_arena_size ar)) (to_u64 (dev_arena_allocated ar)))), d)"
proof -
  let ?n = "dev_align_up env bytes CUDA_ALLOCATION_ALIGNMENT"
  note i = in_range_simps [OF r]
  have "try_add (dev_arena_allocated ar) (to_i64 ?n) (dev_arena_size ar) = (False, dev_arena_allocated ar)"
    using over i by (simp add: try_add_int del: of_nat_unat)
  moreover have "max 0 (dev_arena_size ar) = dev_arena_size ar"
    using r by (simp add: in_range_def)
  moreover have "get_tracker_state at d = Some st" "map_of (dev_arenas d) a = Some ar"
    using t by (simp_all add: tracked_def)
  ultimately show ?thesis
    using pol
    by (simp add: dev_do_allocate_def do_allocate_managed_tracked_def arena_ops_of_def
        check_reservation_and_handle_overflow_def tracked_arena_tracked [OF t] Let_def)
qed

text \<open>
  Property C18. The fail policy enforces the reservation: on a stream with that policy, an allocation
  that does not fit in what is left of the reservation throws \<open>out_of_memory\<close> and changes nothing,
  neither the stream's counters nor the global one.
\<close>

theorem fail_policy_enforces_reservation:
  assumes "tracked at d st a ar" and "in_range ar (dev_align_up env bytes CUDA_ALLOCATION_ALIGNMENT)"
    and "reservation_policy st = Some fail_reservation_limit_policy"
    and "dev_arena_size ar
         < dev_arena_allocated ar + int (unat (dev_align_up env bytes CUDA_ALLOCATION_ALIGNMENT))"
  shows "dev_do_allocate env bytes at d =
    (Inl (out_of_memory (fail_message (dev_align_up env bytes CUDA_ALLOCATION_ALIGNMENT)
            (to_u64 (dev_arena_size ar)) (to_u64 (dev_arena_allocated ar)))), d)"
  by (rule fail_policy_state [OF assms])

section \<open>Failed allocations\<close>

lemma unmanaged_cases:
  assumes "do_allocate_unmanaged env bytes tr stream d = (r, d')"
  shows "dev_arenas d' = dev_arenas d" and "allocation_tracker d' = allocation_tracker d"
    and "tracking_scope d' = tracking_scope d" and "dev_capacity d' = dev_capacity d"
    and "total_allocated_bytes d' = (case r of Inl _ \<Rightarrow> total_allocated_bytes d
                                            | Inr _ \<Rightarrow> total_allocated_bytes d + tr)"
    and "returns r \<Longrightarrow> unat (total_allocated_bytes d') = unat (total_allocated_bytes d) + unat tr
                      \<and> total_allocated_bytes d' \<le> dev_capacity d"
proof -
  show "dev_arenas d' = dev_arenas d" "allocation_tracker d' = allocation_tracker d"
    "tracking_scope d' = tracking_scope d" "dev_capacity d' = dev_capacity d"
    using assms by (auto simp: do_allocate_unmanaged_def Let_def split: prod.splits sum.splits bool.splits)
  show "total_allocated_bytes d' = (case r of Inl _ \<Rightarrow> total_allocated_bytes d
                                          | Inr _ \<Rightarrow> total_allocated_bytes d + tr)"
    using assms by (auto simp: do_allocate_unmanaged_def Let_def try_add_def sub_def
        split: prod.splits sum.splits bool.splits if_splits)
  show "unat (total_allocated_bytes d') = unat (total_allocated_bytes d) + unat tr
      \<and> total_allocated_bytes d' \<le> dev_capacity d" if "returns r"
    using assms that try_add_u64 [of "total_allocated_bytes d" tr "dev_capacity d"]
      try_add_bound [of "total_allocated_bytes d" tr "dev_capacity d"]
    by (auto simp: do_allocate_unmanaged_def Let_def split: prod.splits sum.splits bool.splits)
qed

definition same_books :: "'u device_adaptor \<Rightarrow> 'u device_adaptor \<Rightarrow> bool" where
  "same_books d d' \<longleftrightarrow> total_allocated_bytes d' = total_allocated_bytes d
     \<and> (\<forall>a. map_option (\<lambda>ar. (dev_arena_size ar, dev_arena_allocated ar)) (map_of (dev_arenas d') a)
           = map_option (\<lambda>ar. (dev_arena_size ar, dev_arena_allocated ar)) (map_of (dev_arenas d) a))"

text \<open>
  An allocation on a tracked stream that the policy lets through ends as the charge of the global
  counter does; when it throws, the stream's counter is put back.
\<close>

lemma tracked_outcome:
  assumes t: "tracked at d st a ar" and r: "in_range ar (dev_align_up env bytes CUDA_ALLOCATION_ALIGNMENT)"
    and ok: "lenient st \<or> dev_arena_allocated ar
                + int (unat (dev_align_up env bytes CUDA_ALLOCATION_ALIGNMENT)) \<le> dev_arena_size ar"
    and run: "dev_do_allocate env bytes at d = (x, d')"
    and ch: "ch = charged_arena (dev_align_up env bytes CUDA_ALLOCATION_ALIGNMENT) ar"
  obtains tr d2 where "do_allocate_unmanaged env bytes tr (fst at) (set_arena a ch d) = (x, d2)"
    and "int (unat tr) = dev_footprint ch - dev_footprint ar"
    and "d' = (if returns x then d2
               else set_arena a (ch\<lparr>dev_arena_allocated := dev_arena_allocated ar\<rparr>) d2)"
proof -
  let ?n = "dev_align_up env bytes CUDA_ALLOCATION_ALIGNMENT"
  have st: "get_tracker_state at d = Some st" using t by (simp add: tracked_def)
  obtain tr where c: "check_reservation_and_handle_overflow st ?n d = (Inr tr, set_arena a ch d)"
    and tr: "int (unat tr) = dev_footprint ch - dev_footprint ar"
    unfolding ch by (rule check_lenient [OF t r ok])
  obtain y d2 where u: "do_allocate_unmanaged env bytes tr (fst at) (set_arena a ch d) = (y, d2)"
    by fastforce
  have "x = y \<and> d' = (if returns y then d2
      else set_arena a (ch\<lparr>dev_arena_allocated := dev_arena_allocated ar\<rparr>) d2)"
  proof (cases y)
    case (Inr ptr)
    with run st c u show ?thesis
      by (auto simp: dev_do_allocate_def do_allocate_managed_tracked_def Let_def)
  next
    case (Inl e)
    have "map_of (dev_arenas d2) a = Some ch"
      using unmanaged_cases(1) [OF u] by (simp add: set_arena_def)
    then have ta: "tracked_arena st d2 = Inr (a, ch)"
      using t by (simp add: tracked_arena_def tracked_def)
    have restored: "wrap_i64 (dev_arena_allocated ch - to_i64 ?n) = dev_arena_allocated ar"
      using in_range_simps [OF r] by (simp add: ch charged_arena_def del: of_nat_unat)
    show ?thesis
      using run st c u Inl ta restored
      by (cases "oom_policy st") (auto simp: dev_do_allocate_def do_allocate_managed_tracked_def Let_def)
  qed
  with u tr that show thesis by simp
qed

lemma failed_untracked_restores:
  assumes "dev_do_allocate env bytes at d = (Inl e, d')" and none: "get_tracker_state at d = None"
  shows "same_books d d'"
proof -
  obtain r d1 where u: "do_allocate_unmanaged env bytes (dev_align_up env bytes 256) (fst at) d = (r, d1)"
    by fastforce
  show ?thesis
  proof (cases r)
    case (Inl e1)
    obtain p where "default_oom_policy d1 = p" by simp
    then have "d' = d1"
      using assms(1) none u Inl
      by (cases p) (simp add: dev_do_allocate_def do_allocate_managed_default_def Let_def)
    with unmanaged_cases [OF u] Inl show ?thesis by (simp add: same_books_def)
  next
    case (Inr ptr)
    with assms(1) none u show ?thesis
      by (simp add: dev_do_allocate_def do_allocate_managed_default_def Let_def)
  qed
qed

text \<open>What the increase policy leaves when the adaptor grew the reservation \<open>a\<close> by \<open>g\<close> bytes.\<close>

definition grown_by :: "nat \<Rightarrow> u64 \<Rightarrow> 'u device_adaptor \<Rightarrow> 'u device_adaptor \<Rightarrow> bool" where
  "grown_by a g d dg \<longleftrightarrow> dev_grow_reservation_by a g d = (True, dg)"

lemma refused_growth: "dev_grow_reservation_by a g d = (False, d') \<Longrightarrow> d' = d"
  by (auto simp: dev_grow_reservation_by_def dev_do_reserve_def split: prod.splits bool.splits)

lemma grown_arena:
  assumes "grown_by a g d dg" and "map_of (dev_arenas d) a = Some ar"
  obtains ar' where "map_of (dev_arenas dg) a = Some ar'" and "dev_arena_allocated ar' = dev_arena_allocated ar"
  using assms
  by (auto simp: grown_by_def dev_grow_reservation_by_def dev_do_reserve_def set_arena_def
      split: prod.splits bool.splits)

text \<open>The reservation policy either throws on the books it found, or lets the allocation through.\<close>

lemma policy_outcome:
  assumes "handle_over_reservation p (Some (arena_ops_of a)) n c d = (x, d1)"
  shows "(\<not> returns x \<and> d1 = d)
    \<or> (returns x \<and> (d1 = d \<or> (\<exists>f allow g. p = increase_reservation_limit_policy f allow \<and> grown_by a g d d1)))"
proof (cases p)
  case (increase_reservation_limit_policy f allow)
  let ?x = "c + n - to_u64 (max 0 (fst (arena_ops_of a) d))"
  let ?p = "scale_bytes ?x f"
  show ?thesis
  proof (cases "fst (dev_grow_reservation_by a ?p d)")
    case True
    then obtain dg where "dev_grow_reservation_by a ?p d = (True, dg)" by (metis (full_types) prod.collapse)
    with assms increase_reservation_limit_policy show ?thesis
      by (auto simp: increase_over_reservation_def arena_ops_of_def grown_by_def Let_def)
  next
    case False
    then have no: "dev_grow_reservation_by a ?p d = (False, d)"
      using refused_growth by (metis (full_types) prod.collapse)
    show ?thesis
    proof (cases "fst (dev_grow_reservation_by a ?x d)")
      case True
      then obtain dg where "dev_grow_reservation_by a ?x d = (True, dg)" by (metis (full_types) prod.collapse)
      with no assms increase_reservation_limit_policy show ?thesis
        by (auto simp: increase_over_reservation_def arena_ops_of_def grown_by_def Let_def)
    next
      case False
      then have "dev_grow_reservation_by a ?x d = (False, d)"
        using refused_growth by (metis (full_types) prod.collapse)
      with no assms increase_reservation_limit_policy show ?thesis
        by (auto simp: increase_over_reservation_def arena_ops_of_def Let_def)
    qed
  qed
qed (use assms in \<open>auto simp: Let_def\<close>)

lemma check_outcome:
  assumes t: "tracked at d st a ar" and r: "in_range ar n"
    and run: "check_reservation_and_handle_overflow st n d = (x, d1)"
  shows "(\<not> returns x \<and> d1 = d) \<or>
    (\<exists>dg ar'. (dg = d \<or> (\<exists>f allow g. reservation_policy st = Some (increase_reservation_limit_policy f allow)
                                   \<and> grown_by a g d dg))
      \<and> map_of (dev_arenas dg) a = Some ar' \<and> dev_arena_allocated ar' = dev_arena_allocated ar
      \<and> d1 = set_arena a (charged_arena n ar') dg \<and> returns x)"
proof -
  note i = in_range_simps [OF r]
  have m: "map_of (dev_arenas d) a = Some ar" using t by (simp add: tracked_def)
  show ?thesis
  proof (cases "dev_arena_allocated ar + int (unat n) \<le> dev_arena_size ar")
    case True
    then have "d1 = set_arena a (charged_arena n ar) d \<and> returns x"
      using run m i
      by (auto simp: check_reservation_and_handle_overflow_def tracked_arena_tracked [OF t] try_add_int
          charged_arena_def Let_def simp del: of_nat_unat)
    with m show ?thesis by blast
  next
    case over: False
    obtain y d2 where h: "(case reservation_policy st of None \<Rightarrow> (Inr (), d)
        | Some p \<Rightarrow> handle_over_reservation p (Some (arena_ops_of a)) n (to_u64 (dev_arena_allocated ar)) d) = (y, d2)"
      by fastforce
    have out: "(\<not> returns y \<and> d2 = d) \<or> (returns y \<and> (d2 = d \<or> (\<exists>f allow g. reservation_policy st
        = Some (increase_reservation_limit_policy f allow) \<and> grown_by a g d d2)))"
      using h policy_outcome [of _ a n "to_u64 (dev_arena_allocated ar)" d y d2]
      by (cases "reservation_policy st") auto
    show ?thesis
    proof (cases y)
      case (Inl e)
      with over run h out i show ?thesis
        by (auto simp: check_reservation_and_handle_overflow_def tracked_arena_tracked [OF t] try_add_int
            Let_def simp del: of_nat_unat)
    next
      case (Inr u)
      with out have g: "d2 = d \<or> (\<exists>f allow g. reservation_policy st
          = Some (increase_reservation_limit_policy f allow) \<and> grown_by a g d d2)" by simp
      then obtain ar' where m2: "map_of (dev_arenas d2) a = Some ar'"
        and al: "dev_arena_allocated ar' = dev_arena_allocated ar"
        using m grown_arena by metis
      from over run h Inr i m2 al have "d1 = set_arena a (charged_arena n ar') d2 \<and> returns x"
        by (auto simp: check_reservation_and_handle_overflow_def tracked_arena_tracked [OF t] try_add_int
            charged_arena_def Let_def simp del: of_nat_unat)
      with g m2 al show ?thesis by blast
    qed
  qed
qed


section \<open>Allocating and freeing\<close>

lemma tracked_allocation:
  assumes t: "tracked at d st a ar" and r: "in_range ar (dev_align_up env bytes CUDA_ALLOCATION_ALIGNMENT)"
    and ok: "lenient st \<or> dev_arena_allocated ar
                + int (unat (dev_align_up env bytes CUDA_ALLOCATION_ALIGNMENT)) \<le> dev_arena_size ar"
    and run: "dev_do_allocate env bytes at d = (Inr ptr, d1)"
  shows "dev_arenas d1 = alist_set a (charged_arena (dev_align_up env bytes CUDA_ALLOCATION_ALIGNMENT) ar)
           (dev_arenas d)"
    and "allocation_tracker d1 = allocation_tracker d" and "tracking_scope d1 = tracking_scope d"
    and "int (unat (total_allocated_bytes d1)) = int (unat (total_allocated_bytes d))
           + dev_footprint (charged_arena (dev_align_up env bytes CUDA_ALLOCATION_ALIGNMENT) ar)
           - dev_footprint ar"
    and "total_allocated_bytes d1 \<le> dev_capacity d"
proof -
  define ch where "ch = charged_arena (dev_align_up env bytes CUDA_ALLOCATION_ALIGNMENT) ar"
  from tracked_outcome [OF t r ok run ch_def] obtain tr where
    u: "do_allocate_unmanaged env bytes tr (fst at) (set_arena a ch d) = (Inr ptr, d1)"
    and tr: "int (unat tr) = dev_footprint ch - dev_footprint ar"
    by (metis returns_simps(2))
  note cases = unmanaged_cases [OF u]
  show "dev_arenas d1 = alist_set a (charged_arena (dev_align_up env bytes CUDA_ALLOCATION_ALIGNMENT) ar)
      (dev_arenas d)"
    "allocation_tracker d1 = allocation_tracker d" "tracking_scope d1 = tracking_scope d"
    using cases(1-3) by (simp_all add: set_arena_def ch_def)
  show "int (unat (total_allocated_bytes d1)) = int (unat (total_allocated_bytes d))
      + dev_footprint (charged_arena (dev_align_up env bytes CUDA_ALLOCATION_ALIGNMENT) ar) - dev_footprint ar"
    "total_allocated_bytes d1 \<le> dev_capacity d"
    using cases(6) tr by (auto simp: set_arena_def ch_def simp del: of_nat_unat)
qed

text \<open>
  Allocating and freeing on a tracked stream, exactly. The stream's own counter comes
  back to where it was. The global counter does too, unless the allocation straddles the end of the
  reservation, beginning below it and ending above: then \<open>do_deallocate\<close> takes back the part inside
  the reservation instead of the part outside, which was charged, and the counter is off by
  \<open>pre + post - 2 * size\<close>, upwards or downwards.
\<close>

theorem device_free_after_allocate:
  assumes "tracked at d st a ar" and "in_range ar (dev_align_up env bytes CUDA_ALLOCATION_ALIGNMENT)"
    and "lenient st \<or> dev_arena_allocated ar
           + int (unat (dev_align_up env bytes CUDA_ALLOCATION_ALIGNMENT)) \<le> dev_arena_size ar"
    and "dev_do_allocate env bytes at d = (Inr ptr, d1)"
    and "dev_do_deallocate env ptr bytes at d1 = (r, d2)"
    and "pre = dev_arena_allocated ar"
    and "post = pre + int (unat (dev_align_up env bytes CUDA_ALLOCATION_ALIGNMENT))"
  shows "r = Inr ()
    \<and> map_option dev_arena_allocated (map_of (dev_arenas d2) a) = Some pre
    \<and> total_allocated_bytes d2 = total_allocated_bytes d
        + (if pre < dev_arena_size ar \<and> dev_arena_size ar < post
           then to_u64 (pre + post - 2 * dev_arena_size ar) else 0)"
proof -
  let ?n = "dev_align_up env bytes CUDA_ALLOCATION_ALIGNMENT" and ?R = "dev_arena_size ar"
  note al = tracked_allocation [OF assms(1-4)] and i = in_range_simps [OF assms(2)]
  define k where "k = int (unat ?n)"
  have k0: "0 \<le> k" and post: "post = pre + k" using assms(7) by (simp_all add: k_def del: of_nat_unat)
  have n: "?n = to_u64 k" by (simp add: k_def to_u64_def)
  let ?ar = "charged_arena ?n ar"
  have st: "get_tracker_state at d1 = Some st"
    using assms(1) al(2,3) by (simp add: tracked_def get_tracker_state_def tracker_key_def)
  have t1: "tracked_arena st d1 = Inr (a, ?ar)"
    using assms(1) al(1) by (simp add: tracked_def tracked_arena_def)
  have c: "total_allocated_bytes d1 = total_allocated_bytes d + to_u64 (dev_footprint ?ar - dev_footprint ar)"
  proof -
    have "to_u64 (int (unat (total_allocated_bytes d1)))
        = to_u64 (int (unat (total_allocated_bytes d)) + (dev_footprint ?ar - dev_footprint ar))"
      using al(4) by (simp add: add_diff_eq del: of_nat_unat)
    then show ?thesis by (simp add: to_u64_def)
  qed
  have fp: "dev_footprint ?ar = max ?R post" "dev_footprint ar = max ?R pre"
    using assms(6) by (simp_all add: dev_footprint_def charged_arena_def post k_def del: of_nat_unat)
  let ?reclaimed = "if post \<le> ?R then 0 else if pre < ?R then to_u64 (?R - pre) else ?n"
  have alloc: "dev_arena_allocated ?ar = post"
    using assms(6) by (simp add: charged_arena_def post k_def del: of_nat_unat)
  have w: "wrap_i64 (post - k) = pre" "wrap_i64 (pre + k) = post" "to_i64 ?n = k"
    using i assms(6) unfolding k_def [symmetric] by (simp_all add: post)
  have sz: "dev_arena_size ?ar = ?R" by (simp add: charged_arena_def)
  have r: "r = Inr ()" and ar2: "map_of (dev_arenas d2) a = Some (?ar\<lparr>dev_arena_allocated := pre\<rparr>)"
    and t2: "total_allocated_bytes d2 = total_allocated_bytes d1 - ?reclaimed"
    using assms(5) by (auto simp: dev_do_deallocate_def st t1 Let_def alloc w sz set_arena_def sub_def)
  have "to_u64 (max ?R post - max ?R pre) - ?reclaimed
      = (if pre < ?R \<and> ?R < post then to_u64 (pre + post - 2 * ?R) else 0)"
  proof (cases "post \<le> ?R")
    case True
    then have "max ?R post = ?R" "max ?R pre = ?R" using k0 post by simp_all
    with True show ?thesis by (simp add: to_u64_def)
  next
    case False
    then show ?thesis using k0 post n by (auto simp: to_u64_def max_def)
  qed
  with r ar2 t2 c fp show ?thesis by (simp add: algebra_simps)
qed

section \<open>The increase policy\<close>

lemma dev_grow_ok:
  assumes "dev_grow_reservation_by a b d = (True, d')" and "map_of (dev_arenas d) a = Some ar"
    and "unat b < 2 ^ 63"
  shows "d' = set_arena a (ar\<lparr>dev_arena_size := dev_arena_size ar + int (unat b)\<rparr>)
                (snd (dev_do_reserve b (dev_memory_limit d) d))"
    and "unat (total_allocated_bytes d') = unat (total_allocated_bytes d) + unat b"
proof -
  have i: "to_i64 b = int (unat b)" by (rule to_i64_small [OF assms(3)])
  have ok: "fst (try_add (total_allocated_bytes d) b (dev_memory_limit d))"
    using assms(1) by (auto simp: dev_grow_reservation_by_def dev_do_reserve_def split: prod.splits bool.splits)
  show eq: "d' = set_arena a (ar\<lparr>dev_arena_size := dev_arena_size ar + int (unat b)\<rparr>)
                (snd (dev_do_reserve b (dev_memory_limit d) d))"
    using assms(1,2) ok i
    by (auto simp: dev_grow_reservation_by_def dev_do_reserve_def simp del: of_nat_unat split: prod.splits)
  show "unat (total_allocated_bytes d') = unat (total_allocated_bytes d) + unat b"
    using try_add_u64(2) [OF ok] ok by (auto simp: eq set_arena_def dev_do_reserve_def split: prod.splits)
qed

text \<open>
  The increase policy charges twice. When it grows the reservation to make room for an
  allocation, the growth is charged to the global counter, and \<open>check_reservation_and_handle_overflow\<close>,
  which still compares with the old size, charges the bytes beyond the old size again: the counter
  rises by the growth and by these bytes, although all of the allocation is inside the reservation.
\<close>

theorem increase_policy_charges_twice:
  assumes "tracked at d st a ar" and "in_range ar (dev_align_up env bytes CUDA_ALLOCATION_ALIGNMENT)"
    and "reservation_policy st = Some (increase_reservation_limit_policy padding_factor allow)"
    and "n = int (unat (dev_align_up env bytes CUDA_ALLOCATION_ALIGNMENT))"
    and "dev_arena_allocated ar \<le> dev_arena_size ar"
    and "dev_arena_size ar < dev_arena_allocated ar + n"
    and "g = scale_bytes (to_u64 (dev_arena_allocated ar)
               + dev_align_up env bytes CUDA_ALLOCATION_ALIGNMENT - to_u64 (dev_arena_size ar))
               padding_factor"
    and "unat g < 2 ^ 62" and "fst (dev_grow_reservation_by a g d)"
    and "dev_do_allocate env bytes at d = (Inr ptr, d1)"
  shows "map_option (\<lambda>ar. (dev_arena_size ar, dev_arena_allocated ar)) (map_of (dev_arenas d1) a)
      = Some (dev_arena_size ar + int (unat g), dev_arena_allocated ar + n)
    \<and> int (unat (total_allocated_bytes d1)) = int (unat (total_allocated_bytes d))
        + int (unat g) + (dev_arena_allocated ar + n - dev_arena_size ar)"
proof -
  let ?n = "dev_align_up env bytes CUDA_ALLOCATION_ALIGNMENT" and ?R = "dev_arena_size ar"
  let ?pre = "dev_arena_allocated ar"
  note i = in_range_simps [OF assms(2), folded assms(4)]
  have n: "0 \<le> n" "n < 2 ^ 62" using assms(2,4) by (simp_all add: in_range_def del: of_nat_unat)
  have m: "map_of (dev_arenas d) a = Some ar" and st: "get_tracker_state at d = Some st"
    using assms(1) by (simp_all add: tracked_def)
  obtain dg where grow: "dev_grow_reservation_by a g d = (True, dg)"
    using assms(9) by (metis (full_types) prod.collapse)
  let ?ar = "ar\<lparr>dev_arena_size := ?R + int (unat g)\<rparr>"
  have dg: "dg = set_arena a ?ar (snd (dev_do_reserve g (dev_memory_limit d) d))"
    and tg: "unat (total_allocated_bytes dg) = unat (total_allocated_bytes d) + unat g"
    using dev_grow_ok [OF grow m] assms(8) by simp_all
  have mg: "map_of (dev_arenas dg) a = Some ?ar" by (simp add: dg set_arena_def)
  have mx: "max 0 ?R = ?R" using assms(2) by (simp add: in_range_def)
  have h: "handle_over_reservation (increase_reservation_limit_policy padding_factor allow)
      (Some (arena_ops_of a)) ?n (to_u64 ?pre) d = (Inr (), dg)"
    using grow m mx assms(7) by (simp add: increase_over_reservation_def arena_ops_of_def Let_def)
  let ?tr = "if ?pre < ?R then to_u64 (?pre + n - ?R) else ?n"
  let ?ar' = "?ar\<lparr>dev_arena_allocated := ?pre + n,
                 dev_arena_peak := update_peak (dev_arena_peak ar) (?pre + n)\<rparr>"
  have c: "check_reservation_and_handle_overflow st ?n d = (Inr ?tr, set_arena a ?ar' dg)"
    using m mg h i n assms(3,6)
    by (auto simp: check_reservation_and_handle_overflow_def tracked_arena_tracked [OF assms(1)]
        try_add_int Let_def)
  have tr: "int (unat ?tr) = ?pre + n - ?R"
  proof (cases "?pre < ?R")
    case True
    have "unat (to_u64 (?pre + n - ?R)) = nat (?pre + n - ?R)"
      using assms(2,6) n by (intro unat_to_u64) (auto simp: in_range_def)
    with True assms(6) show ?thesis by simp
  next
    case False
    with assms(4,5) show ?thesis by simp
  qed
  obtain x d2 where u: "do_allocate_unmanaged env bytes ?tr (fst at) (set_arena a ?ar' dg) = (x, d2)"
    by fastforce
  have x: "x = Inr ptr \<and> d2 = d1"
  proof (cases x)
    case (Inl e)
    with assms(10) st c u show ?thesis
      by (cases "oom_policy st")
         (auto simp: dev_do_allocate_def do_allocate_managed_tracked_def Let_def split: sum.splits prod.splits)
  next
    case (Inr p)
    with assms(10) st c u show ?thesis
      by (simp add: dev_do_allocate_def do_allocate_managed_tracked_def Let_def)
  qed
  note cs = unmanaged_cases(1,6) [OF u]
  have "map_of (dev_arenas d1) a = Some ?ar'" using cs(1) x by (simp add: set_arena_def)
  moreover have "unat (total_allocated_bytes d1) = unat (total_allocated_bytes dg) + unat ?tr"
    using cs(2) x by (simp add: set_arena_def)
  ultimately show ?thesis using tr tg by (simp del: of_nat_unat)
qed

text \<open>
  A block that is freed on a stream which charges something else. The allocation fits in the
  reservation of its stream and charges nothing to the global counter; the free on an untracked
  stream takes its bytes from the global counter, and leaves them in the use of the reservation.
\<close>

lemma free_elsewhere_shifts_counter:
  assumes "tracked at d st a ar" and "in_range ar (dev_align_up env bytes CUDA_ALLOCATION_ALIGNMENT)"
    and fits: "dev_arena_allocated ar + int (unat (dev_align_up env bytes CUDA_ALLOCATION_ALIGNMENT)) \<le> dev_arena_size ar"
    and run: "dev_do_allocate env bytes at d = (Inr ptr, d1)"
    and other: "get_tracker_state at' d1 = None"
    and free: "dev_do_deallocate env ptr bytes at' d1 = (r, d2)"
  shows "total_allocated_bytes d2
      = total_allocated_bytes d - dev_align_up env bytes CUDA_ALLOCATION_ALIGNMENT
    \<and> dev_arenas d2 = dev_arenas d1"
proof -
  let ?n = "dev_align_up env bytes CUDA_ALLOCATION_ALIGNMENT"
  have "dev_footprint (charged_arena ?n ar) = dev_footprint ar"
    using fits by (simp add: dev_footprint_def charged_arena_def del: of_nat_unat)
  with tracked_allocation(4) [OF assms(1,2) disjI2 [OF fits] run]
  have "int (unat (total_allocated_bytes d1)) = int (unat (total_allocated_bytes d))" by linarith
  then have "total_allocated_bytes d1 = total_allocated_bytes d" by (simp only: of_nat_eq_iff word_unat_eq_iff)
  with other free show ?thesis by (auto simp: dev_do_deallocate_def sub_def Let_def)
qed

section \<open>Concrete executions\<close>

definition plain_rmm :: "nat device_rmm" where
  "plain_rmm =
     \<lparr>dev_align_up = (\<lambda>n a. of_nat ((unat n + unat a - 1) div unat a * unat a)),
      allocate_async = (\<lambda>n stream u. (Inr (of_nat u), u + unat n)),
      deallocate_async = (\<lambda>p n stream u. u)\<rparr>"

definition stream_device :: "reservation_limit_policy \<Rightarrow> nat device_adaptor" where
  "stream_device p =
     (new_device_adaptor (memory_space_id GPU 0) 0 4096 4096 None None PER_STREAM)
       \<lparr>allocation_tracker := [(3, \<lparr>memory_reservation = Some 7, reservation_policy = Some p,
                                   oom_policy = throw_on_oom_policy\<rparr>)],
        total_reserved_bytes := 768, number_of_allocations := 1, total_allocated_bytes := 768,
        dev_arenas := [(7, \<lparr>dev_arena_size = 768, dev_arena_allocated = 0, dev_arena_peak = 0\<rparr>)]\<rparr>"

lemma stream_device_simps [simp]:
  "total_allocated_bytes (stream_device p) = 768" "dev_capacity (stream_device p) = 4096"
  "dev_upstream (stream_device p) = 0" "dev_memory_limit (stream_device p) = 4096"
  by (simp_all add: stream_device_def new_device_adaptor_def)

lemma stream_device_tracked:
  "tracked (3, 0) (stream_device p)
     \<lparr>memory_reservation = Some 7, reservation_policy = Some p, oom_policy = throw_on_oom_policy\<rparr> 7
     \<lparr>dev_arena_size = 768, dev_arena_allocated = 0, dev_arena_peak = 0\<rparr>"
  by (simp add: tracked_def stream_device_def new_device_adaptor_def get_tracker_state_def tracker_key_def)

lemma plain_align: "dev_align_up plain_rmm 1000 CUDA_ALLOCATION_ALIGNMENT = 1024"
  by (simp add: plain_rmm_def CUDA_ALLOCATION_ALIGNMENT_def)

lemma stream_device_range:
  "in_range \<lparr>dev_arena_size = 768, dev_arena_allocated = 0, dev_arena_peak = 0\<rparr>
     (dev_align_up plain_rmm 1000 CUDA_ALLOCATION_ALIGNMENT)"
  by (simp add: in_range_def plain_align)

theorem fail_policy_enforces_reservation_witness:
  "fst (dev_do_allocate plain_rmm 1000 (3, 0) (stream_device fail_reservation_limit_policy))
     = Inl (out_of_memory (fail_message 1024 768 0))
   \<and> snd (dev_do_allocate plain_rmm 1000 (3, 0) (stream_device fail_reservation_limit_policy))
     = stream_device fail_reservation_limit_policy"
  using fail_policy_enforces_reservation [OF stream_device_tracked stream_device_range]
  by (simp add: plain_align to_u64_def)


lemma stream_device_allocates:
  "\<exists>d1. dev_do_allocate plain_rmm 1000 (3, 0) (stream_device ignore_reservation_limit_policy) = (Inr 0, d1)"
proof -
  let ?st = "\<lparr>memory_reservation = Some 7, reservation_policy = Some ignore_reservation_limit_policy,
              oom_policy = throw_on_oom_policy\<rparr>"
  let ?ar = "\<lparr>dev_arena_size = 768, dev_arena_allocated = 0, dev_arena_peak = 0 :: int\<rparr>"
  let ?d = "stream_device ignore_reservation_limit_policy"
  obtain tr where c: "check_reservation_and_handle_overflow ?st 1024 ?d
      = (Inr tr, set_arena 7 (charged_arena 1024 ?ar) ?d)"
    and tr: "int (unat tr) = dev_footprint (charged_arena 1024 ?ar) - dev_footprint ?ar"
    by (rule check_lenient [OF stream_device_tracked, of 1024 ignore_reservation_limit_policy])
       (simp_all add: in_range_def lenient_def)
  have "uint tr = 256" using tr by (simp add: dev_footprint_def charged_arena_def)
  then have "tr = 256" by (simp add: word_uint_eq_iff)
  moreover have "\<exists>d1. do_allocate_unmanaged plain_rmm 1000 256 3 (set_arena 7 (charged_arena 1024 ?ar) ?d)
      = (Inr 0, d1)"
    by (simp add: do_allocate_unmanaged_def try_add_def plain_rmm_def set_arena_def stream_device_def
        new_device_adaptor_def)
  moreover have "get_tracker_state (3, 0) ?d = Some ?st"
    using stream_device_tracked [of ignore_reservation_limit_policy] by (simp add: tracked_def)
  ultimately show ?thesis using c
    by (auto simp: dev_do_allocate_def do_allocate_managed_tracked_def plain_align Let_def)
qed

theorem device_free_after_allocate_witness:
  "\<exists>d1 d2. dev_do_allocate plain_rmm 1000 (3, 0) (stream_device ignore_reservation_limit_policy) = (Inr 0, d1)
     \<and> dev_do_deallocate plain_rmm 0 1000 (3, 0) d1 = (Inr (), d2)
     \<and> total_allocated_bytes d2 = 256"
proof -
  obtain d1 where a: "dev_do_allocate plain_rmm 1000 (3, 0) (stream_device ignore_reservation_limit_policy)
      = (Inr 0, d1)"
    using stream_device_allocates by blast
  obtain r d2 where f: "dev_do_deallocate plain_rmm 0 1000 (3, 0) d1 = (r, d2)" by fastforce
  have lenient: "lenient \<lparr>memory_reservation = Some 7,
      reservation_policy = Some ignore_reservation_limit_policy, oom_policy = throw_on_oom_policy\<rparr>"
    by (simp add: lenient_def)
  have "r = Inr () \<and> map_option dev_arena_allocated (map_of (dev_arenas d2) 7) = Some 0
      \<and> total_allocated_bytes d2
        = total_allocated_bytes (stream_device ignore_reservation_limit_policy) + to_u64 (0 + 1024 - 2 * 768)"
    using device_free_after_allocate [OF stream_device_tracked stream_device_range disjI1 [OF lenient] a f
        refl refl]
    by (simp add: plain_align)
  then have "r = Inr ()" and "total_allocated_bytes d2 = 256"
    by (simp_all add: stream_device_def to_u64_def)
  with a f show ?thesis by blast
qed

lemma padded_growth: "scale_bytes (to_u64 0 + 1024 - to_u64 768) (Dbl 5 (- 2)) = 320"
  by (simp add: to_u64_def scale_bytes_def dbl_mult_def dbl_of_u64_def round_dbl_def rounded_mant_small
      excess_small dbl_to_u64_def dbl_trunc_def)

lemma growing_device_allocates:
  "\<exists>d1. dev_do_allocate plain_rmm 1000 (3, 0)
      (stream_device (increase_reservation_limit_policy (Dbl 5 (- 2)) False)) = (Inr 0, d1)"
proof -
  let ?p = "increase_reservation_limit_policy (Dbl 5 (- 2)) False" and ?d = "stream_device"
  let ?st = "\<lparr>memory_reservation = Some 7, reservation_policy = Some ?p, oom_policy = throw_on_oom_policy\<rparr>"
  have st: "get_tracker_state (3, 0) (?d ?p) = Some ?st"
    using stream_device_tracked [of ?p] by (simp add: tracked_def)
  have grow: "dev_grow_reservation_by 7 320 (?d ?p) = (True, (?d ?p)\<lparr>total_allocated_bytes := 1088,
      peak_total_allocated_bytes := 1088, total_reserved_bytes := 1088,
      dev_arenas := [(7, \<lparr>dev_arena_size = 1088, dev_arena_allocated = 0, dev_arena_peak = 0\<rparr>)]\<rparr>)"
    by (simp add: dev_grow_reservation_by_def dev_do_reserve_def try_add_def stream_device_def
        new_device_adaptor_def set_arena_def update_peak_def add_def to_i64_def)
  obtain f :: "nat device_adaptor \<Rightarrow> int" where sz: "arena_ops_of 7 = (f, dev_grow_reservation_by 7)"
    "f (?d ?p) = 768"
    by (simp add: arena_ops_of_def stream_device_def)
  have h: "handle_over_reservation ?p (Some (arena_ops_of 7)) 1024 (to_u64 0) (?d ?p)
      = (Inr (), snd (dev_grow_reservation_by 7 320 (?d ?p)))"
    using grow sz padded_growth by (simp add: increase_over_reservation_def Let_def)
  have "\<exists>d2. check_reservation_and_handle_overflow ?st 1024 (?d ?p) = (Inr 256, d2)
      \<and> total_allocated_bytes d2 = 1088 \<and> dev_capacity d2 = 4096 \<and> dev_upstream d2 = 0"
    using h grow
    by (simp add: check_reservation_and_handle_overflow_def tracked_arena_tracked [OF stream_device_tracked]
        try_add_int to_i64_def Let_def wrap_i64_def to_u64_def set_arena_def)
  then obtain d2 where c: "check_reservation_and_handle_overflow ?st 1024 (?d ?p) = (Inr 256, d2)"
    and d2: "total_allocated_bytes d2 = 1088" "dev_capacity d2 = 4096" "dev_upstream d2 = 0" by blast
  have "\<exists>d1. do_allocate_unmanaged plain_rmm 1000 256 3 d2 = (Inr 0, d1)"
    using d2 by (simp add: do_allocate_unmanaged_def try_add_def plain_rmm_def Let_def)
  with st c show ?thesis
    by (auto simp: dev_do_allocate_def do_allocate_managed_tracked_def plain_align Let_def)
qed

theorem increase_policy_charges_twice_witness:
  "\<exists>d1. dev_do_allocate plain_rmm 1000 (3, 0)
        (stream_device (increase_reservation_limit_policy (Dbl 5 (- 2)) False)) = (Inr 0, d1)
     \<and> int (unat (total_allocated_bytes d1)) = 768 + 320 + 256"
proof -
  let ?p = "increase_reservation_limit_policy (Dbl 5 (- 2)) False"
  obtain d1 where run: "dev_do_allocate plain_rmm 1000 (3, 0) (stream_device ?p) = (Inr 0, d1)"
    using growing_device_allocates by blast
  have grows: "fst (dev_grow_reservation_by 7 320 (stream_device ?p))"
    by (simp add: dev_grow_reservation_by_def dev_do_reserve_def try_add_def stream_device_def
        new_device_adaptor_def)
  have "int (unat (total_allocated_bytes d1))
      = int (unat (total_allocated_bytes (stream_device ?p))) + int (unat (320 :: u64)) + (0 + 1024 - 768)"
    using increase_policy_charges_twice [OF stream_device_tracked stream_device_range _ _ _ _ _ _ grows run,
        of "Dbl 5 (- 2)" False 1024] padded_growth
    by (simp add: plain_align)
  with run show ?thesis by (simp add: stream_device_def)
qed

end
