(* ===== verification/Device_Accounting.thy ===== *)
theory Device_Accounting
  imports Device_Guarantees
begin

text \<open>
  The books of \<open>reservation_aware_resource_adaptor\<close> over whole runs. One counter is charged by
  reservations, by the part of a tracked allocation that its reservation does not cover and by
  untracked allocations, and these charges have to come off it in whatever order reservations and
  allocations end. \<open>dev_accounted\<close> is what the counter should hold; \<open>dev_inv\<close> relates the two, one
  lemma per operation shows that it is kept, and \<open>device_step\<close> collects the operations.

  The steps leave out the two places where \<open>Device_Guarantees\<close> shows the counter to drift: a free
  that straddles the end of its reservation, and an allocation that makes the increase policy grow
  it. A block is freed on a stream that charges what the allocation was charged to.
\<close>

section \<open>The accounting\<close>

text \<open>A live block: its pointer, its padded size, and the arena it was charged to.\<close>

type_synonym dev_block = "u64 \<times> u64 \<times> nat option"

definition block_bytes :: "dev_block \<Rightarrow> nat" where
  "block_bytes x = unat (fst (snd x))"

definition owned_by :: "nat \<Rightarrow> dev_block \<Rightarrow> bool" where
  "owned_by a x = (snd (snd x) = Some a)"

definition unowned :: "(nat \<times> device_reserved_arena) list \<Rightarrow> dev_block \<Rightarrow> bool" where
  "unowned rs x = (case snd (snd x) of None \<Rightarrow> True | Some a \<Rightarrow> map_of rs a = None)"

definition held :: "device_reserved_arena \<Rightarrow> nat" where
  "held ar = nat (dev_footprint ar)"

definition dev_accounted :: "'u device_adaptor \<Rightarrow> dev_block list \<Rightarrow> nat" where
  "dev_accounted d ls =
     alist_sum held (dev_arenas d) + sum_where block_bytes (unowned (dev_arenas d)) ls"

definition dev_inv :: "'u device_adaptor \<Rightarrow> dev_block list \<Rightarrow> bool" where
  "dev_inv d ls \<longleftrightarrow>
     dev_memory_limit d \<le> dev_capacity d \<and> unat (dev_capacity d) < 2 ^ 62
     \<and> distinct (map fst (dev_arenas d))
     \<and> (\<forall>a ar. map_of (dev_arenas d) a = Some ar \<longrightarrow>
          0 \<le> dev_arena_size ar \<and> 0 \<le> dev_arena_allocated ar
          \<and> sum_where block_bytes (owned_by a) ls = nat (dev_arena_allocated ar))
     \<and> unat (total_allocated_bytes d) = dev_accounted d ls
     \<and> total_allocated_bytes d \<le> dev_capacity d
     \<and> number_of_allocations d = of_nat (length (dev_arenas d))"

lemma unowned_same_keys:
  "(\<And>a. map_of rs a = None \<longleftrightarrow> map_of rs' a = None) \<Longrightarrow> unowned rs = unowned rs'"
  by (auto simp: unowned_def fun_eq_iff split: option.splits)

lemma unowned_alist_set [simp]:
  "map_of rs a = Some ar \<Longrightarrow> unowned (alist_set a ar' rs) = unowned rs"
  by (rule unowned_same_keys) auto

section \<open>Reading the invariant\<close>

lemma dev_inv_arena:
  assumes "dev_inv d ls" and "map_of (dev_arenas d) a = Some ar"
  shows "0 \<le> dev_arena_size ar" and "0 \<le> dev_arena_allocated ar"
    and "sum_where block_bytes (owned_by a) ls = nat (dev_arena_allocated ar)"
    and "held ar \<le> unat (total_allocated_bytes d)"
    and "dev_arena_size ar < 2 ^ 62" and "dev_arena_allocated ar < 2 ^ 62"
proof -
  show n: "0 \<le> dev_arena_size ar" "0 \<le> dev_arena_allocated ar"
    "sum_where block_bytes (owned_by a) ls = nat (dev_arena_allocated ar)"
    using assms by (auto simp: dev_inv_def)
  show h: "held ar \<le> unat (total_allocated_bytes d)"
    using alist_sum_ge [OF assms(2), of held] assms(1) by (simp add: dev_inv_def dev_accounted_def)
  also have "\<dots> < 2 ^ 62" using assms(1) by (auto simp: dev_inv_def word_le_nat_alt)
  finally show "dev_arena_size ar < 2 ^ 62" "dev_arena_allocated ar < 2 ^ 62"
    using n by (auto simp: held_def dev_footprint_def)
qed

lemma dev_inv_in_range:
  "dev_inv d ls \<Longrightarrow> map_of (dev_arenas d) a = Some ar \<Longrightarrow> unat n < 2 ^ 62 \<Longrightarrow> in_range ar n"
  using dev_inv_arena [of d ls a ar] by (simp add: in_range_def)

section \<open>Preservation\<close>

text \<open>What the operations on the books never change, and the three ways in which they change the rest.\<close>

definition same_limits :: "'u device_adaptor \<Rightarrow> 'u device_adaptor \<Rightarrow> bool" where
  "same_limits d d' \<longleftrightarrow> dev_memory_limit d' = dev_memory_limit d \<and> dev_capacity d' = dev_capacity d"

lemma dev_inv_arena_change:
  assumes inv: "dev_inv d ls" and a: "map_of (dev_arenas d) a = Some ar"
    and cfg: "same_limits d d'" "number_of_allocations d' = number_of_allocations d"
    and arenas: "dev_arenas d' = alist_set a ar' (dev_arenas d)"
    and nonneg: "0 \<le> dev_arena_size ar'" "0 \<le> dev_arena_allocated ar'"
    and counter: "unat (total_allocated_bytes d') + held ar = unat (total_allocated_bytes d) + held ar'"
    and cap: "total_allocated_bytes d' \<le> dev_capacity d"
    and this_arena: "sum_where block_bytes (owned_by a) ls' = nat (dev_arena_allocated ar')"
    and others: "\<And>a'. a' \<noteq> a \<Longrightarrow> sum_where block_bytes (owned_by a') ls'
                                 = sum_where block_bytes (owned_by a') ls"
    and loose: "sum_where block_bytes (unowned (dev_arenas d)) ls'
              = sum_where block_bytes (unowned (dev_arenas d)) ls"
  shows "dev_inv d' ls'"
proof -
  have "dev_accounted d' ls' + held ar = dev_accounted d ls + held ar'"
    using alist_sum_set [OF a, of held ar'] arenas loose a by (simp add: dev_accounted_def)
  moreover have "unat (total_allocated_bytes d) = dev_accounted d ls" using inv by (simp add: dev_inv_def)
  ultimately have "unat (total_allocated_bytes d') = dev_accounted d' ls'" using counter by linarith
  moreover have "length (dev_arenas d') = length (dev_arenas d)"
    unfolding arenas by (rule length_alist_set_old [OF a])
  ultimately show ?thesis
    using inv cfg nonneg cap this_arena others
    by (auto simp: dev_inv_def same_limits_def arenas distinct_alist_set)
qed

lemma dev_inv_loose_change:
  assumes inv: "dev_inv d ls" and cfg: "same_limits d d'" "number_of_allocations d' = number_of_allocations d"
    and arenas: "dev_arenas d' = dev_arenas d"
    and counter: "unat (total_allocated_bytes d') + sum_where block_bytes (unowned (dev_arenas d)) ls
                = unat (total_allocated_bytes d) + sum_where block_bytes (unowned (dev_arenas d)) ls'"
    and cap: "total_allocated_bytes d' \<le> dev_capacity d"
    and bound: "\<And>a ar. map_of (dev_arenas d) a = Some ar \<Longrightarrow>
      sum_where block_bytes (owned_by a) ls' = sum_where block_bytes (owned_by a) ls"
  shows "dev_inv d' ls'"
proof -
  have "unat (total_allocated_bytes d') = dev_accounted d' ls'"
    using inv counter arenas by (simp add: dev_inv_def dev_accounted_def)
  then show ?thesis
    using inv cfg cap bound by (auto simp: dev_inv_def same_limits_def arenas)
qed

lemma dev_inv_same:
  assumes "dev_inv d ls" and "same_limits d d'" and "number_of_allocations d' = number_of_allocations d"
    and "dev_arenas d' = dev_arenas d" and "total_allocated_bytes d' = total_allocated_bytes d"
  shows "dev_inv d' ls"
  using assms by (intro dev_inv_loose_change [OF assms(1,2,3)]) (auto simp: dev_inv_def)

definition unused_arena :: "nat \<Rightarrow> 'u device_adaptor \<Rightarrow> dev_block list \<Rightarrow> bool" where
  "unused_arena a d ls \<longleftrightarrow> map_of (dev_arenas d) a = None \<and> (\<forall>x \<in> set ls. \<not> owned_by a x)"

lemma new_arena_preserves:
  assumes inv: "dev_inv d ls" and fresh: "unused_arena a d ls" and cfg: "same_limits d d'"
    and same: "number_of_allocations d' = number_of_allocations d" "dev_arenas d' = dev_arenas d"
    and counter: "unat (total_allocated_bytes d') = unat (total_allocated_bytes d) + unat bytes"
    and cap: "total_allocated_bytes d' \<le> dev_capacity d"
  shows "dev_inv (new_device_arena a bytes d') ls"
proof -
  let ?ar = "\<lparr>dev_arena_size = to_i64 bytes, dev_arena_allocated = 0, dev_arena_peak = 0\<rparr>"
  let ?d = "new_device_arena a bytes d'"
  from cap inv have "unat bytes < 2 ^ 62"
    using counter by (auto simp: dev_inv_def word_le_nat_alt)
  then have size: "to_i64 bytes = int (unat bytes)" by (simp add: to_i64_small)
  from fresh have new: "map_of (dev_arenas d) a = None" and unused: "\<And>x. x \<in> set ls \<Longrightarrow> \<not> owned_by a x"
    by (auto simp: unused_arena_def)
  have arenas: "dev_arenas ?d = alist_set a ?ar (dev_arenas d)"
    by (simp add: new_device_arena_def set_arena_def same)
  have "sum_where block_bytes (unowned (alist_set a ?ar (dev_arenas d))) ls
      = sum_where block_bytes (unowned (dev_arenas d)) ls"
    using unused by (intro sum_where_cong) (auto simp: unowned_def owned_by_def split: option.splits)
  then have "dev_accounted ?d ls = dev_accounted d ls + unat bytes"
    using alist_sum_new [OF new, of held] by (simp add: dev_accounted_def arenas held_def dev_footprint_def size)
  moreover have "sum_where block_bytes (owned_by a) ls = 0" by (rule sum_where_none [OF unused])
  moreover have "length (dev_arenas ?d) = length (dev_arenas d) + 1"
    unfolding arenas by (simp add: length_alist_set_new [OF new])
  ultimately show ?thesis
    using inv cfg counter cap same
    by (auto simp: dev_inv_def same_limits_def new_device_arena_def set_arena_def add_def size distinct_alist_set)
qed

lemma dev_do_reserve_cases:
  assumes "dev_do_reserve b lim d = (ok, d')"
  shows "same_limits d d'" and "number_of_allocations d' = number_of_allocations d"
    and "dev_arenas d' = dev_arenas d"
    and "ok \<Longrightarrow> unat (total_allocated_bytes d') = unat (total_allocated_bytes d) + unat b
              \<and> total_allocated_bytes d' \<le> lim"
    and "\<not> ok \<Longrightarrow> d' = d"
  using assms try_add_u64 [of "total_allocated_bytes d" b lim] try_add_bound [of "total_allocated_bytes d" b lim]
  by (auto simp: dev_do_reserve_def same_limits_def split: prod.splits if_splits)

lemma dev_reserve_preserves:
  assumes inv: "dev_inv d ls" and fresh: "unused_arena a d ls" and r: "dev_reserve a b d = (r, d')"
  shows "dev_inv d' ls"
proof -
  obtain ok d1 where d1: "dev_do_reserve b (dev_memory_limit d) d = (ok, d1)" by fastforce
  note c = dev_do_reserve_cases [OF d1]
  show ?thesis
  proof (cases ok)
    case True
    with c(4) inv have "total_allocated_bytes d1 \<le> dev_capacity d" by (auto simp: dev_inv_def)
    with True d1 r c show ?thesis
      by (auto simp: dev_reserve_def intro: new_arena_preserves [OF inv fresh])
  next
    case False
    with d1 r c(5) inv show ?thesis by (auto simp: dev_reserve_def)
  qed
qed

lemma dev_reserve_upto_preserves:
  assumes inv: "dev_inv d ls" and fresh: "unused_arena a d ls" and r: "dev_reserve_upto a b d = (r, d')"
  shows "dev_inv d' ls"
proof -
  obtain got d1 where d1: "dev_do_reserve_upto b (dev_memory_limit d) d = (got, d1)" by fastforce
  have c: "same_limits d d1" "number_of_allocations d1 = number_of_allocations d" "dev_arenas d1 = dev_arenas d"
    "unat (total_allocated_bytes d1) = unat (total_allocated_bytes d) + unat got"
    "unat got \<le> unat (dev_memory_limit d) - unat (total_allocated_bytes d)"
    using d1 add_bounded_u64 [of "total_allocated_bytes d" b "dev_memory_limit d"]
    by (auto simp: dev_do_reserve_upto_def same_limits_def split: prod.splits if_splits)
  have "total_allocated_bytes d1 \<le> dev_capacity d"
    using c(4,5) inv by (auto simp: dev_inv_def word_le_nat_alt)
  with d1 r c show ?thesis
    by (auto simp: dev_reserve_upto_def intro: new_arena_preserves [OF inv fresh])
qed

lemma dev_grow_preserves:
  assumes inv: "dev_inv d ls" and a: "map_of (dev_arenas d) a = Some ar"
    and within: "dev_arena_allocated ar \<le> dev_arena_size ar"
    and r: "dev_grow_reservation_by a b d = (ok, d')"
  shows "dev_inv d' ls"
proof -
  obtain ok1 d1 where d1: "dev_do_reserve b (dev_memory_limit d) d = (ok1, d1)" by fastforce
  note c = dev_do_reserve_cases [OF d1] and ar = dev_inv_arena [OF inv a]
  show ?thesis
  proof (cases ok1)
    case False
    with d1 r c(5) inv show ?thesis by (auto simp: dev_grow_reservation_by_def)
  next
    case True
    have cap: "total_allocated_bytes d1 \<le> dev_capacity d" using c(4) True inv by (auto simp: dev_inv_def)
    then have "unat b < 2 ^ 62" using c(4) True inv by (auto simp: dev_inv_def word_le_nat_alt)
    then have size: "to_i64 b = int (unat b)" by (simp add: to_i64_small)
    let ?ar = "ar\<lparr>dev_arena_size := dev_arena_size ar + int (unat b)\<rparr>"
    have d': "d' = set_arena a ?ar d1"
      using True d1 r a c(3) size by (auto simp: dev_grow_reservation_by_def simp del: of_nat_unat)
    show ?thesis
    proof (rule dev_inv_arena_change [OF inv a])
      show "same_limits d d'" "number_of_allocations d' = number_of_allocations d"
        "dev_arenas d' = alist_set a ?ar (dev_arenas d)" "total_allocated_bytes d' \<le> dev_capacity d"
        using c(1-3) cap by (simp_all add: d' set_arena_def same_limits_def)
      show "unat (total_allocated_bytes d') + held ar = unat (total_allocated_bytes d) + held ?ar"
        using c(4) True within ar(1,2)
        by (simp add: d' set_arena_def held_def dev_footprint_def nat_add_distrib del: of_nat_unat)
    qed (use ar in simp_all)
  qed
qed

lemma unat_sub_to_u64:
  assumes "0 \<le> i" and "nat i \<le> unat (c :: u64)"
  shows "unat (sub c (to_u64 i)) = unat c - nat i"
proof -
  have "nat i < 2 ^ 64" by (rule order_le_less_trans [OF assms(2) unat_u64_less])
  then have "i < 2 ^ 64" by (simp only: nat_less_numeral_power_cancel_iff)
  with assms(1) have "unat (to_u64 i) = nat i" by (rule unat_to_u64)
  with assms(2) show ?thesis by (simp add: sub_def unat_sub_exact)
qed

lemma dev_shrink_preserves:
  assumes inv: "dev_inv d ls"
  shows "dev_inv (dev_shrink_reservation_to_fit a d) ls"
proof (cases "map_of (dev_arenas d) a")
  case None
  with inv show ?thesis by (simp add: dev_shrink_reservation_to_fit_def)
next
  case (Some ar)
  note ar = dev_inv_arena [OF inv Some]
  show ?thesis
  proof (cases "dev_arena_allocated ar < dev_arena_size ar")
    case False
    with Some ar inv show ?thesis by (simp add: dev_shrink_reservation_to_fit_def)
  next
    case True
    let ?ar = "ar\<lparr>dev_arena_size := dev_arena_allocated ar\<rparr>"
    let ?d = "dev_shrink_reservation_to_fit a d"
    have d: "?d = set_arena a ?ar (d\<lparr>total_allocated_bytes :=
        sub (total_allocated_bytes d) (to_u64 (dev_arena_size ar - dev_arena_allocated ar))\<rparr>)"
      using Some True ar(2) by (simp add: dev_shrink_reservation_to_fit_def Let_def)
    have h: "held ar = nat (dev_arena_size ar)" "held ?ar = nat (dev_arena_allocated ar)"
      using True by (simp_all add: held_def dev_footprint_def)
    have u: "unat (total_allocated_bytes ?d)
        = unat (total_allocated_bytes d) - nat (dev_arena_size ar - dev_arena_allocated ar)"
      using True ar(2,4) h unat_sub_to_u64 [of "dev_arena_size ar - dev_arena_allocated ar" "total_allocated_bytes d"]
      by (simp add: d set_arena_def)
    have "total_allocated_bytes ?d \<le> total_allocated_bytes d" using u by (simp add: word_le_nat_alt)
    moreover have "total_allocated_bytes d \<le> dev_capacity d" using inv by (simp add: dev_inv_def)
    ultimately have cap: "total_allocated_bytes ?d \<le> dev_capacity d" by (rule order_trans)
    show ?thesis
    proof (rule dev_inv_arena_change [OF inv Some _ _ _ _ _ _ cap])
      show "unat (total_allocated_bytes ?d) + held ar = unat (total_allocated_bytes d) + held ?ar"
        using u h ar(2,4) True by simp
    qed (use ar in \<open>simp_all add: d set_arena_def same_limits_def\<close>)
  qed
qed

lemma dev_release_preserves:
  assumes inv: "dev_inv d ls"
  shows "dev_inv (dev_release_reservation a d) ls"
proof (cases "map_of (dev_arenas d) a")
  case None
  with inv show ?thesis by (simp add: dev_release_reservation_def)
next
  case (Some ar)
  note ar = dev_inv_arena [OF inv Some]
  let ?d = "dev_release_reservation a d"
  have arenas: "dev_arenas ?d = alist_erase a (dev_arenas d)"
    using Some by (simp add: dev_release_reservation_def Let_def)
  have dist: "distinct (map fst (dev_arenas d))" using inv by (simp add: dev_inv_def)
  have "sum_where block_bytes (unowned (alist_erase a (dev_arenas d))) ls
      = sum_where block_bytes (unowned (dev_arenas d)) ls + sum_where block_bytes (owned_by a) ls"
    using Some by (intro sum_where_disj) (auto simp: unowned_def owned_by_def split: option.splits)
  then have acc: "dev_accounted ?d ls + held ar = dev_accounted d ls + nat (dev_arena_allocated ar)"
    using alist_sum_erase [OF dist Some, of held] ar(3) by (simp add: dev_accounted_def arenas)
  have rel: "total_allocated_bytes ?d = sub (total_allocated_bytes d)
      (to_u64 (max 0 (dev_arena_size ar - dev_arena_allocated ar)))"
    using Some ar(2) by (simp add: dev_release_reservation_def Let_def max_def to_u64_def)
  have h: "held ar = nat (dev_arena_allocated ar) + nat (max 0 (dev_arena_size ar - dev_arena_allocated ar))"
    using ar(2) by (simp add: held_def dev_footprint_def)
  have u: "unat (total_allocated_bytes ?d)
      = unat (total_allocated_bytes d) - nat (max 0 (dev_arena_size ar - dev_arena_allocated ar))"
    unfolding rel using h ar(4) by (intro unat_sub_to_u64) simp_all
  have "unat (total_allocated_bytes ?d) = dev_accounted ?d ls"
  proof -
    have "unat (total_allocated_bytes d) = dev_accounted d ls" using inv by (simp add: dev_inv_def)
    with u acc h ar(4) show ?thesis by linarith
  qed
  moreover have "total_allocated_bytes ?d \<le> dev_capacity d"
    using u inv by (auto simp: dev_inv_def word_le_nat_alt)
  moreover have "of_nat (length (dev_arenas d)) - 1 = (of_nat (length (alist_erase a (dev_arenas d))) :: u64)"
    by (simp flip: length_alist_erase [OF dist Some])
  ultimately show ?thesis
    using inv Some arenas
    by (auto simp: dev_inv_def dev_release_reservation_def Let_def sub_def distinct_alist_erase split: if_splits)
qed

section \<open>The books of the holders\<close>

definition dev_books :: "'u device_adaptor \<Rightarrow> bool" where
  "dev_books d \<longleftrightarrow> dev_inv d [] \<and> total_allocated_bytes d \<le> dev_memory_limit d"

definition dev_bytes_of :: "'u device_adaptor \<Rightarrow> nat \<Rightarrow> nat option" where
  "dev_bytes_of d a = map_option held (map_of (dev_arenas d) a)"

lemma dev_registered:
  assumes inv: "dev_inv (new_device_arena a b d') []" and "dev_arenas d' = dev_arenas d"
    and bytes: "unat (total_allocated_bytes d') = unat (total_allocated_bytes d) + unat b"
    and le: "unat (total_allocated_bytes d') \<le> unat (dev_memory_limit d')"
    and s': "s' = new_device_arena a b d'"
  shows "dev_books s' \<and>
    dev_bytes_of s' = (dev_bytes_of d)(a \<mapsto> unat (total_allocated_bytes s') - unat (total_allocated_bytes d))"
proof -
  have "total_allocated_bytes d' \<le> dev_capacity d'" "unat (dev_capacity d') < 2 ^ 62"
    using inv by (simp_all add: dev_inv_def new_device_arena_def set_arena_def)
  then have "unat b < 2 ^ 62" using bytes by (auto simp: word_le_nat_alt)
  then have "to_i64 b = int (unat b)" by (intro to_i64_small) simp
  then show ?thesis
    using inv assms(2) bytes le
    by (auto simp: s' dev_books_def dev_bytes_of_def new_device_arena_def set_arena_def held_def
        dev_footprint_def fun_eq_iff word_le_nat_alt simp del: of_nat_unat)
qed

lemma no_blocks_unused: "dev_bytes_of d a = None \<Longrightarrow> unused_arena a d []"
  by (simp add: dev_bytes_of_def unused_arena_def)

interpretation device_books: releasing total_allocated_bytes dev_memory_limit "\<lambda>b d. b" dev_reserve
  dev_reserve_upto dev_books dev_bytes_of dev_release_reservation
proof
  fix d d' :: "'u device_adaptor" and a n :: nat and b :: u64
  show "unat (total_allocated_bytes d) \<le> unat (dev_memory_limit d)" if "dev_books d"
    using that by (simp add: dev_books_def word_le_nat_alt)
  show "dev_books d' \<and> dev_bytes_of d' = (dev_bytes_of d)(a \<mapsto>
      unat (total_allocated_bytes d') - unat (total_allocated_bytes d))"
    if ok: "dev_books d" and new: "dev_bytes_of d a = None" and run: "dev_reserve a b d = (Some a, d')"
  proof -
    obtain d1 where d1: "dev_do_reserve b (dev_memory_limit d) d = (True, d1)" and d': "d' = new_device_arena a b d1"
      using run by (auto simp: dev_reserve_def split: prod.splits bool.splits)
    have "dev_inv (new_device_arena a b d1) []"
      using dev_reserve_preserves [OF _ no_blocks_unused [OF new] run] ok d' by (simp add: dev_books_def)
    then show ?thesis
      using dev_do_reserve_cases [OF d1] d'
      by (intro dev_registered [of a b d1 d]) (auto simp: same_limits_def word_le_nat_alt)
  qed
  show "dev_books d' \<and> dev_bytes_of d' = (dev_bytes_of d)(a \<mapsto>
      unat (total_allocated_bytes d') - unat (total_allocated_bytes d))"
    if ok: "dev_books d" and new: "dev_bytes_of d a = None" and run: "dev_reserve_upto a b d = (Some a, d')"
  proof -
    obtain g d1 where d1: "dev_do_reserve_upto b (dev_memory_limit d) d = (g, d1)" and d': "d' = new_device_arena a g d1"
      using run by (auto simp: dev_reserve_upto_def split: prod.splits)
    have "dev_inv (new_device_arena a g d1) []"
      using dev_reserve_upto_preserves [OF _ no_blocks_unused [OF new] run] ok d' by (simp add: dev_books_def)
    moreover have "dev_arenas d1 = dev_arenas d" "dev_memory_limit d1 = dev_memory_limit d"
      "unat (total_allocated_bytes d1) = unat (total_allocated_bytes d) + unat g"
      "unat g \<le> unat (dev_memory_limit d) - unat (total_allocated_bytes d)"
      using d1 add_bounded_u64 [of "total_allocated_bytes d" b "dev_memory_limit d"]
      by (auto simp: dev_do_reserve_upto_def split: prod.splits if_splits)
    ultimately show ?thesis
      using d' ok by (intro dev_registered [of a g d1 d]) (auto simp: dev_books_def word_le_nat_alt)
  qed
  show "dev_books (dev_release_reservation a d)
      \<and> unat (total_allocated_bytes (dev_release_reservation a d)) + n = unat (total_allocated_bytes d)
      \<and> dev_memory_limit (dev_release_reservation a d) = dev_memory_limit d
      \<and> dev_bytes_of (dev_release_reservation a d) = (dev_bytes_of d)(a := None)"
    if ok: "dev_books d" and a: "dev_bytes_of d a = Some n"
  proof -
    obtain ar where m: "map_of (dev_arenas d) a = Some ar" and n: "n = held ar"
      using a by (auto simp: dev_bytes_of_def)
    have inv: "dev_inv d []" and le: "total_allocated_bytes d \<le> dev_memory_limit d"
      using ok by (simp_all add: dev_books_def)
    note inv' = dev_release_preserves [OF inv, of a]
    have arenas: "dev_arenas (dev_release_reservation a d) = alist_erase a (dev_arenas d)"
      "dev_memory_limit (dev_release_reservation a d) = dev_memory_limit d"
      using m by (simp_all add: dev_release_reservation_def Let_def)
    have "distinct (map fst (dev_arenas d))" using inv by (simp add: dev_inv_def)
    from alist_sum_erase [OF this m, of held] inv inv' arenas(1)
    have tot: "unat (total_allocated_bytes (dev_release_reservation a d)) + n = unat (total_allocated_bytes d)"
      by (simp add: dev_inv_def dev_accounted_def n)
    with inv' arenas le show ?thesis
      by (auto simp: dev_books_def dev_bytes_of_def fun_eq_iff word_le_nat_alt)
  qed
qed

section \<open>Allocating and freeing\<close>

definition charged_to :: "caller \<Rightarrow> 'u device_adaptor \<Rightarrow> nat option" where
  "charged_to at d = (case get_tracker_state at d of None \<Rightarrow> None | Some st \<Rightarrow> memory_reservation st)"

text \<open>A block that an allocation adds to the live ones.\<close>

definition new_block :: "'u device_rmm \<Rightarrow> u64 \<Rightarrow> nat option \<Rightarrow> u64 outcome \<Rightarrow> dev_block list" where
  "new_block env bytes owner r =
     (case r of Inl _ \<Rightarrow> []
      | Inr ptr \<Rightarrow> [(ptr, dev_align_up env bytes CUDA_ALLOCATION_ALIGNMENT, owner)])"

text \<open>An allocation that does not make the increase policy grow the reservation.\<close>

definition calm :: "'u device_rmm \<Rightarrow> u64 \<Rightarrow> caller \<Rightarrow> 'u device_adaptor \<Rightarrow> bool" where
  "calm env bytes at d \<longleftrightarrow>
     unat (dev_align_up env bytes CUDA_ALLOCATION_ALIGNMENT) < 2 ^ 62 \<and>
     (\<forall>st a ar. tracked at d st a ar \<longrightarrow>
        lenient st \<or> reservation_policy st = Some fail_reservation_limit_policy
        \<or> dev_arena_allocated ar + int (unat (dev_align_up env bytes CUDA_ALLOCATION_ALIGNMENT))
            \<le> dev_arena_size ar)"

lemma unmanaged_limits:
  "do_allocate_unmanaged env bytes tr stream d = (r, d') \<Longrightarrow>
   same_limits d d' \<and> number_of_allocations d' = number_of_allocations d"
  by (auto simp: do_allocate_unmanaged_def same_limits_def Let_def split: prod.splits sum.splits bool.splits)

lemma untracked_allocate_preserves:
  assumes inv: "dev_inv d ls" and none: "get_tracker_state at d = None"
    and run: "dev_do_allocate env bytes at d = (r, d')"
  shows "dev_inv d' (new_block env bytes None r @ ls)"
proof -
  obtain x d1 where
    u: "do_allocate_unmanaged env bytes (dev_align_up env bytes CUDA_ALLOCATION_ALIGNMENT) (fst at) d = (x, d1)"
    by fastforce
  have xd: "x = r \<and> d1 = d'"
  proof (cases x)
    case (Inl e)
    obtain p where "default_oom_policy d1 = p" by simp
    with run none u Inl show ?thesis
      by (cases p) (simp add: dev_do_allocate_def do_allocate_managed_default_def Let_def
          CUDA_ALLOCATION_ALIGNMENT_def)
  next
    case (Inr ptr)
    with run none u show ?thesis
      by (simp add: dev_do_allocate_def do_allocate_managed_default_def Let_def CUDA_ALLOCATION_ALIGNMENT_def)
  qed
  note c = unmanaged_cases [OF u] and l = unmanaged_limits [OF u]
  show ?thesis
  proof (cases r)
    case (Inl e)
    with xd c l inv show ?thesis by (auto simp: new_block_def intro: dev_inv_same)
  next
    case (Inr ptr)
    with xd c(1,6) l show ?thesis
      by (intro dev_inv_loose_change [OF inv])
         (auto simp: new_block_def owned_by_def unowned_def block_bytes_def)
  qed
qed

lemma tracked_allocate_preserves:
  assumes inv: "dev_inv d ls" and t: "tracked at d st a ar"
    and small: "unat (dev_align_up env bytes CUDA_ALLOCATION_ALIGNMENT) < 2 ^ 62"
    and ok: "lenient st \<or> dev_arena_allocated ar
                + int (unat (dev_align_up env bytes CUDA_ALLOCATION_ALIGNMENT)) \<le> dev_arena_size ar"
    and run: "dev_do_allocate env bytes at d = (r, d')"
  shows "dev_inv d' (new_block env bytes (Some a) r @ ls)"
proof -
  let ?n = "dev_align_up env bytes CUDA_ALLOCATION_ALIGNMENT"
  define ch where "ch = charged_arena ?n ar"
  have m: "map_of (dev_arenas d) a = Some ar" using t by (simp add: tracked_def)
  note range = dev_inv_in_range [OF inv m small] and ar = dev_inv_arena [OF inv m]
  from tracked_outcome [OF t range ok run ch_def] obtain tr d2 where
    u: "do_allocate_unmanaged env bytes tr (fst at) (set_arena a ch d) = (r, d2)"
    and tr: "int (unat tr) = dev_footprint ch - dev_footprint ar"
    and d': "d' = (if returns r then d2
      else set_arena a (ch\<lparr>dev_arena_allocated := dev_arena_allocated ar\<rparr>) d2)" .
  have ch: "dev_arena_size ch = dev_arena_size ar"
    "dev_arena_allocated ch = dev_arena_allocated ar + int (unat ?n)"
    by (simp_all add: ch_def charged_arena_def)
  note c = unmanaged_cases [OF u] and l = unmanaged_limits [OF u]
  show ?thesis
  proof (cases r)
    case (Inl e)
    let ?ar = "ch\<lparr>dev_arena_allocated := dev_arena_allocated ar\<rparr>"
    have "held ?ar = held ar" using ch by (simp add: held_def dev_footprint_def)
    moreover have "total_allocated_bytes d \<le> dev_capacity d" using inv by (simp add: dev_inv_def)
    moreover have "dev_arenas d' = alist_set a ?ar (dev_arenas d)"
      using d' Inl c(1) by (simp add: set_arena_def alist_set_twice)
    ultimately show ?thesis
      using Inl d' l c(5) ch ar
      by (intro dev_inv_arena_change [OF inv m, where ar' = ?ar])
         (auto simp: new_block_def same_limits_def set_arena_def)
  next
    case (Inr ptr)
    then have d': "d' = d2" using d' by simp
    have "unat tr + held ar = held ch"
      using tr ar(1,2) ch by (simp add: held_def dev_footprint_def del: of_nat_unat)
    then have "unat (total_allocated_bytes d') + held ar = unat (total_allocated_bytes d) + held ch"
      using c(6) Inr d' by (simp add: set_arena_def)
    moreover have "nat (dev_arena_allocated ch) = nat (dev_arena_allocated ar) + unat ?n"
      using ar(2) ch by (simp add: nat_add_distrib del: of_nat_unat)
    ultimately show ?thesis
      using Inr d' l c(1,6) ch ar(1,2,3) m
      by (intro dev_inv_arena_change [OF inv m, where ar' = ch])
         (auto simp: new_block_def same_limits_def set_arena_def owned_by_def unowned_def block_bytes_def
           simp del: of_nat_unat)
  qed
qed

lemma dev_allocate_preserves:
  assumes inv: "dev_inv d ls" and ok: "calm env bytes at d"
    and run: "dev_do_allocate env bytes at d = (r, d')"
  shows "dev_inv d' (new_block env bytes (charged_to at d) r @ ls)"
proof (cases "get_tracker_state at d")
  case None
  with untracked_allocate_preserves [OF inv None run] show ?thesis by (simp add: charged_to_def)
next
  case (Some st)
  show ?thesis
  proof (cases "\<exists>a ar. tracked at d st a ar")
    case True
    then obtain a ar where t: "tracked at d st a ar" by blast
    have own: "charged_to at d = Some a" using t by (simp add: charged_to_def tracked_def)
    have small: "unat (dev_align_up env bytes CUDA_ALLOCATION_ALIGNMENT) < 2 ^ 62"
      using ok by (simp add: calm_def)
    have m: "map_of (dev_arenas d) a = Some ar" using t by (simp add: tracked_def)
    show ?thesis
    proof (cases "lenient st \<or> dev_arena_allocated ar
        + int (unat (dev_align_up env bytes CUDA_ALLOCATION_ALIGNMENT)) \<le> dev_arena_size ar")
      case True
      with tracked_allocate_preserves [OF inv t small True run] own show ?thesis by simp
    next
      case False
      with ok t have "reservation_policy st = Some fail_reservation_limit_policy"
        by (auto simp: calm_def)
      from fail_policy_state [OF t dev_inv_in_range [OF inv m small] this] False run inv
      show ?thesis by (auto simp: new_block_def simp del: of_nat_unat)
    qed
  next
    case False
    then have "tracked_arena st d = Inl invalid_dereference"
      using Some by (auto simp: tracked_def tracked_arena_def split: option.splits)
    with run Some have "r = Inl invalid_dereference" "d' = d"
      by (simp_all add: dev_do_allocate_def do_allocate_managed_tracked_def
          check_reservation_and_handle_overflow_def Let_def)
    with inv show ?thesis by (simp add: new_block_def)
  qed
qed

text \<open>
  A free that gives back what was charged: on an untracked stream for a block no arena answers for,
  on a tracked one for a block of its arena that does not straddle the end of the reservation.
\<close>

definition settles :: "dev_block \<Rightarrow> caller \<Rightarrow> 'u device_adaptor \<Rightarrow> bool" where
  "settles x at d \<longleftrightarrow>
     (get_tracker_state at d = None \<and> unowned (dev_arenas d) x) \<or>
     (\<exists>st a ar. tracked at d st a ar \<and> owned_by a x \<and>
        \<not> (dev_arena_size ar < dev_arena_allocated ar
            \<and> dev_arena_allocated ar < dev_arena_size ar + int (block_bytes x)))"

lemma sum_where_ge: "x \<in> set xs \<Longrightarrow> P x \<Longrightarrow> w x \<le> sum_where w P xs"
  by (induction xs) auto

lemma untracked_free_preserves:
  assumes inv: "dev_inv d ls" and x: "x \<in> set ls"
    and xb: "x = (ptr, dev_align_up env bytes CUDA_ALLOCATION_ALIGNMENT, owner)"
    and none: "get_tracker_state at d = None" and un: "unowned (dev_arenas d) x"
    and run: "dev_do_deallocate env ptr bytes at d = (r, d')"
  shows "r = Inr () \<and> dev_inv d' (remove1 x ls)"
proof -
  let ?n = "dev_align_up env bytes CUDA_ALLOCATION_ALIGNMENT"
  have n: "block_bytes x = unat ?n" using xb by (simp add: block_bytes_def)
  note rem = sum_where_remove1 [OF x]
  have capd: "total_allocated_bytes d \<le> dev_capacity d" using inv by (simp add: dev_inv_def)
  have "block_bytes x \<le> unat (total_allocated_bytes d)"
    using sum_where_ge [of x ls "unowned (dev_arenas d)" block_bytes] x un inv
    by (simp add: dev_inv_def dev_accounted_def)
  then have u: "unat (total_allocated_bytes d') + block_bytes x = unat (total_allocated_bytes d)"
    using run none n by (auto simp: dev_do_deallocate_def Let_def sub_def unat_sub_exact)
  then have "total_allocated_bytes d' \<le> total_allocated_bytes d" by (simp add: word_le_nat_alt)
  then have cap: "total_allocated_bytes d' \<le> dev_capacity d" using capd by (rule order_trans)
  have "dev_inv d' (remove1 x ls)"
  proof (rule dev_inv_loose_change [OF inv _ _ _ _ cap])
    show "sum_where block_bytes (owned_by a) (remove1 x ls) = sum_where block_bytes (owned_by a) ls"
      if "map_of (dev_arenas d) a = Some ar" for a ar
    proof -
      have "\<not> owned_by a x" using un that by (auto simp: owned_by_def unowned_def)
      with rem [of block_bytes "owned_by a"] show ?thesis by simp
    qed
  qed (use run none u rem [of block_bytes "unowned (dev_arenas d)"] un in
    \<open>auto simp: dev_do_deallocate_def Let_def same_limits_def\<close>)
  with run none show ?thesis by (simp add: dev_do_deallocate_def Let_def)
qed

lemma tracked_free_preserves:
  assumes inv: "dev_inv d ls" and x: "x \<in> set ls"
    and xb: "x = (ptr, dev_align_up env bytes CUDA_ALLOCATION_ALIGNMENT, owner)"
    and t: "tracked at d st a ar" and own: "owned_by a x"
    and fits: "\<not> (dev_arena_size ar < dev_arena_allocated ar
        \<and> dev_arena_allocated ar < dev_arena_size ar + int (block_bytes x))"
    and run: "dev_do_deallocate env ptr bytes at d = (r, d')"
  shows "r = Inr () \<and> dev_inv d' (remove1 x ls)"
proof -
  let ?n = "dev_align_up env bytes CUDA_ALLOCATION_ALIGNMENT"
  have n: "block_bytes x = unat ?n" using xb by (simp add: block_bytes_def)
  note rem = sum_where_remove1 [OF x]
  have capd: "total_allocated_bytes d \<le> dev_capacity d" using inv by (simp add: dev_inv_def)
  have m: "map_of (dev_arenas d) a = Some ar" and st: "get_tracker_state at d = Some st"
    using t by (simp_all add: tracked_def)
  note ar = dev_inv_arena [OF inv m]
  define k where "k = int (unat ?n)"
  have le: "k \<le> dev_arena_allocated ar"
    using sum_where_ge [of x ls "owned_by a" block_bytes] x own ar(2,3) n by (simp add: k_def del: of_nat_unat)
  have k: "0 \<le> k" "k < 2 ^ 62" using le ar(6) by (simp_all add: k_def del: of_nat_unat)
  have nk: "unat ?n = nat k" by (simp add: k_def del: of_nat_unat)
  have i: "to_i64 ?n = k" using k(2) nk unfolding k_def by (intro to_i64_small) (simp del: of_nat_unat)
  let ?post = "dev_arena_allocated ar - k"
  have w: "wrap_i64 ?post = ?post" "wrap_i64 (?post + k) = dev_arena_allocated ar"
    using k le ar(2,6) by (simp_all add: wrap_i64_id)
  let ?ar = "ar\<lparr>dev_arena_allocated := ?post\<rparr>"
  let ?rec = "if dev_arena_allocated ar \<le> dev_arena_size ar then 0 else ?n"
  have nostraddle: "\<not> ?post < dev_arena_size ar" if "\<not> dev_arena_allocated ar \<le> dev_arena_size ar"
    using that fits n by (simp add: k_def del: of_nat_unat)
  have r: "r = Inr ()" and d': "d' = (set_arena a ?ar d)
      \<lparr>dev_upstream := deallocate_async env ptr bytes (fst at) (dev_upstream d),
       total_allocated_bytes := sub (total_allocated_bytes d) ?rec\<rparr>"
    using run st tracked_arena_tracked [OF t] i w nostraddle
    by (auto simp: dev_do_deallocate_def Let_def set_arena_def)
  have h: "held ?ar + unat ?rec = held ar"
  proof (cases "dev_arena_allocated ar \<le> dev_arena_size ar")
    case True
    with k show ?thesis by (simp add: held_def dev_footprint_def)
  next
    case False
    with nostraddle have "dev_footprint ar = dev_arena_allocated ar" "dev_footprint ?ar = ?post"
      by (simp_all add: dev_footprint_def)
    moreover have "unat ?n = nat k" by (simp add: k_def del: of_nat_unat)
    ultimately show ?thesis using False le k by (simp add: held_def flip: nat_add_distrib)
  qed
  then have "unat ?rec \<le> unat (total_allocated_bytes d)" using ar(4) by linarith
  then have u: "unat (total_allocated_bytes d') + unat ?rec = unat (total_allocated_bytes d)"
    unfolding d' sub_def by (simp add: unat_sub_exact)
  then have "total_allocated_bytes d' \<le> total_allocated_bytes d" by (simp only: word_le_nat_alt)
  then have cap: "total_allocated_bytes d' \<le> dev_capacity d" using capd by (rule order_trans)
  have this_arena: "sum_where block_bytes (owned_by a) (remove1 x ls) = nat ?post"
    using rem [of block_bytes "owned_by a"] own ar(2,3) n le
    by (simp add: k_def nat_diff_distrib del: of_nat_unat)
  have "dev_inv d' (remove1 x ls)"
  proof (rule dev_inv_arena_change [OF inv m _ _ _ _ _ _ cap])
    show "unat (total_allocated_bytes d') + held ar = unat (total_allocated_bytes d) + held ?ar"
      using u h by linarith
    show "sum_where block_bytes (owned_by a) (remove1 x ls) = nat (dev_arena_allocated ?ar)"
      using this_arena by simp
    show "sum_where block_bytes (owned_by a') (remove1 x ls) = sum_where block_bytes (owned_by a') ls"
      if "a' \<noteq> a" for a'
      using rem [of block_bytes "owned_by a'"] own that by (simp add: owned_by_def)
    show "sum_where block_bytes (unowned (dev_arenas d)) (remove1 x ls)
        = sum_where block_bytes (unowned (dev_arenas d)) ls"
      using rem [of block_bytes "unowned (dev_arenas d)"] own m by (simp add: owned_by_def unowned_def)
  qed (use ar(1) le in \<open>simp_all add: d' set_arena_def same_limits_def\<close>)
  with r show ?thesis by simp
qed

lemma free_preserves:
  assumes inv: "dev_inv d ls" and x: "x \<in> set ls"
    and xb: "x = (ptr, dev_align_up env bytes CUDA_ALLOCATION_ALIGNMENT, owner)"
    and ok: "settles x at d"
    and run: "dev_do_deallocate env ptr bytes at d = (r, d')"
  shows "r = Inr () \<and> dev_inv d' (remove1 x ls)"
  using ok unfolding settles_def
proof (elim disjE conjE exE)
  assume "get_tracker_state at d = None" "unowned (dev_arenas d) x"
  then show ?thesis by (rule untracked_free_preserves [OF inv x xb _ _ run])
next
  fix st a ar
  assume "tracked at d st a ar" "owned_by a x"
    "\<not> (dev_arena_size ar < dev_arena_allocated ar
        \<and> dev_arena_allocated ar < dev_arena_size ar + int (block_bytes x))"
  then show ?thesis by (rule tracked_free_preserves [OF inv x xb _ _ _ run])
qed

section \<open>Runs\<close>

inductive device_step ::
  "'u device_rmm \<Rightarrow> 'u device_adaptor \<times> dev_block list \<Rightarrow> 'u device_adaptor \<times> dev_block list \<Rightarrow> bool"
  for env :: "'u device_rmm"
where
  reserve: "unused_arena a d ls \<Longrightarrow> dev_reserve a b d = (r, d') \<Longrightarrow> device_step env (d, ls) (d', ls)"
| reserve_upto: "unused_arena a d ls \<Longrightarrow> dev_reserve_upto a b d = (r, d') \<Longrightarrow>
     device_step env (d, ls) (d', ls)"
| grow: "map_of (dev_arenas d) a = Some ar \<Longrightarrow> dev_arena_allocated ar \<le> dev_arena_size ar \<Longrightarrow>
     dev_grow_reservation_by a b d = (ok, d') \<Longrightarrow> device_step env (d, ls) (d', ls)"
| shrink: "device_step env (d, ls) (dev_shrink_reservation_to_fit a d, ls)"
| release: "device_step env (d, ls) (dev_release_reservation a d, ls)"
| attach: "attach_reservation_to_tracker at arena policy oom d = (ok, d') \<Longrightarrow>
     device_step env (d, ls) (d', ls)"
| detach: "device_step env (d, ls) (reset_stream_reservation at d, ls)"
| reset_peak: "reset_peak_allocated_bytes at d = (r, d') \<Longrightarrow> device_step env (d, ls) (d', ls)"
| allocate: "calm env bytes at d \<Longrightarrow> dev_do_allocate env bytes at d = (r, d') \<Longrightarrow>
     device_step env (d, ls) (d', new_block env bytes (charged_to at d) r @ ls)"
| free: "x \<in> set ls \<Longrightarrow> x = (ptr, dev_align_up env bytes CUDA_ALLOCATION_ALIGNMENT, owner) \<Longrightarrow>
     settles x at d \<Longrightarrow> dev_do_deallocate env ptr bytes at d = (r, d') \<Longrightarrow>
     device_step env (d, ls) (d', remove1 x ls)"

lemma dev_release_tracker [simp]:
  "dev_inv (dev_release_reservation a d\<lparr>allocation_tracker := ts\<rparr>) ls
   \<longleftrightarrow> dev_inv (dev_release_reservation a d) ls"
  "dev_inv (d\<lparr>allocation_tracker := ts\<rparr>) ls \<longleftrightarrow> dev_inv d ls"
  by (simp_all add: dev_inv_def dev_accounted_def)

lemma reset_peak_preserves:
  assumes inv: "dev_inv d ls" and run: "reset_peak_allocated_bytes at d = (r, d')"
  shows "dev_inv d' ls"
proof (cases "\<exists>st a ar. tracked at d st a ar")
  case False
  with run have "d' = d"
    by (auto simp: reset_peak_allocated_bytes_def tracked_def tracked_arena_def split: option.splits)
  with inv show ?thesis by simp
next
  case True
  then obtain st a ar where t: "tracked at d st a ar" by blast
  then have m: "map_of (dev_arenas d) a = Some ar" by (simp add: tracked_def)
  let ?ar = "ar\<lparr>dev_arena_peak := 0\<rparr>"
  note ar = dev_inv_arena [OF inv m]
  have d': "d' = set_arena a ?ar d"
    using run t tracked_arena_tracked [OF t] by (simp add: reset_peak_allocated_bytes_def tracked_def)
  show ?thesis
  proof (rule dev_inv_arena_change [OF inv m])
    show "dev_arenas d' = alist_set a ?ar (dev_arenas d)" by (simp add: d' set_arena_def)
    show "total_allocated_bytes d' \<le> dev_capacity d" using inv by (simp add: d' set_arena_def dev_inv_def)
  qed (use ar in \<open>simp_all add: d' set_arena_def same_limits_def held_def dev_footprint_def\<close>)
qed

lemma device_step_preserves:
  assumes "device_step env s s'" and "dev_inv (fst s) (snd s)"
  shows "dev_inv (fst s') (snd s')"
  using assms
proof (induction rule: device_step.induct)
  case (attach at arena policy oom d ok d' ls)
  then show ?case
    by (auto simp: attach_reservation_to_tracker_def dev_release_preserves split: option.splits)
next
  case (detach d ls at)
  then show ?case
    by (auto simp: reset_stream_reservation_def Let_def dev_release_preserves split: option.splits)
qed (auto intro: dev_reserve_preserves dev_reserve_upto_preserves dev_grow_preserves dev_shrink_preserves
     dev_release_preserves reset_peak_preserves dev_allocate_preserves free_preserves [THEN conjunct2])

abbreviation device_reachable ::
  "'u device_rmm \<Rightarrow> 'u device_adaptor \<Rightarrow> 'u device_adaptor \<Rightarrow> dev_block list \<Rightarrow> bool" where
  "device_reachable env d0 d ls \<equiv> (device_step env)\<^sup>*\<^sup>* (d0, []) (d, ls)"

lemma reachable_dev_inv:
  assumes "dev_inv d0 []" and "device_reachable env d0 d ls"
  shows "dev_inv d ls"
proof -
  have "dev_inv (fst s) (snd s)" if "(device_step env)\<^sup>*\<^sup>* (d0, []) s" for s
    using that by induction (use assms(1) device_step_preserves in \<open>auto\<close>)
  from this [OF assms(2)] show ?thesis by simp
qed

lemma new_device_inv:
  "limit \<le> capacity \<Longrightarrow> unat capacity < 2 ^ 62 \<Longrightarrow>
   dev_inv (new_device_adaptor i u limit capacity policy oom scope) []"
  by (simp add: dev_inv_def new_device_adaptor_def dev_accounted_def)

text \<open>
  Property C7. The counter of the device adaptor is exact in runs that stay clear of the four cases in
  which the code miscounts. The runs are reservations, growths, shrinks, releases, attachments,
  allocations and frees, failed ones included, in any order and one call at a time, without: a free
  that straddles the end of its reservation; a free on a stream that does not charge what the
  allocation was charged to (\<open>settles\<close> excludes both); an allocation that makes the increase policy
  grow the reservation, or has \<open>2 ^ 62\<close> bytes and more (\<open>calm\<close>); the growth of a reservation that is
  exceeded. In every such run the counter is the sum, over the live reservations, of the larger of
  size and use, plus the bytes of the live blocks that no reservation answers for; the use of a
  reservation is the sum of its live blocks; the count of reservations is their number; and the
  counter never exceeds the capacity.
\<close>

theorem device_counter_exact:
  assumes "limit \<le> capacity" and "unat capacity < 2 ^ 62"
    and "device_reachable env (new_device_adaptor i u limit capacity policy oom scope) d ls"
  shows "unat (total_allocated_bytes d)
      = alist_sum (\<lambda>ar. nat (max (dev_arena_size ar) (dev_arena_allocated ar))) (dev_arenas d)
        + sum_where block_bytes (unowned (dev_arenas d)) ls
    \<and> (\<forall>a ar. map_of (dev_arenas d) a = Some ar \<longrightarrow>
         nat (dev_arena_allocated ar) = sum_where block_bytes (owned_by a) ls)
    \<and> number_of_allocations d = of_nat (length (dev_arenas d))
    \<and> total_allocated_bytes d \<le> dev_capacity d"
proof -
  have inv: "dev_inv d ls" by (rule reachable_dev_inv [OF new_device_inv [OF assms(1,2)] assms(3)])
  have "held = (\<lambda>ar. nat (max (dev_arena_size ar) (dev_arena_allocated ar)))"
    by (simp add: fun_eq_iff held_def dev_footprint_def)
  with inv show ?thesis by (auto simp: dev_inv_def dev_accounted_def)
qed

text \<open>A reservation of 768 bytes, attached to stream 3, from which 512 bytes are allocated.\<close>

definition start_device :: "nat device_adaptor" where
  "start_device = new_device_adaptor (memory_space_id GPU 0) 0 4096 4096 None None PER_STREAM"

definition busy_device :: "int \<Rightarrow> nat \<Rightarrow> nat device_adaptor" where
  "busy_device used up =
     start_device
       \<lparr>allocation_tracker := [(3, \<lparr>memory_reservation = Some 7,
          reservation_policy = Some ignore_reservation_limit_policy, oom_policy = throw_on_oom_policy\<rparr>)],
        total_reserved_bytes := 768, number_of_allocations := 1, total_allocated_bytes := 768,
        peak_total_allocated_bytes := 768, dev_upstream := up,
        dev_arenas := [(7, \<lparr>dev_arena_size = 768, dev_arena_allocated = used, dev_arena_peak = used\<rparr>)]\<rparr>"

lemma busy_device_reserved:
  "device_step plain_rmm (start_device, []) ((busy_device 0 0)\<lparr>allocation_tracker := []\<rparr>, [])"
  by (rule device_step.reserve [of 7 _ _ 768 "Some 7"])
     (simp_all add: unused_arena_def start_device_def new_device_adaptor_def dev_reserve_def dev_do_reserve_def
       try_add_def update_peak_def add_def new_device_arena_def set_arena_def to_i64_def busy_device_def)

lemma busy_device_attached:
  "device_step plain_rmm ((busy_device 0 0)\<lparr>allocation_tracker := []\<rparr>, []) (busy_device 0 0, [])"
  by (rule device_step.attach [of "(3, 0)" "Some 7" "Some ignore_reservation_limit_policy"
        "Some throw_on_oom_policy" _ True])
     (simp add: attach_reservation_to_tracker_def get_tracker_state_def tracker_key_def busy_device_def
       start_device_def new_device_adaptor_def)

lemma busy_device_allocates:
  "dev_do_allocate plain_rmm 512 (3, 0) (busy_device 0 0) = (Inr 0, busy_device 512 512)"
proof -
  let ?st = "\<lparr>memory_reservation = Some 7, reservation_policy = Some ignore_reservation_limit_policy,
              oom_policy = throw_on_oom_policy\<rparr>"
  let ?ar = "\<lparr>dev_arena_size = 768, dev_arena_allocated = 0, dev_arena_peak = 0 :: int\<rparr>"
  have pad: "dev_align_up plain_rmm 512 CUDA_ALLOCATION_ALIGNMENT = 512"
    by (simp add: plain_rmm_def CUDA_ALLOCATION_ALIGNMENT_def)
  have t: "tracked (3, 0) (busy_device 0 0) ?st 7 ?ar"
    by (simp add: tracked_def busy_device_def start_device_def new_device_adaptor_def get_tracker_state_def
        tracker_key_def)
  then have st: "get_tracker_state (3, 0) (busy_device 0 0) = Some ?st" by (simp add: tracked_def)
  obtain tr where c: "check_reservation_and_handle_overflow ?st 512 (busy_device 0 0)
      = (Inr tr, set_arena 7 (charged_arena 512 ?ar) (busy_device 0 0))"
    and tr: "int (unat tr) = dev_footprint (charged_arena 512 ?ar) - dev_footprint ?ar"
    by (rule check_lenient [OF t, of 512]) (simp_all add: in_range_def lenient_def)
  have "uint tr = 0" using tr by (simp add: dev_footprint_def charged_arena_def)
  then have "tr = 0" by (simp add: word_uint_eq_iff)
  moreover have "do_allocate_unmanaged plain_rmm 512 0 3 (set_arena 7 (charged_arena 512 ?ar) (busy_device 0 0))
      = (Inr 0, busy_device 512 512)"
    by (simp add: do_allocate_unmanaged_def try_add_def plain_rmm_def set_arena_def busy_device_def
        start_device_def new_device_adaptor_def charged_arena_def update_peak_def)
  ultimately show ?thesis using c st
    by (simp add: dev_do_allocate_def do_allocate_managed_tracked_def pad Let_def)
qed

lemma busy_device_reachable:
  "device_reachable plain_rmm start_device (busy_device 512 512) [(0, 512, Some 7)]"
proof -
  have pad: "dev_align_up plain_rmm 512 CUDA_ALLOCATION_ALIGNMENT = 512"
    by (simp add: plain_rmm_def CUDA_ALLOCATION_ALIGNMENT_def)
  have "calm plain_rmm 512 (3, 0) (busy_device 0 0)"
    by (auto simp: calm_def pad tracked_def get_tracker_state_def tracker_key_def lenient_def busy_device_def
        start_device_def new_device_adaptor_def split: if_splits)
  from device_step.allocate [OF this busy_device_allocates, of "[]"]
  have "device_step plain_rmm (busy_device 0 0, []) (busy_device 512 512, [(0, 512, Some 7)])"
    by (simp add: new_block_def pad charged_to_def get_tracker_state_def tracker_key_def busy_device_def
        start_device_def new_device_adaptor_def)
  with busy_device_reserved busy_device_attached show ?thesis
    by (meson rtranclp.rtrancl_into_rtrancl rtranclp.rtrancl_refl)
qed

theorem device_counter_exact_witness:
  "unat (total_allocated_bytes (busy_device 512 512)) = 768 \<and>
   sum_where block_bytes (owned_by 7) [(0, 512, Some 7)] = 512"
proof -
  let ?d = "busy_device 512 512"
  have limit: "(4096 :: u64) \<le> 4096" "unat (4096 :: u64) < 2 ^ 62" by simp_all
  have m: "dev_arenas ?d = [(7, \<lparr>dev_arena_size = 768, dev_arena_allocated = 512, dev_arena_peak = 512\<rparr>)]"
    by (simp add: busy_device_def)
  have "unowned (dev_arenas ?d) (0, 512, Some 7) = False" by (simp add: unowned_def m)
  with device_counter_exact [OF limit busy_device_reachable [unfolded start_device_def]] m
  show ?thesis by (simp add: owned_by_def block_bytes_def)
qed

end
