(* ===== verification/Device_Threads.thy ===== *)
theory Device_Threads
  imports Device_Adaptor
begin

text \<open>
  \<open>do_allocate\<close> and \<open>do_deallocate\<close> of \<open>reservation_aware_resource_adaptor\<close> take no lock over their
  whole body: other threads run between any two of their accesses to shared state. Here a call in
  flight is a value of \<open>device_call\<close>, which says where the call stands and holds its local variables,
  and \<open>device_atom\<close> is what it does up to and with its next shared access: the lookup of the tracker
  (under the tracker's mutex), the load of a size, one operation on an atomic counter, the policy
  (under the arbitration mutex), one call of the upstream. A peak is raised together with the counter
  it follows, since no step reads it. The only out-of-memory policy of the library rethrows, so that
  handling an exception is no access of its own. The tracker state and the arena are reached through
  pointers in every step; a dangling one is an invalid dereference.
\<close>

section \<open>Calls in flight\<close>

datatype device_call =
    Enter_allocate u64 caller
  | Read_size u64 nat stream_ordered_tracker_state
  | Try_reserved u64 nat stream_ordered_tracker_state int
  | Ask_policy u64 nat stream_ordered_tracker_state int int
  | Add_anyway u64 nat stream_ordered_tracker_state int
  | Charge u64 nat "stream_ordered_tracker_state option" u64
  | Allocate_upstream u64 nat "stream_ordered_tracker_state option" u64 u64
  | Uncharge u64 "stream_ordered_tracker_state option" u64 exn
  | Take_back u64 stream_ordered_tracker_state exn
  | Enter_deallocate u64 u64 caller
  | Free_read_size u64 u64 nat stream_ordered_tracker_state
  | Free_sub u64 u64 nat stream_ordered_tracker_state int
  | Free_upstream u64 u64 nat u64
  | Give_back u64

datatype progress = Goes_on device_call | Returned u64 | Freed | Threw_exn exn

definition padded :: "'u device_rmm \<Rightarrow> u64 \<Rightarrow> u64" where
  "padded env bytes = dev_align_up env bytes CUDA_ALLOCATION_ALIGNMENT"

text \<open>What an allocation charges to the pool, and what a free gives back to it, by its own readings.\<close>

definition upstream_tracking :: "u64 \<Rightarrow> int \<Rightarrow> int \<Rightarrow> u64" where
  "upstream_tracking n size_read post =
     (let pre = wrap_i64 (post - to_i64 n)
      in if post < size_read then 0
         else if pre < size_read then to_u64 (post - size_read)
         else n)"

definition upstream_reclaimed :: "u64 \<Rightarrow> int \<Rightarrow> int \<Rightarrow> u64" where
  "upstream_reclaimed n size_read post =
     (let pre = wrap_i64 (post + to_i64 n)
      in if pre \<le> size_read then 0
         else if post < size_read then to_u64 (size_read - post)
         else n)"

text \<open>An access to the arena of a tracker state.\<close>

definition on_arena_of ::
  "stream_ordered_tracker_state \<Rightarrow> 'u device_adaptor \<Rightarrow>
   (nat \<Rightarrow> device_reserved_arena \<Rightarrow> progress \<times> 'u device_adaptor) \<Rightarrow> progress \<times> 'u device_adaptor"
where
  "on_arena_of st d f =
     (case tracked_arena st d of Inl e \<Rightarrow> (Threw_exn e, d) | Inr (a, ar) \<Rightarrow> f a ar)"

definition arena_after_add :: "device_reserved_arena \<Rightarrow> int \<Rightarrow> device_reserved_arena" where
  "arena_after_add ar post =
     ar\<lparr>dev_arena_allocated := post, dev_arena_peak := update_peak (dev_arena_peak ar) post\<rparr>"

definition rethrown :: "u64 \<Rightarrow> stream_ordered_tracker_state option \<Rightarrow> exn \<Rightarrow> progress" where
  "rethrown bytes owner e =
     (case owner of None \<Rightarrow> Threw_exn e | Some st \<Rightarrow> Goes_on (Take_back bytes st e))"

fun device_atom ::
  "'u device_rmm \<Rightarrow> device_call \<Rightarrow> 'u device_adaptor \<Rightarrow> progress \<times> 'u device_adaptor"
where
  "device_atom env (Enter_allocate bytes at) d =
     (case get_tracker_state at d of
        Some st \<Rightarrow> (Goes_on (Read_size bytes (fst at) st), d)
      | None \<Rightarrow> (Goes_on (Charge bytes (fst at) None (padded env bytes)), d))"
| "device_atom env (Read_size bytes stream st) d =
     on_arena_of st d (\<lambda>a ar. (Goes_on (Try_reserved bytes stream st (dev_arena_size ar)), d))"
| "device_atom env (Try_reserved bytes stream st size_read) d =
     on_arena_of st d (\<lambda>a ar.
       (case try_add (dev_arena_allocated ar) (to_i64 (padded env bytes)) size_read of
          (True, post) \<Rightarrow>
            (Goes_on (Charge bytes stream (Some st)
                        (upstream_tracking (padded env bytes) size_read post)),
             set_arena a (arena_after_add ar post) d)
        | (False, post) \<Rightarrow> (Goes_on (Ask_policy bytes stream st size_read post), d)))"
| "device_atom env (Ask_policy bytes stream st size_read post) d =
     on_arena_of st d (\<lambda>a ar.
       (case (case reservation_policy st of
                None \<Rightarrow> (Inr (), d)
              | Some p \<Rightarrow> handle_over_reservation p (Some (arena_ops_of a)) (padded env bytes)
                            (to_u64 post) d) of
          (Inl e, d') \<Rightarrow> (Threw_exn e, d')
        | (Inr _, d') \<Rightarrow> (Goes_on (Add_anyway bytes stream st size_read), d')))"
| "device_atom env (Add_anyway bytes stream st size_read) d =
     on_arena_of st d (\<lambda>a ar.
       let post = wrap_i64 (dev_arena_allocated ar + to_i64 (padded env bytes))
       in (Goes_on (Charge bytes stream (Some st)
                      (upstream_tracking (padded env bytes) size_read post)),
           set_arena a (arena_after_add ar post) d))"
| "device_atom env (Charge bytes stream owner tracking_bytes) d =
     (case try_add (total_allocated_bytes d) tracking_bytes (dev_capacity d) of
        (True, post) \<Rightarrow>
          (Goes_on (Allocate_upstream bytes stream owner tracking_bytes post),
           d\<lparr>total_allocated_bytes := post,
             peak_total_allocated_bytes := update_peak (peak_total_allocated_bytes d) post\<rparr>)
      | (False, post) \<Rightarrow>
          (rethrown bytes owner
             (cucascade_out_of_memory ''not enough capacity to allocate memory'' bytes post), d))"
| "device_atom env (Allocate_upstream bytes stream owner tracking_bytes post) d =
     (case allocate_async env bytes stream (dev_upstream d) of
        (Inr ptr, u) \<Rightarrow> (Returned ptr, d\<lparr>dev_upstream := u\<rparr>)
      | (Inl what, u) \<Rightarrow>
          (Goes_on (Uncharge bytes owner tracking_bytes (cucascade_out_of_memory what bytes post)),
           d\<lparr>dev_upstream := u\<rparr>))"
| "device_atom env (Uncharge bytes owner tracking_bytes e) d =
     (rethrown bytes owner e,
      d\<lparr>total_allocated_bytes := sub (total_allocated_bytes d) tracking_bytes\<rparr>)"
| "device_atom env (Take_back bytes st e) d =
     on_arena_of st d (\<lambda>a ar.
       (Threw_exn e,
        set_arena a (ar\<lparr>dev_arena_allocated :=
                         wrap_i64 (dev_arena_allocated ar - to_i64 (padded env bytes))\<rparr>) d))"
| "device_atom env (Enter_deallocate ptr bytes at) d =
     (case get_tracker_state at d of
        Some st \<Rightarrow> (Goes_on (Free_read_size ptr bytes (fst at) st), d)
      | None \<Rightarrow> (Goes_on (Free_upstream ptr bytes (fst at) (padded env bytes)), d))"
| "device_atom env (Free_read_size ptr bytes stream st) d =
     on_arena_of st d (\<lambda>a ar. (Goes_on (Free_sub ptr bytes stream st (dev_arena_size ar)), d))"
| "device_atom env (Free_sub ptr bytes stream st size_read) d =
     on_arena_of st d (\<lambda>a ar.
       let post = wrap_i64 (dev_arena_allocated ar - to_i64 (padded env bytes))
       in (Goes_on (Free_upstream ptr bytes stream
                      (upstream_reclaimed (padded env bytes) size_read post)),
           set_arena a (ar\<lparr>dev_arena_allocated := post\<rparr>) d))"
| "device_atom env (Free_upstream ptr bytes stream reclaimed) d =
     (Goes_on (Give_back reclaimed),
      d\<lparr>dev_upstream := deallocate_async env ptr bytes stream (dev_upstream d)\<rparr>)"
| "device_atom env (Give_back reclaimed) d =
     (Freed, d\<lparr>total_allocated_bytes := sub (total_allocated_bytes d) reclaimed\<rparr>)"

section \<open>A call on its own\<close>

text \<open>\<open>run_call env k\<close> makes up to \<open>k\<close> accesses of one call with nobody in between.\<close>

fun run_call ::
  "'u device_rmm \<Rightarrow> nat \<Rightarrow> device_call \<Rightarrow> 'u device_adaptor \<Rightarrow> progress \<times> 'u device_adaptor" where
  "run_call env 0 c d = (Goes_on c, d)"
| "run_call env (Suc k) c d =
     (case device_atom env c d of
        (Goes_on c', d') \<Rightarrow> run_call env k c' d'
      | (p, d') \<Rightarrow> (p, d'))"

text \<open>How many accesses a call can still make.\<close>

fun accesses_left :: "device_call \<Rightarrow> nat" where
  "accesses_left (Enter_allocate _ _) = 9"
| "accesses_left (Read_size _ _ _) = 8"
| "accesses_left (Try_reserved _ _ _ _) = 7"
| "accesses_left (Ask_policy _ _ _ _ _) = 6"
| "accesses_left (Add_anyway _ _ _ _) = 5"
| "accesses_left (Charge _ _ _ _) = 4"
| "accesses_left (Allocate_upstream _ _ _ _ _) = 3"
| "accesses_left (Uncharge _ _ _ _) = 2"
| "accesses_left (Take_back _ _ _) = 1"
| "accesses_left (Enter_deallocate _ _ _) = 5"
| "accesses_left (Free_read_size _ _ _ _) = 4"
| "accesses_left (Free_sub _ _ _ _ _) = 3"
| "accesses_left (Free_upstream _ _ _ _) = 2"
| "accesses_left (Give_back _) = 1"

lemma device_atom_progress:
  "device_atom env c d = (Goes_on c', d') \<Longrightarrow> accesses_left c' < accesses_left c"
  by (cases c)
     (auto simp: on_arena_of_def rethrown_def Let_def
       split: option.splits sum.splits prod.splits bool.splits)

definition allocated_or_threw :: "u64 outcome \<Rightarrow> progress" where
  "allocated_or_threw r = (case r of Inr ptr \<Rightarrow> Returned ptr | Inl e \<Rightarrow> Threw_exn e)"

definition freed_or_threw :: "unit outcome \<Rightarrow> progress" where
  "freed_or_threw r = (case r of Inr _ \<Rightarrow> Freed | Inl e \<Rightarrow> Threw_exn e)"

declare run_call.simps(2) [simp del]

lemma run_call_done [simp]:
  "run_call env (Suc k) (Take_back bytes st e) d = device_atom env (Take_back bytes st e) d"
  by (simp add: run_call.simps on_arena_of_def split: sum.split prod.split)

lemmas run_allocation [simp] =
  run_call.simps(2) [of env k "Charge bytes stream owner tr" for env k bytes stream owner tr]
  run_call.simps(2) [of env k "Allocate_upstream bytes stream owner tr post"
      for env k bytes stream owner tr post]
  run_call.simps(2) [of env k "Uncharge bytes owner tr e" for env k bytes owner tr e]

text \<open>The part of an allocation that starts at the pool's counter is \<open>do_allocate_unmanaged\<close>.\<close>

lemma run_charge:
  "run_call env (Suc (Suc (Suc (Suc k)))) (Charge bytes stream owner tr) d =
     (case do_allocate_unmanaged env bytes tr stream d of
        (Inr ptr, d') \<Rightarrow> (Returned ptr, d')
      | (Inl e, d') \<Rightarrow>
          (case owner of None \<Rightarrow> (Threw_exn e, d') | Some st \<Rightarrow> device_atom env (Take_back bytes st e) d'))"
  by (cases owner)
     (auto simp: do_allocate_unmanaged_def rethrown_def Let_def simp del: device_atom.simps(9)
       split: prod.splits bool.splits sum.splits)

declare run_allocation(1) [simp del]

definition allocated_by :: "u64 outcome \<times> 'u device_adaptor \<Rightarrow> progress \<times> 'u device_adaptor" where
  "allocated_by r = map_prod allocated_or_threw (\<lambda>d. d) r"

lemma run_charge_untracked:
  "run_call env (Suc (Suc (Suc (Suc k)))) (Charge bytes stream None (padded env bytes)) d
     = allocated_by (do_allocate_managed_default env bytes stream d)"
proof -
  obtain r d' where u: "do_allocate_unmanaged env bytes (padded env bytes) stream d = (r, d')" by fastforce
  obtain p where "default_oom_policy d' = p" by simp
  with u show ?thesis
    by (cases p; cases r)
       (simp_all add: run_charge do_allocate_managed_default_def Let_def padded_def allocated_by_def
         allocated_or_threw_def CUDA_ALLOCATION_ALIGNMENT_def)
qed

text \<open>The part of a tracked allocation behind the overflow check.\<close>

definition behind_check ::
  "'u device_rmm \<Rightarrow> u64 \<Rightarrow> stream_ordered_tracker_state \<Rightarrow> nat \<Rightarrow> u64 outcome \<times> 'u device_adaptor \<Rightarrow>
   progress \<times> 'u device_adaptor"
where
  "behind_check env bytes st stream r =
     (case r of
        (Inl e, d) \<Rightarrow> (Threw_exn e, d)
      | (Inr tr, d) \<Rightarrow> run_call env 4 (Charge bytes stream (Some st) tr) d)"

lemma run_charge_more:
  "run_call env (Suc (Suc (Suc (Suc k)))) (Charge bytes stream owner tr) d
     = run_call env 4 (Charge bytes stream owner tr) d"
  using run_charge [of env k] run_charge [of env 0] by (simp add: numeral_eq_Suc del: run_call.simps)

lemma managed_tracked_parts:
  "allocated_by (do_allocate_managed_tracked env bytes st stream d)
     = behind_check env bytes st stream (check_reservation_and_handle_overflow st (padded env bytes) d)"
proof -
  obtain x d1 where c: "check_reservation_and_handle_overflow st (padded env bytes) d = (x, d1)" by fastforce
  show ?thesis
  proof (cases x)
    case (Inl e)
    with c show ?thesis
      by (simp add: do_allocate_managed_tracked_def behind_check_def allocated_by_def allocated_or_threw_def
          Let_def padded_def)
  next
    case (Inr tr)
    obtain r d2 where u: "do_allocate_unmanaged env bytes tr stream d1 = (r, d2)" by fastforce
    obtain p where "oom_policy st = p" by simp
    with c Inr u run_charge [of env 0 bytes stream "Some st" tr d1] show ?thesis
      by (cases p; cases r; cases "tracked_arena st d2")
         (auto simp: do_allocate_managed_tracked_def behind_check_def allocated_by_def allocated_or_threw_def
           Let_def padded_def on_arena_of_def numeral_eq_Suc split: prod.split)
  qed
qed

lemmas run_check =
  run_call.simps(2) [of env k "Enter_allocate bytes at" for env k bytes at]
  run_call.simps(2) [of env k "Enter_deallocate ptr bytes at" for env k ptr bytes at]
  run_call.simps(2) [of env k "Read_size bytes stream st" for env k bytes stream st]
  run_call.simps(2) [of env k "Try_reserved bytes stream st r" for env k bytes stream st r]
  run_call.simps(2) [of env k "Ask_policy bytes stream st r post" for env k bytes stream st r post]
  run_call.simps(2) [of env k "Add_anyway bytes stream st r" for env k bytes stream st r]

lemma run_tracked:
  "run_call env 8 (Read_size bytes stream st) d
     = behind_check env bytes st stream (check_reservation_and_handle_overflow st (padded env bytes) d)"
proof (cases "tracked_arena st d")
  case (Inl e)
  then show ?thesis
    by (simp add: run_check numeral_eq_Suc on_arena_of_def check_reservation_and_handle_overflow_def behind_check_def)
next
  case (Inr x)
  obtain a ar where x: "x = (a, ar)" by (cases x)
  let ?n = "padded env bytes" and ?R = "dev_arena_size ar"
  have m: "map_of (dev_arenas d) a = Some ar"
    using Inr x by (auto simp: tracked_arena_def split: option.splits)
  note arena = Inr [unfolded x]
  have finish: "tracked_arena st d' = (case map_of (dev_arenas d') a of
      None \<Rightarrow> Inl invalid_dereference | Some ar' \<Rightarrow> Inr (a, ar'))" for d' :: "'a device_adaptor"
    using Inr x by (auto simp: tracked_arena_def split: option.splits)
  obtain ok post where t: "try_add (dev_arena_allocated ar) (to_i64 ?n) ?R = (ok, post)" by fastforce
  show ?thesis
  proof (cases ok)
    case True
    have "run_call env 8 (Read_size bytes stream st) d
        = run_call env 6 (Charge bytes stream (Some st) (upstream_tracking ?n ?R post))
            (set_arena a (arena_after_add ar post) d)"
      using True t arena by (simp add: run_check numeral_eq_Suc on_arena_of_def del: device_atom.simps(6))
    also have "\<dots> = behind_check env bytes st stream (check_reservation_and_handle_overflow st ?n d)"
      using True t arena m run_charge_more [of env 2]
      by (simp add: check_reservation_and_handle_overflow_def behind_check_def upstream_tracking_def
          arena_after_add_def Let_def numeral_eq_Suc)
    finally show ?thesis .
  next
    case False
    obtain y d' where pol: "(case reservation_policy st of
          None \<Rightarrow> (Inr (), d)
        | Some p \<Rightarrow> handle_over_reservation p (Some (arena_ops_of a)) ?n (to_u64 post) d) = (y, d')"
      by fastforce
    have "run_call env 8 (Read_size bytes stream st) d
        = (case y of
             Inl e \<Rightarrow> (Threw_exn e, d')
           | Inr _ \<Rightarrow> run_call env 5 (Add_anyway bytes stream st ?R) d')"
      using False t arena pol
      by (simp add: run_check numeral_eq_Suc on_arena_of_def del: device_atom.simps(5) split: sum.split)
    also have "\<dots> = behind_check env bytes st stream (check_reservation_and_handle_overflow st ?n d)"
      using False t arena pol run_charge_more [of env 0]
      by (auto simp: run_check check_reservation_and_handle_overflow_def behind_check_def upstream_tracking_def
          arena_after_add_def Let_def numeral_eq_Suc on_arena_of_def finish split: sum.split option.split)
    finally show ?thesis .
  qed
qed

lemma run_free_tracked:
  "run_call env 4 (Free_read_size ptr bytes stream st) d =
     (case tracked_arena st d of
        Inl e \<Rightarrow> (Threw_exn e, d)
      | Inr (a, ar) \<Rightarrow>
          let post = wrap_i64 (dev_arena_allocated ar - to_i64 (padded env bytes))
          in (Freed, (set_arena a (ar\<lparr>dev_arena_allocated := post\<rparr>) d)
               \<lparr>dev_upstream := deallocate_async env ptr bytes stream (dev_upstream d),
                total_allocated_bytes := sub (total_allocated_bytes d)
                  (upstream_reclaimed (padded env bytes) (dev_arena_size ar) post)\<rparr>))"
  by (auto simp: run_call.simps numeral_eq_Suc on_arena_of_def set_arena_def Let_def split: sum.split prod.split)

section \<open>Threads and sections agree\<close>

text \<open>
  Property C19. The accesses of a call, made with no other thread in between, are the call as the
  rest of the development models it: at most nine accesses of an allocation give \<open>do_allocate\<close>, at most
  five of a free give \<open>do_deallocate\<close>, with the same result, exception and state; and with other
  threads in between, whatever they do, a call still comes to its end after that many accesses of
  its own.
\<close>

theorem calls_refine_sections:
  "run_call env 9 (Enter_allocate bytes at) d
     = (allocated_or_threw (fst (dev_do_allocate env bytes at d)), snd (dev_do_allocate env bytes at d))
   \<and> run_call env 5 (Enter_deallocate ptr bytes at) d
     = (freed_or_threw (fst (dev_do_deallocate env ptr bytes at d)), snd (dev_do_deallocate env ptr bytes at d))
   \<and> (case fst (device_atom env c d) of Goes_on c' \<Rightarrow> accesses_left c' < accesses_left c | _ \<Rightarrow> True)
   \<and> accesses_left (Enter_allocate bytes at) = 9 \<and> accesses_left (Enter_deallocate ptr bytes at) = 5"
proof (intro conjI)
  show "run_call env 9 (Enter_allocate bytes at) d
     = (allocated_or_threw (fst (dev_do_allocate env bytes at d)), snd (dev_do_allocate env bytes at d))"
  proof (cases "get_tracker_state at d")
    case None
    with run_charge_untracked [of env 4 bytes "fst at" d] show ?thesis
      by (simp add: run_check numeral_eq_Suc dev_do_allocate_def allocated_by_def map_prod_def
          split: prod.split)
  next
    case (Some st)
    have "run_call env 9 (Enter_allocate bytes at) d = run_call env 8 (Read_size bytes (fst at) st) d"
      using Some by (simp add: run_check numeral_eq_Suc)
    with Some run_tracked [of env bytes "fst at" st d] managed_tracked_parts [of env bytes st "fst at" d]
    show ?thesis by (simp add: dev_do_allocate_def allocated_by_def map_prod_def split: prod.splits)
  qed
  show "run_call env 5 (Enter_deallocate ptr bytes at) d
     = (freed_or_threw (fst (dev_do_deallocate env ptr bytes at d)), snd (dev_do_deallocate env ptr bytes at d))"
  proof (cases "get_tracker_state at d")
    case None
    then show ?thesis
      by (simp add: run_call.simps numeral_eq_Suc dev_do_deallocate_def freed_or_threw_def padded_def Let_def)
  next
    case (Some st)
    have "run_call env 5 (Enter_deallocate ptr bytes at) d = run_call env 4 (Free_read_size ptr bytes (fst at) st) d"
      using Some by (simp add: run_check numeral_eq_Suc)
    with Some show ?thesis
      by (simp add: run_free_tracked dev_do_deallocate_def freed_or_threw_def padded_def upstream_reclaimed_def
          set_arena_def Let_def split: sum.split prod.split)
  qed
  show "case fst (device_atom env c d) of Goes_on c' \<Rightarrow> accesses_left c' < accesses_left c | _ \<Rightarrow> True"
    using device_atom_progress [of env c d _ "snd (device_atom env c d)"]
    by (cases "device_atom env c d") (simp split: progress.split)
qed simp_all

end
