(* ===== verification/Device_Interleaving.thy ===== *)
theory Device_Interleaving
  imports Device_Threads Device_Accounting "HOL-Library.Multiset"
begin

text \<open>
  Any number of allocations and frees in flight on one \<open>reservation_aware_resource_adaptor\<close>, access by
  access (\<open>Device_Threads\<close>), next to reservations that are made, resized and dropped.

  Two results. When every tracked stream has the fail policy, the byte counter is exact in every
  interleaving, counting what the calls in flight have taken, and no reservation is ever exceeded.
  With a policy that lets allocations go beyond the reservation it is not: an allocation that fails
  takes its bytes back from the arena in a later access than the one in which it gives up its claim
  on the pool, and a free that comes in between gives bytes back that nobody charged
  (\<open>Device_Races\<close>).
\<close>

section \<open>The system\<close>

text \<open>
  What a call in flight holds, as blocks: the bytes it has charged to an arena or to the pool and not
  given back. A free holds its block until it has taken it off the arena; what it then still has to
  give back belongs to nobody.
\<close>

definition owner_of :: "stream_ordered_tracker_state option \<Rightarrow> nat option" where
  "owner_of owner = (case owner of None \<Rightarrow> None | Some st \<Rightarrow> memory_reservation st)"

fun in_flight :: "'u device_rmm \<Rightarrow> device_call \<Rightarrow> dev_block list" where
  "in_flight env (Charge bytes stream (Some st) tr) = [(0, padded env bytes, memory_reservation st)]"
| "in_flight env (Allocate_upstream bytes stream owner tr post) = [(0, padded env bytes, owner_of owner)]"
| "in_flight env (Uncharge bytes owner tr e) = [(0, padded env bytes, owner_of owner)]"
| "in_flight env (Take_back bytes st e) = [(0, padded env bytes, memory_reservation st)]"
| "in_flight env (Free_read_size ptr bytes stream st) = [(ptr, padded env bytes, memory_reservation st)]"
| "in_flight env (Free_sub ptr bytes stream st r) = [(ptr, padded env bytes, memory_reservation st)]"
| "in_flight env (Free_upstream ptr bytes stream reclaimed) = [(ptr, reclaimed, None)]"
| "in_flight env (Give_back reclaimed) = [(0, reclaimed, None)]"
| "in_flight env _ = []"

definition all_blocks :: "'u device_rmm \<Rightarrow> device_call list \<Rightarrow> dev_block list \<Rightarrow> dev_block list" where
  "all_blocks env cs ls = concat (map (in_flight env) cs) @ ls"

text \<open>The arena that a call reaches through its tracker state.\<close>

fun arena_in_use :: "device_call \<Rightarrow> nat option" where
  "arena_in_use (Read_size bytes stream st) = memory_reservation st"
| "arena_in_use (Try_reserved bytes stream st r) = memory_reservation st"
| "arena_in_use (Ask_policy bytes stream st r post) = memory_reservation st"
| "arena_in_use (Add_anyway bytes stream st r) = memory_reservation st"
| "arena_in_use (Charge bytes stream owner tr) = owner_of owner"
| "arena_in_use (Allocate_upstream bytes stream owner tr post) = owner_of owner"
| "arena_in_use (Uncharge bytes owner tr e) = owner_of owner"
| "arena_in_use (Take_back bytes st e) = memory_reservation st"
| "arena_in_use (Free_read_size ptr bytes stream st) = memory_reservation st"
| "arena_in_use (Free_sub ptr bytes stream st r) = memory_reservation st"
| "arena_in_use _ = None"

definition at_rest :: "nat \<Rightarrow> device_call list \<Rightarrow> bool" where
  "at_rest a cs = list_all (\<lambda>c. arena_in_use c \<noteq> Some a) cs"

text \<open>The block that an allocation hands out, and what is left of a call after an access.\<close>

definition handed_block :: "'u device_rmm \<Rightarrow> device_call \<Rightarrow> progress \<Rightarrow> dev_block list" where
  "handed_block env c p =
     (case (c, p) of
        (Allocate_upstream bytes stream owner tr post, Returned ptr) \<Rightarrow> [(ptr, padded env bytes, owner_of owner)]
      | _ \<Rightarrow> [])"

definition left_of :: "progress \<Rightarrow> device_call list" where
  "left_of p = (case p of Goes_on c \<Rightarrow> [c] | _ \<Rightarrow> [])"

text \<open>
  With \<open>strict\<close>, reservations are attached with the fail policy. Nobody resizes or destroys a
  reservation while a call reaches it. A block is freed on a stream that charges what the allocation
  was charged to.
\<close>

inductive thread_step ::
  "'u device_rmm \<Rightarrow> bool \<Rightarrow> 'u device_adaptor \<times> device_call list \<times> dev_block list \<Rightarrow>
   'u device_adaptor \<times> device_call list \<times> dev_block list \<Rightarrow> bool"
  for env :: "'u device_rmm" and strict :: bool
where
  reserve: "unused_arena a d (all_blocks env cs ls) \<Longrightarrow> at_rest a cs \<Longrightarrow> dev_reserve a b d = (r, d') \<Longrightarrow>
     thread_step env strict (d, cs, ls) (d', cs, ls)"
| reserve_upto: "unused_arena a d (all_blocks env cs ls) \<Longrightarrow> at_rest a cs \<Longrightarrow>
     dev_reserve_upto a b d = (r, d') \<Longrightarrow> thread_step env strict (d, cs, ls) (d', cs, ls)"
| grow: "map_of (dev_arenas d) a = Some ar \<Longrightarrow> dev_arena_allocated ar \<le> dev_arena_size ar \<Longrightarrow>
     at_rest a cs \<Longrightarrow> dev_grow_reservation_by a b d = (ok, d') \<Longrightarrow>
     thread_step env strict (d, cs, ls) (d', cs, ls)"
| shrink: "at_rest a cs \<Longrightarrow> thread_step env strict (d, cs, ls) (dev_shrink_reservation_to_fit a d, cs, ls)"
| release: "at_rest a cs \<Longrightarrow> thread_step env strict (d, cs, ls) (dev_release_reservation a d, cs, ls)"
| attach: "strict \<longrightarrow> policy = Some fail_reservation_limit_policy \<Longrightarrow>
     get_tracker_state at d \<noteq> None \<longrightarrow> (\<forall>a. arena = Some a \<longrightarrow> at_rest a cs) \<Longrightarrow>
     attach_reservation_to_tracker at arena policy oom d = (ok, d') \<Longrightarrow>
     thread_step env strict (d, cs, ls) (d', cs, ls)"
| detach: "\<forall>st a. get_tracker_state at d = Some st \<longrightarrow> memory_reservation st = Some a \<longrightarrow> at_rest a cs \<Longrightarrow>
     thread_step env strict (d, cs, ls) (reset_stream_reservation at d, cs, ls)"
| begin_allocate: "unat (padded env bytes) < 2 ^ 62 \<Longrightarrow>
     device_atom env (Enter_allocate bytes at) d = (Goes_on c, d') \<Longrightarrow>
     thread_step env strict (d, cs, ls) (d', c # cs, ls)"
| begin_free: "x \<in> set ls \<Longrightarrow> x = (ptr, padded env bytes, owner) \<Longrightarrow>
     (case get_tracker_state at d of
        None \<Rightarrow> unowned (dev_arenas d) x
      | Some st \<Rightarrow> memory_reservation st = owner \<and> \<not> unowned (dev_arenas d) x) \<Longrightarrow>
     device_atom env (Enter_deallocate ptr bytes at) d = (Goes_on c, d') \<Longrightarrow>
     thread_step env strict (d, cs, ls) (d', c # cs, remove1 x ls)"
| goes_on: "device_atom env c d = (p, d') \<Longrightarrow>
     thread_step env strict (d, xs @ c # ys, ls) (d', xs @ left_of p @ ys, handed_block env c p @ ls)"

abbreviation threads_reachable ::
  "'u device_rmm \<Rightarrow> bool \<Rightarrow> 'u device_adaptor \<Rightarrow> 'u device_adaptor \<Rightarrow> device_call list \<Rightarrow> dev_block list \<Rightarrow> bool"
where
  "threads_reachable env strict d0 d cs ls \<equiv> (thread_step env strict)\<^sup>*\<^sup>* (d0, [], []) (d, cs, ls)"

section \<open>The invariant under the fail policy\<close>

text \<open>Nothing that a call of a tracked stream does reaches the pool's counter.\<close>

fun sound_call :: "'u device_rmm \<Rightarrow> 'u device_adaptor \<Rightarrow> device_call \<Rightarrow> bool" where
  "sound_call env d (Read_size bytes stream st) =
     (reservation_policy st = Some fail_reservation_limit_policy \<and> unat (padded env bytes) < 2 ^ 62)"
| "sound_call env d (Try_reserved bytes stream st r) =
     (reservation_policy st = Some fail_reservation_limit_policy \<and> unat (padded env bytes) < 2 ^ 62
      \<and> (\<exists>a ar. memory_reservation st = Some a \<and> map_of (dev_arenas d) a = Some ar \<and> r = dev_arena_size ar))"
| "sound_call env d (Ask_policy bytes stream st r post) =
     (reservation_policy st = Some fail_reservation_limit_policy)"
| "sound_call env d (Add_anyway bytes stream st r) = False"
| "sound_call env d (Charge bytes stream owner tr) =
     (unat (padded env bytes) < 2 ^ 62 \<and> tr = (if owner = None then padded env bytes else 0)
      \<and> (owner \<noteq> None \<longrightarrow> (\<exists>a. owner_of owner = Some a \<and> map_of (dev_arenas d) a \<noteq> None)))"
| "sound_call env d (Allocate_upstream bytes stream owner tr post) =
     (unat (padded env bytes) < 2 ^ 62 \<and> tr = (if owner = None then padded env bytes else 0)
      \<and> (owner \<noteq> None \<longrightarrow> (\<exists>a. owner_of owner = Some a \<and> map_of (dev_arenas d) a \<noteq> None)))"
| "sound_call env d (Uncharge bytes owner tr e) =
     (unat (padded env bytes) < 2 ^ 62 \<and> tr = (if owner = None then padded env bytes else 0)
      \<and> (owner \<noteq> None \<longrightarrow> (\<exists>a. owner_of owner = Some a \<and> map_of (dev_arenas d) a \<noteq> None)))"
| "sound_call env d (Take_back bytes st e) =
     (unat (padded env bytes) < 2 ^ 62
      \<and> (\<exists>a. memory_reservation st = Some a \<and> map_of (dev_arenas d) a \<noteq> None))"
| "sound_call env d (Free_read_size ptr bytes stream st) =
     (\<exists>a. memory_reservation st = Some a \<and> map_of (dev_arenas d) a \<noteq> None)"
| "sound_call env d (Free_sub ptr bytes stream st r) =
     (\<exists>a ar. memory_reservation st = Some a \<and> map_of (dev_arenas d) a = Some ar \<and> r = dev_arena_size ar)"
| "sound_call env d (Free_upstream ptr bytes stream reclaimed) = True"
| "sound_call env d (Give_back reclaimed) = True"
| "sound_call env d (Enter_allocate bytes at) = False"
| "sound_call env d (Enter_deallocate ptr bytes at) = False"

definition within_reservations :: "'u device_adaptor \<Rightarrow> bool" where
  "within_reservations d \<longleftrightarrow>
     (\<forall>a ar. map_of (dev_arenas d) a = Some ar \<longrightarrow> dev_arena_allocated ar \<le> dev_arena_size ar)"

definition fail_everywhere :: "'u device_adaptor \<Rightarrow> bool" where
  "fail_everywhere d \<longleftrightarrow>
     (\<forall>key st. map_of (allocation_tracker d) key = Some st \<longrightarrow>
        reservation_policy st = Some fail_reservation_limit_policy)"

definition threads_inv ::
  "'u device_rmm \<Rightarrow> 'u device_adaptor \<Rightarrow> device_call list \<Rightarrow> dev_block list \<Rightarrow> bool" where
  "threads_inv env d cs ls \<longleftrightarrow>
     dev_inv d (all_blocks env cs ls) \<and> within_reservations d \<and> fail_everywhere d
     \<and> list_all (sound_call env d) cs"

section \<open>Blocks in any order\<close>

lemma sum_where_mset: "mset xs = mset ys \<Longrightarrow> sum_where w P xs = sum_where w P ys"
  unfolding sum_where_def by (simp only: mset_map flip: sum_mset_sum_list)

lemma dev_inv_mset: "mset ls = mset ls' \<Longrightarrow> dev_inv d ls \<longleftrightarrow> dev_inv d ls'"
  by (simp add: dev_inv_def dev_accounted_def sum_where_mset [of ls ls'])

lemma dev_inv_upstream [simp]: "dev_inv (d\<lparr>dev_upstream := u\<rparr>) ls \<longleftrightarrow> dev_inv d ls"
  by (simp add: dev_inv_def dev_accounted_def)

lemma dev_inv_pointer: "dev_inv d ((p, n, x) # ls) \<longleftrightarrow> dev_inv d ((q, n, x) # ls)"
  by (simp add: dev_inv_def dev_accounted_def owned_by_def unowned_def block_bytes_def)

lemma all_blocks_split:
  "mset (all_blocks env (xs @ c # ys) ls) = mset (in_flight env c @ all_blocks env (xs @ ys) ls)"
  "mset (all_blocks env (xs @ left_of p @ ys) (new @ ls))
     = mset (concat (map (in_flight env) (left_of p)) @ new @ all_blocks env (xs @ ys) ls)"
  by (simp_all add: all_blocks_def)

section \<open>The sizes that calls have read\<close>

definition same_sizes :: "'u device_adaptor \<Rightarrow> 'u device_adaptor \<Rightarrow> bool" where
  "same_sizes d d' \<longleftrightarrow>
     (\<forall>a. map_option dev_arena_size (map_of (dev_arenas d') a) = map_option dev_arena_size (map_of (dev_arenas d) a))"

lemma sound_call_frame:
  assumes "sound_call env d c"
    and "\<And>a. arena_in_use c = Some a \<Longrightarrow>
      map_option dev_arena_size (map_of (dev_arenas d') a) = map_option dev_arena_size (map_of (dev_arenas d) a)"
  shows "sound_call env d' c"
  using assms by (cases c) (auto simp: map_option_case split: option.splits if_splits)

lemma sound_calls_same_sizes:
  "list_all (sound_call env d) cs \<Longrightarrow> same_sizes d d' \<Longrightarrow> list_all (sound_call env d') cs"
  by (auto simp: list_all_iff same_sizes_def intro: sound_call_frame)

section \<open>Accesses to the arena\<close>

text \<open>The use of an arena moves below its size: the pool is not concerned.\<close>

lemma use_changes:
  assumes inv: "dev_inv d ls" and a: "map_of (dev_arenas d) a = Some ar" and w: "within_reservations d"
    and u: "0 \<le> u" "u \<le> dev_arena_size ar"
    and this_arena: "sum_where block_bytes (owned_by a) ls' = nat u"
    and others: "\<And>a'. a' \<noteq> a \<Longrightarrow> sum_where block_bytes (owned_by a') ls'
                                 = sum_where block_bytes (owned_by a') ls"
    and loose: "sum_where block_bytes (unowned (dev_arenas d)) ls'
              = sum_where block_bytes (unowned (dev_arenas d)) ls"
    and ar': "dev_arena_size ar' = dev_arena_size ar" "dev_arena_allocated ar' = u"
  shows "dev_inv (set_arena a ar' d) ls' \<and> within_reservations (set_arena a ar' d)
    \<and> same_sizes d (set_arena a ar' d)"
proof -
  have le: "dev_arena_allocated ar \<le> dev_arena_size ar" using w a by (simp add: within_reservations_def)
  have "held ar' = held ar" using le u ar' by (simp add: held_def dev_footprint_def)
  moreover have "total_allocated_bytes d \<le> dev_capacity d" using inv by (simp add: dev_inv_def)
  ultimately have "dev_inv (set_arena a ar' d) ls'"
    using u ar' this_arena loose dev_inv_arena(1) [OF inv a] others
    by (intro dev_inv_arena_change [OF inv a, where ar' = ar']) (simp_all add: set_arena_def same_limits_def)
  moreover have "within_reservations (set_arena a ar' d)"
    using w u ar' by (auto simp: within_reservations_def set_arena_def)
  moreover have "same_sizes d (set_arena a ar' d)"
    using a ar' by (auto simp: same_sizes_def set_arena_def)
  ultimately show ?thesis by blast
qed

lemma block_taken:
  assumes inv: "dev_inv d ls" and a: "map_of (dev_arenas d) a = Some ar" and w: "within_reservations d"
    and fits: "dev_arena_allocated ar + int (unat n) \<le> dev_arena_size ar"
    and ar': "dev_arena_size ar' = dev_arena_size ar"
      "dev_arena_allocated ar' = dev_arena_allocated ar + int (unat n)"
  shows "dev_inv (set_arena a ar' d) ((p, n, Some a) # ls) \<and> within_reservations (set_arena a ar' d)
    \<and> same_sizes d (set_arena a ar' d)"
proof (rule use_changes [OF inv a w])
  note ar = dev_inv_arena [OF inv a]
  show "0 \<le> dev_arena_allocated ar + int (unat n)" using ar(2) by (simp del: of_nat_unat)
  show "sum_where block_bytes (owned_by a) ((p, n, Some a) # ls) = nat (dev_arena_allocated ar + int (unat n))"
    using ar(2,3) by (simp add: owned_by_def block_bytes_def nat_add_distrib del: of_nat_unat)
qed (use a fits ar' in \<open>simp_all add: owned_by_def unowned_def del: of_nat_unat\<close>)

lemma block_given_back:
  assumes inv: "dev_inv d ((p, n, Some a) # ls)" and a: "map_of (dev_arenas d) a = Some ar"
    and w: "within_reservations d"
  shows "to_i64 n = int (unat n)"
    and "wrap_i64 (dev_arena_allocated ar - int (unat n)) = dev_arena_allocated ar - int (unat n)"
    and "dev_inv (set_arena a (ar\<lparr>dev_arena_allocated := dev_arena_allocated ar - int (unat n)\<rparr>) d) ls
      \<and> within_reservations (set_arena a (ar\<lparr>dev_arena_allocated := dev_arena_allocated ar - int (unat n)\<rparr>) d)
      \<and> same_sizes d (set_arena a (ar\<lparr>dev_arena_allocated := dev_arena_allocated ar - int (unat n)\<rparr>) d)"
proof -
  note ar = dev_inv_arena [OF inv a]
  have sum: "unat n + sum_where block_bytes (owned_by a) ls = nat (dev_arena_allocated ar)"
    using ar(3) by (simp add: owned_by_def block_bytes_def)
  then have le: "int (unat n) \<le> dev_arena_allocated ar" using ar(2) by linarith
  have "int (unat n) < 2 ^ 63" using le ar(6) by (simp del: of_nat_unat)
  then have "unat n < 2 ^ 63" by (simp only: of_nat_less_numeral_power_cancel_iff)
  then show "to_i64 n = int (unat n)" by (rule to_i64_small)
  show "wrap_i64 (dev_arena_allocated ar - int (unat n)) = dev_arena_allocated ar - int (unat n)"
    using le ar(6) by (intro wrap_i64_id) (simp_all del: of_nat_unat add: order_le_less_trans [of _ "dev_arena_allocated ar"])
  have within: "dev_arena_allocated ar \<le> dev_arena_size ar" using w a by (simp add: within_reservations_def)
  show "dev_inv (set_arena a (ar\<lparr>dev_arena_allocated := dev_arena_allocated ar - int (unat n)\<rparr>) d) ls
      \<and> within_reservations (set_arena a (ar\<lparr>dev_arena_allocated := dev_arena_allocated ar - int (unat n)\<rparr>) d)
      \<and> same_sizes d (set_arena a (ar\<lparr>dev_arena_allocated := dev_arena_allocated ar - int (unat n)\<rparr>) d)"
  proof (rule use_changes [OF inv a w])
    show "0 \<le> dev_arena_allocated ar - int (unat n)" using le by simp
    show "dev_arena_allocated ar - int (unat n) \<le> dev_arena_size ar" using within by linarith
    show "sum_where block_bytes (owned_by a) ls = nat (dev_arena_allocated ar - int (unat n))"
      using sum le by (simp add: nat_diff_distrib del: of_nat_unat)
  qed (use a in \<open>simp_all add: owned_by_def unowned_def\<close>)
qed

section \<open>Accesses to the pool\<close>

lemma pool_charged:
  assumes inv: "dev_inv d ls" and t: "try_add (total_allocated_bytes d) n (dev_capacity d) = (True, post)"
    and d': "dev_arenas d' = dev_arenas d" "number_of_allocations d' = number_of_allocations d"
      "same_limits d d'" "total_allocated_bytes d' = post"
  shows "dev_inv d' ((p, n, None) # ls)"
proof (rule dev_inv_loose_change [OF inv d'(3,2,1)])
  from t have "unat post = unat (total_allocated_bytes d) + unat n" "post \<le> dev_capacity d"
    using try_add_u64(2) [of "total_allocated_bytes d" n "dev_capacity d"]
      try_add_bound [of "total_allocated_bytes d" n "dev_capacity d"] by simp_all
  then show "unat (total_allocated_bytes d') + sum_where block_bytes (unowned (dev_arenas d)) ls
      = unat (total_allocated_bytes d) + sum_where block_bytes (unowned (dev_arenas d)) ((p, n, None) # ls)"
    and "total_allocated_bytes d' \<le> dev_capacity d"
    using d' by (simp_all add: unowned_def block_bytes_def)
qed (simp add: owned_by_def)

lemma pool_given_back:
  assumes inv: "dev_inv d ((p, n, None) # ls)"
    and d': "dev_arenas d' = dev_arenas d" "number_of_allocations d' = number_of_allocations d"
      "same_limits d d'" "total_allocated_bytes d' = sub (total_allocated_bytes d) n"
  shows "dev_inv d' ls"
proof -
  have le: "unat n \<le> unat (total_allocated_bytes d)"
    using inv by (simp add: dev_inv_def dev_accounted_def unowned_def block_bytes_def)
  then have u: "unat (total_allocated_bytes d') + unat n = unat (total_allocated_bytes d)"
    using d'(4) by (simp add: sub_def unat_sub_exact)
  have "total_allocated_bytes d \<le> dev_capacity d" using inv by (simp add: dev_inv_def)
  with u have "total_allocated_bytes d' \<le> dev_capacity d" by (simp add: word_le_nat_alt)
  then show ?thesis
    using u by (intro dev_inv_loose_change [OF inv d'(3,2,1)]) (simp_all add: unowned_def block_bytes_def owned_by_def)
qed

lemma empty_block:
  "dev_inv d ((p, 0, None) # ls) \<longleftrightarrow> dev_inv d ls"
  by (simp add: dev_inv_def dev_accounted_def owned_by_def unowned_def block_bytes_def)

lemma same_sizes_refl [simp]: "dev_arenas d' = dev_arenas d \<Longrightarrow> same_sizes d d'"
  by (simp add: same_sizes_def)

lemma within_updates [simp]:
  "within_reservations (d\<lparr>dev_upstream := u\<rparr>) \<longleftrightarrow> within_reservations d"
  "within_reservations (d\<lparr>total_allocated_bytes := n\<rparr>) \<longleftrightarrow> within_reservations d"
  "within_reservations (d\<lparr>peak_total_allocated_bytes := n\<rparr>) \<longleftrightarrow> within_reservations d"
  by (simp_all add: within_reservations_def)

section \<open>One access of a call\<close>

text \<open>What an access leads to: the new call, the block handed out, and the rest.\<close>

definition atom_sound ::
  "'u device_rmm \<Rightarrow> 'u device_adaptor \<Rightarrow> device_call \<Rightarrow> dev_block list \<Rightarrow> progress \<times> 'u device_adaptor \<Rightarrow> bool"
where
  "atom_sound env d c rest r \<longleftrightarrow>
     (case r of (p, d') \<Rightarrow>
        dev_inv d' (concat (map (in_flight env) (left_of p)) @ handed_block env c p @ rest)
        \<and> within_reservations d' \<and> same_sizes d d' \<and> allocation_tracker d' = allocation_tracker d
        \<and> list_all (sound_call env d') (left_of p))"

lemma try_reserved_sound:
  assumes inv: "dev_inv d rest" and w: "within_reservations d"
    and ok: "sound_call env d (Try_reserved bytes stream st r)"
  shows "atom_sound env d (Try_reserved bytes stream st r) rest (device_atom env (Try_reserved bytes stream st r) d)"
proof -
  let ?n = "padded env bytes"
  obtain a ar where a: "memory_reservation st = Some a" "map_of (dev_arenas d) a = Some ar"
    and r: "r = dev_arena_size ar" and n: "unat ?n < 2 ^ 62"
    and pol: "reservation_policy st = Some fail_reservation_limit_policy"
    using ok by auto
  note ar = dev_inv_arena [OF inv a(2)]
  have arena: "tracked_arena st d = Inr (a, ar)" using a by (simp add: tracked_arena_def)
  have i: "to_i64 ?n = int (unat ?n)" using n by (intro to_i64_small) simp
  show ?thesis
  proof (cases "dev_arena_allocated ar + int (unat ?n) \<le> dev_arena_size ar")
    case False
    then have "try_add (dev_arena_allocated ar) (to_i64 ?n) r = (False, dev_arena_allocated ar)"
      by (simp add: try_add_int i r del: of_nat_unat)
    with arena inv w pol show ?thesis
      by (simp add: atom_sound_def on_arena_of_def left_of_def handed_block_def)
  next
    case True
    let ?post = "dev_arena_allocated ar + int (unat ?n)"
    have "try_add (dev_arena_allocated ar) (to_i64 ?n) r = (True, ?post)"
      using True by (simp add: try_add_int i r del: of_nat_unat)
    moreover have pre: "wrap_i64 (?post - int (unat ?n)) = dev_arena_allocated ar"
      using ar(2,6) by (simp add: wrap_i64_id del: of_nat_unat)
    have zero: "?n = 0" if "\<not> ?post < r" "\<not> dev_arena_allocated ar < r"
    proof -
      have "int (unat ?n) = 0" using that True r by (simp del: of_nat_unat)
      then show ?thesis by (simp add: unat_eq_zero del: of_nat_unat)
    qed
    have "?post - r = 0" if "\<not> ?post < r" using that True r by (simp del: of_nat_unat)
    with zero have "upstream_tracking ?n r ?post = 0"
      unfolding upstream_tracking_def Let_def i pre by (auto simp: to_u64_def simp del: of_nat_unat)
    ultimately have atom: "device_atom env (Try_reserved bytes stream st r) d
        = (Goes_on (Charge bytes stream (Some st) 0), set_arena a (arena_after_add ar ?post) d)"
      using arena by (simp add: on_arena_of_def)
    have "dev_arena_size (arena_after_add ar ?post) = dev_arena_size ar"
      "dev_arena_allocated (arena_after_add ar ?post) = ?post" by (simp_all add: arena_after_add_def)
    from block_taken [OF inv a(2) w True this] show ?thesis
      unfolding atom_sound_def atom
      using a n by (simp add: left_of_def handed_block_def owner_of_def set_arena_def)
  qed
qed

lemma charge_sound:
  assumes inv: "dev_inv d (in_flight env (Charge bytes stream owner tr) @ rest)" and w: "within_reservations d"
    and ok: "sound_call env d (Charge bytes stream owner tr)"
  shows "atom_sound env d (Charge bytes stream owner tr) rest (device_atom env (Charge bytes stream owner tr) d)"
proof (cases owner)
  case None
  obtain b post where t: "try_add (total_allocated_bytes d) tr (dev_capacity d) = (b, post)" by fastforce
  show ?thesis
  proof (cases b)
    case True
    let ?d = "d\<lparr>total_allocated_bytes := post,
      peak_total_allocated_bytes := update_peak (peak_total_allocated_bytes d) post\<rparr>"
    have "dev_inv d rest" using inv None by simp
    from pool_charged [OF this, of tr post ?d 0] show ?thesis
      using t True ok w None
      by (simp add: atom_sound_def left_of_def handed_block_def owner_of_def same_limits_def
          del: of_nat_unat)
  next
    case False
    with t inv w None show ?thesis
      by (simp add: atom_sound_def left_of_def handed_block_def rethrown_def)
  qed
next
  case (Some st)
  have tr: "tr = 0" using ok Some by simp
  have "total_allocated_bytes d \<le> dev_capacity d" using inv by (simp add: dev_inv_def)
  then have t: "try_add (total_allocated_bytes d) tr (dev_capacity d) = (True, total_allocated_bytes d)"
    by (simp add: try_add_def tr)
  let ?d = "d\<lparr>peak_total_allocated_bytes := update_peak (peak_total_allocated_bytes d) (total_allocated_bytes d)\<rparr>"
  have "dev_inv ?d (in_flight env (Charge bytes stream owner tr) @ rest)"
    by (rule dev_inv_same [OF inv]) (simp_all add: same_limits_def)
  with t ok w Some show ?thesis
    by (simp add: atom_sound_def left_of_def handed_block_def owner_of_def del: of_nat_unat)
qed

lemma upstream_sound:
  assumes inv: "dev_inv d (in_flight env (Allocate_upstream bytes stream owner tr post) @ rest)"
    and w: "within_reservations d" and ok: "sound_call env d (Allocate_upstream bytes stream owner tr post)"
  shows "atom_sound env d (Allocate_upstream bytes stream owner tr post) rest
    (device_atom env (Allocate_upstream bytes stream owner tr post) d)"
proof -
  obtain x u where x: "allocate_async env bytes stream (dev_upstream d) = (x, u)" by fastforce
  have inv': "dev_inv (d\<lparr>dev_upstream := u\<rparr>) ((p, padded env bytes, owner_of owner) # rest)" for p
    using inv dev_inv_pointer [of d p _ _ _ 0] by simp
  from x inv' w ok show ?thesis
    by (cases x) (auto simp: atom_sound_def left_of_def handed_block_def)
qed

lemma uncharge_sound:
  assumes inv: "dev_inv d (in_flight env (Uncharge bytes owner tr e) @ rest)"
    and w: "within_reservations d" and ok: "sound_call env d (Uncharge bytes owner tr e)"
  shows "atom_sound env d (Uncharge bytes owner tr e) rest (device_atom env (Uncharge bytes owner tr e) d)"
proof (cases owner)
  case None
  let ?d = "d\<lparr>total_allocated_bytes := sub (total_allocated_bytes d) tr\<rparr>"
  have "dev_inv ?d rest"
    by (rule pool_given_back [of d 0 tr]) (use inv ok None in \<open>simp_all add: owner_of_def same_limits_def\<close>)
  with w None show ?thesis
    by (simp add: atom_sound_def left_of_def handed_block_def rethrown_def)
next
  case (Some st)
  with inv ok w show ?thesis
    by (simp add: atom_sound_def left_of_def handed_block_def rethrown_def owner_of_def sub_def)
qed

lemma take_back_sound:
  assumes inv: "dev_inv d (in_flight env (Take_back bytes st e) @ rest)"
    and w: "within_reservations d" and ok: "sound_call env d (Take_back bytes st e)"
  shows "atom_sound env d (Take_back bytes st e) rest (device_atom env (Take_back bytes st e) d)"
proof -
  obtain a ar where a: "memory_reservation st = Some a" "map_of (dev_arenas d) a = Some ar" using ok by auto
  have "dev_inv d ((0, padded env bytes, Some a) # rest)" using inv a by simp
  note off = block_given_back [OF this a(2) w]
  have "tracked_arena st d = Inr (a, ar)" using a by (simp add: tracked_arena_def)
  with off show ?thesis
    by (simp add: atom_sound_def on_arena_of_def left_of_def handed_block_def set_arena_def del: of_nat_unat)
qed

lemma free_sub_sound:
  assumes inv: "dev_inv d (in_flight env (Free_sub ptr bytes stream st r) @ rest)"
    and w: "within_reservations d" and ok: "sound_call env d (Free_sub ptr bytes stream st r)"
  shows "atom_sound env d (Free_sub ptr bytes stream st r) rest (device_atom env (Free_sub ptr bytes stream st r) d)"
proof -
  let ?n = "padded env bytes"
  obtain a ar where a: "memory_reservation st = Some a" "map_of (dev_arenas d) a = Some ar"
    and r: "r = dev_arena_size ar" using ok by auto
  have inv': "dev_inv d ((ptr, ?n, Some a) # rest)" using inv a by simp
  note off = block_given_back [OF inv' a(2) w] and ar = dev_inv_arena [OF inv' a(2)]
  let ?post = "dev_arena_allocated ar - int (unat ?n)"
  have "wrap_i64 (?post + int (unat ?n)) = dev_arena_allocated ar"
    using ar(2,6) by (simp add: wrap_i64_id)
  moreover have "dev_arena_allocated ar \<le> r" using w a(2) r by (simp add: within_reservations_def)
  ultimately have "upstream_reclaimed ?n r ?post = 0"
    by (simp add: upstream_reclaimed_def Let_def off(1) del: of_nat_unat)
  moreover have "tracked_arena st d = Inr (a, ar)" using a by (simp add: tracked_arena_def)
  ultimately have "device_atom env (Free_sub ptr bytes stream st r) d
      = (Goes_on (Free_upstream ptr bytes stream 0), set_arena a (ar\<lparr>dev_arena_allocated := ?post\<rparr>) d)"
    using off(1,2) by (simp add: on_arena_of_def Let_def del: of_nat_unat)
  with off(3) show ?thesis
    by (simp add: atom_sound_def left_of_def handed_block_def empty_block set_arena_def del: of_nat_unat)
qed

lemma device_atom_sound:
  assumes inv: "dev_inv d (in_flight env c @ rest)" and w: "within_reservations d" and ok: "sound_call env d c"
  shows "atom_sound env d c rest (device_atom env c d)"
proof (cases c)
  case (Read_size bytes stream st)
  with assms show ?thesis
    by (auto simp: atom_sound_def on_arena_of_def left_of_def handed_block_def tracked_arena_def
        split: option.splits)
next
  case (Try_reserved bytes stream st r)
  with try_reserved_sound [of d rest env bytes stream st r] assms show ?thesis by simp
next
  case (Ask_policy bytes stream st r post)
  with assms show ?thesis
    by (auto simp: atom_sound_def on_arena_of_def left_of_def handed_block_def tracked_arena_def Let_def
        split: option.splits)
next
  case (Charge bytes stream owner tr)
  with charge_sound assms show ?thesis by blast
next
  case (Allocate_upstream bytes stream owner tr post)
  with upstream_sound assms show ?thesis by blast
next
  case (Uncharge bytes owner tr e)
  with uncharge_sound assms show ?thesis by blast
next
  case (Take_back bytes st e)
  with take_back_sound assms show ?thesis by blast
next
  case (Free_read_size ptr bytes stream st)
  with assms show ?thesis
    by (auto simp: atom_sound_def on_arena_of_def left_of_def handed_block_def tracked_arena_def
        split: option.splits)
next
  case (Free_sub ptr bytes stream st r)
  with free_sub_sound assms show ?thesis by blast
next
  case (Free_upstream ptr bytes stream reclaimed)
  let ?d = "d\<lparr>dev_upstream := deallocate_async env ptr bytes stream (dev_upstream d)\<rparr>"
  have "dev_inv ?d ((0, reclaimed, None) # rest)"
    using inv Free_upstream dev_inv_pointer [of d ptr _ _ _ 0] by simp
  with Free_upstream w show ?thesis
    by (simp add: atom_sound_def left_of_def handed_block_def)
next
  case (Give_back reclaimed)
  let ?d = "d\<lparr>total_allocated_bytes := sub (total_allocated_bytes d) reclaimed\<rparr>"
  have "dev_inv ?d rest"
    by (rule pool_given_back [of d 0 reclaimed]) (use inv Give_back in \<open>simp_all add: same_limits_def\<close>)
  with Give_back w show ?thesis
    by (simp add: atom_sound_def left_of_def handed_block_def)
qed (use ok in simp_all)

section \<open>Runs\<close>

lemma inv_own_step:
  assumes inv: "threads_inv env d (xs @ c # ys) ls" and atom: "device_atom env c d = (p, d')"
  shows "threads_inv env d' (xs @ left_of p @ ys) (handed_block env c p @ ls)"
proof -
  have "dev_inv d (in_flight env c @ all_blocks env (xs @ ys) ls)"
    using inv dev_inv_mset [OF all_blocks_split(1) [of env xs c ys ls], of d] by (simp add: threads_inv_def)
  moreover have "within_reservations d" "sound_call env d c" using inv by (simp_all add: threads_inv_def)
  ultimately have "atom_sound env d c (all_blocks env (xs @ ys) ls) (p, d')"
    using device_atom_sound [of d env c] by (simp add: atom)
  then have new: "dev_inv d' (concat (map (in_flight env) (left_of p)) @ handed_block env c p @ all_blocks env (xs @ ys) ls)"
    "within_reservations d'" "same_sizes d d'" "allocation_tracker d' = allocation_tracker d"
    "list_all (sound_call env d') (left_of p)"
    by (simp_all add: atom_sound_def)
  have "list_all (sound_call env d') xs" "list_all (sound_call env d') ys"
    using inv by (auto simp: threads_inv_def intro: sound_calls_same_sizes [OF _ new(3)])
  with new inv show ?thesis
    using dev_inv_mset [OF all_blocks_split(2), of d' env xs p ys "handed_block env c p" ls]
    by (simp add: threads_inv_def fail_everywhere_def)
qed

text \<open>A step on an arena that no call reaches.\<close>

lemma inv_quiet_step:
  assumes inv: "threads_inv env d cs ls" and rest: "at_rest a cs"
    and others: "\<And>a'. a' \<noteq> a \<Longrightarrow> map_of (dev_arenas d') a' = map_of (dev_arenas d) a'"
    and books: "dev_inv d' (all_blocks env cs ls)"
    and this_arena: "\<And>ar. map_of (dev_arenas d') a = Some ar \<Longrightarrow> dev_arena_allocated ar \<le> dev_arena_size ar"
    and tracker: "fail_everywhere d'"
  shows "threads_inv env d' cs ls"
proof -
  have "within_reservations d'"
    using inv others this_arena unfolding threads_inv_def within_reservations_def by metis
  moreover have "sound_call env d' c" if "c \<in> set cs" for c
  proof (rule sound_call_frame)
    show "sound_call env d c" using inv that by (simp add: threads_inv_def list_all_iff)
    show "map_option dev_arena_size (map_of (dev_arenas d') a') = map_option dev_arena_size (map_of (dev_arenas d) a')"
      if "arena_in_use c = Some a'" for a'
      using that rest \<open>c \<in> set cs\<close> others [of a'] by (auto simp: at_rest_def list_all_iff)
  qed
  ultimately show ?thesis using books tracker by (simp add: threads_inv_def list_all_iff)
qed

lemma dev_reserve_arenas:
  assumes "dev_reserve a b d = (r, d') \<or> dev_reserve_upto a b d = (r, d')"
  shows "a' \<noteq> a \<Longrightarrow> map_of (dev_arenas d') a' = map_of (dev_arenas d) a'"
    and "allocation_tracker d' = allocation_tracker d"
    and "map_of (dev_arenas d') a = Some ar \<Longrightarrow>
      map_of (dev_arenas d) a = Some ar \<or> dev_arena_allocated ar = 0"
  using assms
  by (auto simp: dev_reserve_def dev_reserve_upto_def dev_do_reserve_def dev_do_reserve_upto_def
      new_device_arena_def set_arena_def split: prod.splits bool.splits if_splits)

lemma reserve_keeps_inv:
  assumes inv: "threads_inv env d cs ls" and fresh: "unused_arena a d (all_blocks env cs ls)"
    and rest: "at_rest a cs" and r: "dev_reserve a b d = (r, d') \<or> dev_reserve_upto a b d = (r, d')"
  shows "threads_inv env d' cs ls"
proof (rule inv_quiet_step [OF inv rest dev_reserve_arenas(1) [OF r]])
  have i: "dev_inv d (all_blocks env cs ls)" using inv by (simp add: threads_inv_def)
  show b: "dev_inv d' (all_blocks env cs ls)"
    using r dev_reserve_preserves [OF i fresh] dev_reserve_upto_preserves [OF i fresh] by blast
  show "dev_arena_allocated ar \<le> dev_arena_size ar" if "map_of (dev_arenas d') a = Some ar" for ar
    using dev_reserve_arenas(3) [OF r that] dev_inv_arena(1) [OF b that] inv
    by (auto simp: threads_inv_def within_reservations_def)
  show "fail_everywhere d'"
    using inv dev_reserve_arenas(2) [OF r] by (simp add: threads_inv_def fail_everywhere_def)
qed

lemma dev_grow_arenas:
  assumes "dev_grow_reservation_by a b d = (ok, d')" and "map_of (dev_arenas d) a = Some ar"
  shows "a' \<noteq> a \<Longrightarrow> map_of (dev_arenas d') a' = map_of (dev_arenas d) a'"
    and "allocation_tracker d' = allocation_tracker d"
    and "map_of (dev_arenas d') a = Some ar' \<Longrightarrow> dev_arena_allocated ar' = dev_arena_allocated ar
      \<and> (ar' = ar \<or> dev_arena_size ar' = dev_arena_size ar + to_i64 b)"
  using assms
  by (auto simp: dev_grow_reservation_by_def dev_do_reserve_def set_arena_def
      split: prod.splits bool.splits if_splits)

lemma dev_release_arenas [simp]:
  "a' \<noteq> a \<Longrightarrow> map_of (dev_arenas (dev_release_reservation a d)) a' = map_of (dev_arenas d) a'"
  "allocation_tracker (dev_release_reservation a d) = allocation_tracker d"
  by (auto simp: dev_release_reservation_def Let_def split: option.split)

lemma release_keeps_inv:
  assumes inv: "threads_inv env d cs ls" and rest: "at_rest a cs"
  shows "threads_inv env (dev_release_reservation a d) cs ls"
proof (rule inv_quiet_step [OF inv rest])
  show "dev_arena_allocated ar \<le> dev_arena_size ar"
    if "map_of (dev_arenas (dev_release_reservation a d)) a = Some ar" for ar
    using that by (auto simp: dev_release_reservation_def Let_def split: option.splits)
qed (use inv in \<open>auto simp: threads_inv_def fail_everywhere_def intro: dev_release_preserves\<close>)

lemma shrink_keeps_inv:
  assumes inv: "threads_inv env d cs ls" and rest: "at_rest a cs"
  shows "threads_inv env (dev_shrink_reservation_to_fit a d) cs ls"
proof (rule inv_quiet_step [OF inv rest])
  let ?d = "dev_shrink_reservation_to_fit a d"
  show "map_of (dev_arenas ?d) a' = map_of (dev_arenas d) a'" if "a' \<noteq> a" for a'
    using that by (auto simp: dev_shrink_reservation_to_fit_def set_arena_def Let_def split: option.split)
  show "dev_inv ?d (all_blocks env cs ls)"
    using inv by (auto simp: threads_inv_def intro: dev_shrink_preserves)
  show "dev_arena_allocated ar \<le> dev_arena_size ar" if "map_of (dev_arenas ?d) a = Some ar" for ar
    using that inv
    by (auto simp: threads_inv_def within_reservations_def dev_shrink_reservation_to_fit_def set_arena_def
        Let_def split: option.splits if_splits)
  show "fail_everywhere ?d"
    using inv by (auto simp: threads_inv_def fail_everywhere_def dev_shrink_reservation_to_fit_def
        set_arena_def Let_def split: option.split)
qed

lemma grow_keeps_inv:
  assumes inv: "threads_inv env d cs ls" and rest: "at_rest a cs"
    and m: "map_of (dev_arenas d) a = Some ar" and within: "dev_arena_allocated ar \<le> dev_arena_size ar"
    and g: "dev_grow_reservation_by a b d = (ok, d')"
  shows "threads_inv env d' cs ls"
proof (rule inv_quiet_step [OF inv rest dev_grow_arenas(1) [OF g m]])
  have i: "dev_inv d (all_blocks env cs ls)" using inv by (simp add: threads_inv_def)
  show b: "dev_inv d' (all_blocks env cs ls)" by (rule dev_grow_preserves [OF i m within g])
  show "dev_arena_allocated ar' \<le> dev_arena_size ar'" if "map_of (dev_arenas d') a = Some ar'" for ar'
  proof -
    obtain ok1 d1 where d1: "dev_do_reserve b (dev_memory_limit d) d = (ok1, d1)" by fastforce
    note c = dev_do_reserve_cases [OF d1]
    show ?thesis
    proof (cases ok1)
      case False
      with g d1 c(5) have "d' = d" by (auto simp: dev_grow_reservation_by_def)
      with that m within show ?thesis by simp
    next
      case True
      with c(4) i have "unat b < 2 ^ 62" by (auto simp: dev_inv_def word_le_nat_alt)
      then have "to_i64 b = int (unat b)" by (simp add: to_i64_small)
      with dev_grow_arenas(3) [OF g m that] within show ?thesis by (auto simp del: of_nat_unat)
    qed
  qed
  show "fail_everywhere d'"
    using inv dev_grow_arenas(2) [OF g m] by (simp add: threads_inv_def fail_everywhere_def)
qed

lemma attach_keeps_inv:
  assumes inv: "threads_inv env d cs ls" and pol: "policy = Some fail_reservation_limit_policy"
    and rest: "get_tracker_state at d \<noteq> None \<longrightarrow> (\<forall>a. arena = Some a \<longrightarrow> at_rest a cs)"
    and run: "attach_reservation_to_tracker at arena policy oom d = (ok, d')"
  shows "threads_inv env d' cs ls"
proof (cases "get_tracker_state at d")
  case None
  then have d': "dev_arenas d' = dev_arenas d" "fail_everywhere d'"
    "dev_inv d' (all_blocks env cs ls)"
    using run pol inv
    by (auto simp: attach_reservation_to_tracker_def threads_inv_def fail_everywhere_def split: if_splits)
  then have "same_sizes d d'" by simp
  with d' inv show ?thesis
    by (auto simp: threads_inv_def within_reservations_def intro: sound_calls_same_sizes)
next
  case (Some st)
  with run rest release_keeps_inv [OF inv] inv show ?thesis
    by (auto simp: attach_reservation_to_tracker_def split: option.splits)
qed

lemma detach_keeps_inv:
  assumes inv: "threads_inv env d cs ls"
    and rest: "\<forall>st a. get_tracker_state at d = Some st \<longrightarrow> memory_reservation st = Some a \<longrightarrow> at_rest a cs"
  shows "threads_inv env (reset_stream_reservation at d) cs ls"
proof -
  have less: "threads_inv env (d'\<lparr>allocation_tracker := alist_erase k (allocation_tracker d')\<rparr>) cs ls"
    if "threads_inv env d' cs ls" for d' k
  proof -
    have "same_sizes d' (d'\<lparr>allocation_tracker := alist_erase k (allocation_tracker d')\<rparr>)" by simp
    with that show ?thesis
      by (auto simp: threads_inv_def within_reservations_def fail_everywhere_def
          intro: sound_calls_same_sizes split: if_splits)
  qed
  show ?thesis
  proof (cases "get_tracker_state at d")
    case None
    with inv show ?thesis by (simp add: reset_stream_reservation_def)
  next
    case (Some st)
    with rest have "threads_inv env
        (case memory_reservation st of None \<Rightarrow> d | Some a \<Rightarrow> dev_release_reservation a d) cs ls"
      using inv release_keeps_inv [OF inv] by (cases "memory_reservation st") simp_all
    from less [OF this] Some show ?thesis by (simp add: reset_stream_reservation_def Let_def)
  qed
qed

lemma begin_allocate_keeps_inv:
  assumes inv: "threads_inv env d cs ls" and n: "unat (padded env bytes) < 2 ^ 62"
    and atom: "device_atom env (Enter_allocate bytes at) d = (Goes_on c, d')"
  shows "threads_inv env d' (c # cs) ls"
  using inv n atom
  by (auto simp: threads_inv_def all_blocks_def fail_everywhere_def get_tracker_state_def owner_of_def
      split: option.splits)

lemma begin_free_keeps_inv:
  assumes inv: "threads_inv env d cs ls" and x: "x \<in> set ls" "x = (ptr, padded env bytes, owner)"
    and settles: "case get_tracker_state at d of
        None \<Rightarrow> unowned (dev_arenas d) x
      | Some st \<Rightarrow> memory_reservation st = owner \<and> \<not> unowned (dev_arenas d) x"
    and atom: "device_atom env (Enter_deallocate ptr bytes at) d = (Goes_on c, d')"
  shows "threads_inv env d' (c # cs) (remove1 x ls)"
proof -
  let ?rest = "concat (map (in_flight env) cs) @ remove1 x ls"
  have "mset (all_blocks env cs ls) = mset (x # ?rest)"
    using x(1) by (simp add: all_blocks_def)
  then have i: "dev_inv d (x # ?rest)" using inv dev_inv_mset by (metis threads_inv_def)
  show ?thesis
  proof (cases "get_tracker_state at d")
    case None
    with settles have un: "unowned (dev_arenas d) x" by simp
    have "total_allocated_bytes d \<le> dev_capacity d" using i by (simp add: dev_inv_def)
    with i un x(2) have "dev_inv d ((ptr, padded env bytes, None) # ?rest)"
      by (intro dev_inv_loose_change [OF i])
         (auto simp: same_limits_def unowned_def owned_by_def block_bytes_def split: option.splits)
    with None atom inv show ?thesis by (auto simp: threads_inv_def all_blocks_def)
  next
    case (Some st)
    with settles have o: "memory_reservation st = owner" "\<not> unowned (dev_arenas d) x" by simp_all
    then obtain a where a: "owner = Some a" "map_of (dev_arenas d) a \<noteq> None"
      using x(2) by (auto simp: unowned_def split: option.splits)
    with Some atom inv i x(2) o show ?thesis by (auto simp: threads_inv_def all_blocks_def)
  qed
qed

lemma thread_step_inv:
  assumes "thread_step env True s s'" and "threads_inv env (fst s) (fst (snd s)) (snd (snd s))"
  shows "threads_inv env (fst s') (fst (snd s')) (snd (snd s'))"
  using assms
  by (induction rule: thread_step.induct)
     (auto simp del: device_atom.simps intro: reserve_keeps_inv grow_keeps_inv shrink_keeps_inv
       release_keeps_inv attach_keeps_inv detach_keeps_inv begin_allocate_keeps_inv begin_free_keeps_inv
       inv_own_step)

lemma threads_reachable_inv:
  assumes "limit \<le> capacity" and "unat capacity < 2 ^ 62"
    and "threads_reachable env True (new_device_adaptor i u limit capacity policy oom scope) d cs ls"
  shows "threads_inv env d cs ls"
proof -
  let ?d = "new_device_adaptor i u limit capacity policy oom scope"
  have "threads_inv env ?d [] []"
    using new_device_inv [OF assms(1,2)]
    by (simp add: threads_inv_def all_blocks_def within_reservations_def fail_everywhere_def new_device_adaptor_def)
  moreover have "threads_inv env (fst s') (fst (snd s')) (snd (snd s'))"
    if "(thread_step env True)\<^sup>*\<^sup>* (?d, [], []) s'" and "threads_inv env ?d [] []" for s'
    using that by (induction rule: rtranclp_induct) (simp_all add: thread_step_inv)
  ultimately show ?thesis using assms(3) by fastforce
qed

text \<open>
  Property C8. Exact books under threads. When every tracked stream has the fail policy, then in
  every interleaving of the accesses of any number of allocations and frees, failing ones included,
  with reservations being made, resized and dropped: the counter is the sum of the sizes of the live
  reservations and of the bytes outside them, of live blocks and of calls in flight; the use of a
  reservation is the sum of its live blocks and of what calls in flight hold of it, and never exceeds
  its size; and the counter never exceeds the capacity. What the clients keep in such a run: a block
  is freed on a stream that charges what its allocation was charged to; a reservation is resized,
  destroyed, attached anew or detached only while no call in flight reaches it, and grown only while
  it is not exceeded; allocations are below \<open>2 ^ 62\<close> bytes. (A block allocated on one kind of stream
  and freed on another shifts the counter: \<open>Device_Guarantees.free_elsewhere_shifts_counter\<close>.)
\<close>

theorem interleaved_counter_exact:
  assumes "limit \<le> capacity" and "unat capacity < 2 ^ 62"
    and "threads_reachable env True (new_device_adaptor i u limit capacity policy oom scope) d cs ls"
  shows "unat (total_allocated_bytes d)
      = alist_sum (\<lambda>ar. nat (dev_arena_size ar)) (dev_arenas d)
        + sum_where block_bytes (unowned (dev_arenas d)) (all_blocks env cs ls)
    \<and> (\<forall>a ar. map_of (dev_arenas d) a = Some ar \<longrightarrow>
         nat (dev_arena_allocated ar) = sum_where block_bytes (owned_by a) (all_blocks env cs ls)
         \<and> dev_arena_allocated ar \<le> dev_arena_size ar)
    \<and> total_allocated_bytes d \<le> dev_capacity d"
proof -
  have inv: "dev_inv d (all_blocks env cs ls)" and w: "within_reservations d"
    using threads_reachable_inv [OF assms] by (simp_all add: threads_inv_def)
  have "distinct (map fst (dev_arenas d))" using inv by (simp add: dev_inv_def)
  then have "alist_sum held (dev_arenas d) = alist_sum (\<lambda>ar. nat (dev_arena_size ar)) (dev_arenas d)"
    using w by (intro alist_sum_cong) (auto simp: within_reservations_def held_def dev_footprint_def)
  with inv w show ?thesis by (auto simp: dev_inv_def dev_accounted_def within_reservations_def)
qed

end
