(* ===== verification/Device_Races.thy ===== *)
theory Device_Races
  imports Device_Interleaving
begin

text \<open>
  Two concrete interleavings on \<open>reservation_aware_resource_adaptor\<close>: one under the fail policy with
  several calls in flight, and one under the default policy that ruins the byte counter.
\<close>

section \<open>Paths\<close>

lemma handed_block_goes_on [simp]: "handed_block env c (Goes_on c') = []"
  by (cases c) (simp_all add: handed_block_def)

text \<open>A call at the head of the list makes its accesses one after the other.\<close>

lemma head_steps:
  assumes "run_call env k c d = (Goes_on c', d')"
  shows "(thread_step env strict)\<^sup>*\<^sup>* (d, c # cs, ls) (d', c' # cs, ls)"
  using assms
proof (induction k arbitrary: c d)
  case (Suc k)
  obtain p d1 where a: "device_atom env c d = (p, d1)" by fastforce
  with Suc.prems obtain c1 where p: "p = Goes_on c1" and r: "run_call env k c1 d1 = (Goes_on c', d')"
    by (cases p) (auto simp: run_call.simps)
  have "thread_step env strict (d, c # cs, ls) (d1, c1 # cs, ls)"
    using thread_step.goes_on [OF a, of strict "[]" cs ls] by (simp add: p left_of_def)
  then show ?case using Suc.IH [OF r] by (rule converse_rtranclp_into_rtranclp)
qed simp

lemma head_ends:
  assumes "device_atom env c d = (p, d')" and "left_of p = []"
  shows "thread_step env strict (d, c # cs, ls) (d', cs, handed_block env c p @ ls)"
  using thread_step.goes_on [OF assms(1), of strict "[]" cs ls] assms(2) by simp

section \<open>A device with one reservation\<close>

definition watched :: "reservation_limit_policy \<Rightarrow> stream_ordered_tracker_state" where
  "watched p = \<lparr>memory_reservation = Some 7, reservation_policy = Some p, oom_policy = throw_on_oom_policy\<rparr>"

lemma watched_simps [simp]:
  "memory_reservation (watched p) = Some 7" "reservation_policy (watched p) = Some p"
  by (simp_all add: watched_def)

definition empty_device :: "u64 \<Rightarrow> nat device_adaptor" where
  "empty_device capacity = new_device_adaptor (memory_space_id GPU 0) 0 capacity capacity None None PER_STREAM"

text \<open>512 bytes are reserved for stream 3; \<open>n\<close> bytes are in the pool's counter, \<open>used\<close> in the arena's.\<close>

definition shared_device ::
  "u64 \<Rightarrow> reservation_limit_policy \<Rightarrow> u64 \<Rightarrow> int \<Rightarrow> int \<Rightarrow> nat \<Rightarrow> nat device_adaptor" where
  "shared_device capacity p n used peak up =
     (empty_device capacity)
       \<lparr>allocation_tracker := [(3, watched p)], total_reserved_bytes := 512, number_of_allocations := 1,
        total_allocated_bytes := n, peak_total_allocated_bytes := 512, dev_upstream := up,
        dev_arenas := [(7, \<lparr>dev_arena_size = 512, dev_arena_allocated = used, dev_arena_peak = peak\<rparr>)]\<rparr>"

lemmas device_values =
  shared_device_def empty_device_def new_device_adaptor_def watched_def plain_rmm_def
  CUDA_ALLOCATION_ALIGNMENT_def padded_def

lemma shared_device_ready:
  assumes "512 \<le> capacity" and "strict \<longrightarrow> p = fail_reservation_limit_policy"
  shows "threads_reachable plain_rmm strict (empty_device capacity) (shared_device capacity p 512 0 0 0) [] []"
proof -
  let ?d = "(shared_device capacity p 512 0 0 0)\<lparr>allocation_tracker := []\<rparr>"
  have "unat (512 :: u64) \<le> unat capacity" using assms(1) by (simp only: word_le_nat_alt)
  then have "dev_reserve 7 512 (empty_device capacity) = (Some 7, ?d)"
    by (simp add: dev_reserve_def dev_do_reserve_def try_add_def device_values update_peak_def add_def
        new_device_arena_def set_arena_def to_i64_def word_less_nat_alt)
  then have "thread_step plain_rmm strict (empty_device capacity, [], []) (?d, [], [])"
    by (rule thread_step.reserve [rotated 2])
       (simp_all add: unused_arena_def all_blocks_def at_rest_def device_values)
  moreover have "thread_step plain_rmm strict (?d, [], []) (shared_device capacity p 512 0 0 0, [], [])"
    by (rule thread_step.attach [of _ "Some p" "(3, 0)" _ "Some 7" _ "Some throw_on_oom_policy" True])
       (use assms(2) in \<open>simp_all add: attach_reservation_to_tracker_def get_tracker_state_def tracker_key_def
          at_rest_def device_values\<close>)
  ultimately show ?thesis by (meson rtranclp.rtrancl_into_rtrancl rtranclp.rtrancl_refl)
qed

lemma shared_lookup [simp]:
  "get_tracker_state (3, t) (shared_device capacity p n used peak up) = Some (watched p)"
  "get_tracker_state (4, t) (shared_device capacity p n used peak up) = None"
  "tracked_arena (watched p) (shared_device capacity p n used peak up)
     = Inr (7, \<lparr>dev_arena_size = 512, dev_arena_allocated = used, dev_arena_peak = peak\<rparr>)"
  by (simp_all add: get_tracker_state_def tracker_key_def tracked_arena_def device_values)

lemma shared_values [simp]:
  "total_allocated_bytes (shared_device capacity p n used peak up) = n"
  "peak_total_allocated_bytes (shared_device capacity p n used peak up) = 512"
  "dev_capacity (shared_device capacity p n used peak up) = capacity"
  "dev_upstream (shared_device capacity p n used peak up) = up"
  "dev_arenas (shared_device capacity p n used peak up)
     = [(7, \<lparr>dev_arena_size = 512, dev_arena_allocated = used, dev_arena_peak = peak\<rparr>)]"
  by (simp_all add: device_values)

lemma shared_updates [simp]:
  "(shared_device capacity p n used peak up)\<lparr>total_allocated_bytes := m\<rparr> = shared_device capacity p m used peak up"
  "(shared_device capacity p n used peak up)\<lparr>total_allocated_bytes := m, peak_total_allocated_bytes := 512\<rparr>
     = shared_device capacity p m used peak up"
  "(shared_device capacity p n used peak up)\<lparr>dev_upstream := u\<rparr> = shared_device capacity p n used peak u"
  "set_arena 7 \<lparr>dev_arena_size = 512, dev_arena_allocated = x, dev_arena_peak = y\<rparr>
     (shared_device capacity p n used peak up) = shared_device capacity p n x y up"
  by (simp_all add: set_arena_def device_values)

lemma run_call_numeral [simp]:
  "run_call env (numeral k) c d =
     (case device_atom env c d of
        (Goes_on c', d') \<Rightarrow> run_call env (pred_numeral k) c' d'
      | (x, d') \<Rightarrow> (x, d'))"
  "run_call env (Suc 0) c d = (case device_atom env c d of (Goes_on c', d') \<Rightarrow> (Goes_on c', d') | r \<Rightarrow> r)"
  by (simp_all add: run_call.simps(2) numeral_eq_Suc split: prod.split progress.split)

text \<open>What the local computations of the calls give for the sizes used here.\<close>

lemmas call_values =
  on_arena_of_def try_add_def upstream_tracking_def upstream_reclaimed_def to_i64_def to_u64_def wrap_i64_def
  arena_after_add_def update_peak_def sub_def

lemma plain_padded [simp]: "padded plain_rmm 512 = 512" "padded plain_rmm 256 = 256"
  by (simp_all add: padded_def plain_rmm_def CUDA_ALLOCATION_ALIGNMENT_def)

section \<open>Under the fail policy\<close>

text \<open>
  An allocation of 256 bytes on stream 3 has taken them from the reservation, another of 512 bytes
  on stream 4 has taken them from the pool, and neither has reached the upstream.
\<close>

definition two_in_flight :: "nat device_adaptor" where
  "two_in_flight =
     (shared_device 4096 fail_reservation_limit_policy 1024 256 256 0)\<lparr>peak_total_allocated_bytes := 1024\<rparr>"

abbreviation calls_in_flight :: "device_call list" where
  "calls_in_flight \<equiv>
     [Allocate_upstream 512 4 None 512 1024, Charge 256 3 (Some (watched fail_reservation_limit_policy)) 0]"

lemma two_in_flight_reachable:
  "threads_reachable plain_rmm True (empty_device 4096) two_in_flight calls_in_flight []"
proof -
  let ?p = fail_reservation_limit_policy
  let ?d = "shared_device 4096 ?p 512 0 0 0" and ?d1 = "shared_device 4096 ?p 512 256 256 0"
  let ?c = "Charge 256 3 (Some (watched ?p)) 0"
  have ready: "threads_reachable plain_rmm True (empty_device 4096) ?d [] []"
    by (rule shared_device_ready) simp_all
  have b: "thread_step plain_rmm True (?d, [], []) (?d, [Read_size 256 3 (watched ?p)], [])"
    by (rule thread_step.begin_allocate [of _ 256 "(3, 0)"]) simp_all
  have "run_call plain_rmm 2 (Read_size 256 3 (watched ?p)) ?d = (Goes_on ?c, ?d1)"
    by (simp add: call_values)
  from head_steps [OF this] have p1: "(thread_step plain_rmm True)\<^sup>*\<^sup>*
      (?d, [Read_size 256 3 (watched ?p)], []) (?d1, [?c], [])" .
  have c: "thread_step plain_rmm True (?d1, [?c], []) (?d1, [Charge 512 4 None 512, ?c], [])"
    by (rule thread_step.begin_allocate [of _ 512 "(4, 0)"]) simp_all
  have "run_call plain_rmm 1 (Charge 512 4 None 512) ?d1 = (Goes_on (Allocate_upstream 512 4 None 512 1024), two_in_flight)"
    by (simp add: call_values two_in_flight_def)
  from head_steps [OF this] have p2: "(thread_step plain_rmm True)\<^sup>*\<^sup>*
      (?d1, [Charge 512 4 None 512, ?c], []) (two_in_flight, calls_in_flight, [])" .
  note rtranclp_trans [OF rtranclp.rtrancl_into_rtrancl [OF ready, OF b] p1]
  from rtranclp_trans [OF rtranclp.rtrancl_into_rtrancl [OF this, OF c] p2] show ?thesis by simp
qed

theorem interleaved_counter_exact_witness:
  "unat (total_allocated_bytes two_in_flight) = 1024
   \<and> sum_where block_bytes (owned_by 7) (all_blocks plain_rmm calls_in_flight []) = 256
   \<and> sum_where block_bytes (unowned (dev_arenas two_in_flight)) (all_blocks plain_rmm calls_in_flight []) = 512"
proof -
  have limit: "(4096 :: u64) \<le> 4096" "unat (4096 :: u64) < 2 ^ 62" by simp_all
  let ?ar = "\<lparr>dev_arena_size = 512, dev_arena_allocated = 256, dev_arena_peak = 256\<rparr>"
  note exact = interleaved_counter_exact [OF limit two_in_flight_reachable [unfolded empty_device_def]]
  have m: "map_of (dev_arenas two_in_flight) 7 = Some ?ar"
    and t: "total_allocated_bytes two_in_flight = 1024"
    and sizes: "alist_sum (\<lambda>ar. nat (dev_arena_size ar)) (dev_arenas two_in_flight) = 512"
    by (simp_all add: two_in_flight_def)
  have "nat (dev_arena_allocated ?ar) = sum_where block_bytes (owned_by 7) (all_blocks plain_rmm calls_in_flight [])"
    using exact m by blast
  moreover have "(1024 :: nat) = 512
      + sum_where block_bytes (unowned (dev_arenas two_in_flight)) (all_blocks plain_rmm calls_in_flight [])"
    using exact unfolding sizes t by simp
  ultimately show ?thesis using t by simp
qed

section \<open>Under the default policy\<close>

text \<open>
  On a device of 512 bytes, all of them reserved for stream 3 and allocated, a second allocation of
  512 bytes goes beyond the reservation, which the policy allows, and is refused by the pool.
\<close>

abbreviation tight_device :: "u64 \<Rightarrow> int \<Rightarrow> int \<Rightarrow> nat \<Rightarrow> nat device_adaptor" where
  "tight_device \<equiv> shared_device 512 ignore_reservation_limit_policy"

abbreviation loose_state :: stream_ordered_tracker_state where
  "loose_state \<equiv> watched ignore_reservation_limit_policy"

lemma first_allocation:
  "(thread_step plain_rmm False)\<^sup>*\<^sup>* (tight_device 512 0 0 0, [], [])
     (tight_device 512 512 512 512, [], [(0, 512, Some 7)])"
proof -
  let ?d = "tight_device 512 0 0 0" and ?c = "Read_size 512 3 loose_state"
  let ?u = "Allocate_upstream 512 3 (Some loose_state) 0 512"
  have enter: "thread_step plain_rmm False (?d, [], []) (?d, [?c], [])"
    by (rule thread_step.begin_allocate [of _ 512 "(3, 0)"]) simp_all
  have "run_call plain_rmm 3 ?c ?d = (Goes_on ?u, tight_device 512 512 512 0)"
    by (simp add: call_values)
  from head_steps [OF this] have run: "(thread_step plain_rmm False)\<^sup>*\<^sup>*
      (?d, [?c], []) (tight_device 512 512 512 0, [?u], [])" .
  have "device_atom plain_rmm ?u (tight_device 512 512 512 0) = (Returned 0, tight_device 512 512 512 512)"
    by (simp add: plain_rmm_def)
  from head_ends [OF this, of False "[]" "[]"] have
    "thread_step plain_rmm False (tight_device 512 512 512 0, [?u], [])
      (tight_device 512 512 512 512, [], [(0, 512, Some 7)])"
    by (simp add: left_of_def handed_block_def owner_of_def)
  with enter run show ?thesis
    by (meson rtranclp.rtrancl_into_rtrancl converse_rtranclp_into_rtranclp)
qed

text \<open>The second allocation, up to the point where it still has to take its bytes back.\<close>

abbreviation refused :: device_call where
  "refused \<equiv> Take_back 512 loose_state
     (cucascade_out_of_memory ''not enough capacity to allocate memory'' 512 512)"

lemma second_allocation:
  "(thread_step plain_rmm False)\<^sup>*\<^sup>* (tight_device 512 512 512 512, [], ls)
     (tight_device 512 1024 1024 512, [refused], ls)"
proof -
  let ?d = "tight_device 512 512 512 512" and ?c = "Read_size 512 3 loose_state"
  have "thread_step plain_rmm False (?d, [], ls) (?d, [?c], ls)"
    by (rule thread_step.begin_allocate [of _ 512 "(3, 0)"]) simp_all
  moreover have "run_call plain_rmm 5 ?c ?d = (Goes_on refused, tight_device 512 1024 1024 512)"
    by (simp add: call_values rethrown_def)
  ultimately show ?thesis
    using head_steps by (meson converse_rtranclp_into_rtranclp)
qed

text \<open>The first block is freed in between: the arena says that it lies beyond the reservation.\<close>

lemma free_in_between:
  "(thread_step plain_rmm False)\<^sup>*\<^sup>* (tight_device 512 1024 1024 512, [refused], [(0, 512, Some 7)])
     (tight_device 0 512 1024 512, [refused], [])"
proof -
  let ?d = "tight_device 512 1024 1024 512" and ?c = "Free_read_size 0 512 3 loose_state"
  let ?d1 = "tight_device 512 512 1024 512"
  have "thread_step plain_rmm False (?d, [refused], [(0, 512, Some 7)])
      (?d, [?c, refused], remove1 (0, 512, Some 7) [(0, 512, Some 7)])"
    by (rule thread_step.begin_free [of _ _ 0 _ 512 "Some 7" _ "(3, 0)"]) (simp_all add: unowned_def)
  then have enter: "thread_step plain_rmm False (?d, [refused], [(0, 512, Some 7)]) (?d, [?c, refused], [])"
    by simp
  have "run_call plain_rmm 3 ?c ?d = (Goes_on (Give_back 512), ?d1)"
    by (simp add: call_values) (simp add: plain_rmm_def)
  from head_steps [OF this] have run: "(thread_step plain_rmm False)\<^sup>*\<^sup>*
      (?d, [?c, refused], []) (?d1, [Give_back 512, refused], [])" .
  have "device_atom plain_rmm (Give_back 512) ?d1 = (Freed, tight_device 0 512 1024 512)"
    by (simp add: sub_def)
  from head_ends [OF this, of False "[refused]" "[]"] have
    "thread_step plain_rmm False (?d1, [Give_back 512, refused], []) (tight_device 0 512 1024 512, [refused], [])"
    by (simp add: left_of_def handed_block_def)
  with enter run show ?thesis
    by (meson rtranclp.rtrancl_into_rtrancl converse_rtranclp_into_rtranclp)
qed

lemma refused_ends:
  "thread_step plain_rmm False (tight_device 0 512 1024 512, [refused], []) (tight_device 0 0 1024 512, [], [])"
proof -
  have "device_atom plain_rmm refused (tight_device 0 512 1024 512)
      = (Threw_exn (cucascade_out_of_memory ''not enough capacity to allocate memory'' 512 512),
         tight_device 0 0 1024 512)"
    by (simp add: call_values)
  from head_ends [OF this, of False "[]" "[]"] show ?thesis by (simp add: left_of_def handed_block_def)
qed

text \<open>
  Property C9. Under a policy that allows allocations beyond the reservation, which the default one
  does, threads can ruin the byte counter for good. On a device of 512 bytes there is an
  interleaving of two allocations and a free after which nothing is allocated, no call is in flight
  and the only reservation has been dropped, yet the counter stands at \<open>2 ^ 64 - 512\<close>, and from then
  on every allocation on the device throws.
\<close>

theorem failed_allocation_races_free:
  "\<exists>d. threads_reachable plain_rmm False
         (new_device_adaptor (memory_space_id GPU 0) 0 512 512 None None PER_STREAM) d [] []
     \<and> dev_arenas d = [] \<and> allocation_tracker d = []
     \<and> unat (total_allocated_bytes d) = 2 ^ 64 - 512
     \<and> (\<forall>env bytes at. \<not> returns (fst (dev_do_allocate env bytes at d)))"
proof -
  let ?d = "tight_device 0 0 1024 512"
  define d where "d = reset_stream_reservation (3, 0) ?d"
  have "threads_reachable plain_rmm False (empty_device 512) (tight_device 512 0 0 0) [] []"
    by (rule shared_device_ready) simp_all
  note rtranclp_trans [OF rtranclp_trans [OF rtranclp_trans [OF this first_allocation]
    second_allocation] free_in_between]
  from rtranclp.rtrancl_into_rtrancl [OF this, OF refused_ends]
  have run: "threads_reachable plain_rmm False (empty_device 512) ?d [] []" .
  have "thread_step plain_rmm False (?d, [], []) (d, [], [])"
    unfolding d_def by (rule thread_step.detach) (simp add: at_rest_def)
  with run have "threads_reachable plain_rmm False (empty_device 512) d [] []"
    by (rule rtranclp.rtrancl_into_rtrancl)
  moreover have state: "dev_arenas d = []" "allocation_tracker d = []" "total_allocated_bytes d = - 512"
    "dev_capacity d = 512"
    by (simp_all add: d_def reset_stream_reservation_def)
       (simp_all add: dev_release_reservation_def device_values tracker_key_def sub_def to_u64_def alist_erase_def)
  moreover have "\<not> returns (fst (dev_do_allocate env bytes at d))" for env :: "nat device_rmm" and bytes at
  proof -
    have "try_add (total_allocated_bytes d) n (dev_capacity d) = (False, - 512)" for n
      by (simp add: state try_add_def)
    then have "do_allocate_unmanaged env bytes n s d
        = (Inl (cucascade_out_of_memory ''not enough capacity to allocate memory'' bytes (- 512)), d)" for n s
      by (simp add: do_allocate_unmanaged_def)
    moreover obtain p where "default_oom_policy d = p" by simp
    ultimately show ?thesis
      using state
      by (cases p) (simp add: dev_do_allocate_def get_tracker_state_def do_allocate_managed_default_def Let_def)
  qed
  ultimately show ?thesis by (intro exI [of _ d]) (simp add: empty_device_def)
qed

end
