(* ===== verification/Memory_Space.thy ===== *)
theory Memory_Space
  imports Memory_Config Notification Disk_Limiter Device_Guarantees Host_Guarantees
begin

text \<open>
  \<open>memory_space\<close> (\<open>include/memory/memory_space.hpp\<close>, \<open>src/memory/memory_space.cpp\<close>): one tier on one
  device, with the resource that keeps its books (a variant), its notification channel and its
  downgrade thresholds. A method that visits the variant is a case distinction over it. \<open>env\<close> is the
  RMM that the host resource calls; \<open>a\<close> is the address of the arena object that a reservation
  creates; \<open>asserts\<close> says whether the build checks assertions.
\<close>

section \<open>State\<close>

datatype ('g, 'h) reserving_adaptor =
    Gpu_adaptor "'g device_adaptor"
  | Host_adaptor "'h host_resource"
  | Disk_adaptor disk_access_limiter

record ('g, 'h) memory_space =
  ms_id :: memory_space_id
  ms_capacity :: u64
  ms_memory_limit :: u64
  start_downgrading_memory_threshold :: u64
  stop_downgrading_memory_threshold :: u64
  ms_channel :: notification_channel
  reservation_allocator :: "('g, 'h) reserving_adaptor"
  has_stream_pool :: bool

text \<open>
  The constructors. \<open>factory\<close> stands for the configured factory function or the default one: the
  allocator it returns, or \<open>None\<close> for a null pointer.
\<close>

definition new_gpu_memory_space ::
  "('f option \<Rightarrow> i32 \<Rightarrow> u64 \<Rightarrow> 'g option) \<Rightarrow> 'f gpu_memory_space_config \<Rightarrow> ('g, 'h) memory_space outcome"
where
  "new_gpu_memory_space factory c =
     (case factory (gpu_mr_factory_fn c) (gpu_device_id c) (gpu_memory_capacity c) of
        None \<Rightarrow> Inl (invalid_argument ''At least one allocator must be provided'')
      | Some u \<Rightarrow>
          let i = memory_space_id GPU (gpu_device_id c)
          in Inr \<lparr>ms_id = i, ms_capacity = gpu_memory_capacity c,
                  ms_memory_limit = gpu_reservation_limit c,
                  start_downgrading_memory_threshold = gpu_downgrade_trigger_threshold c,
                  stop_downgrading_memory_threshold = gpu_downgrade_stop_threshold c,
                  ms_channel = new_channel,
                  reservation_allocator =
                    Gpu_adaptor (new_device_adaptor i u (gpu_reservation_limit c) (gpu_memory_capacity c)
                      None None (if per_stream_reservation c then PER_STREAM else PER_THREAD)),
                  has_stream_pool = True\<rparr>)"

definition new_host_memory_space ::
  "'h rmm \<Rightarrow> ('f option \<Rightarrow> i32 \<Rightarrow> u64 \<Rightarrow> 'h option) \<Rightarrow> 'f host_memory_space_config \<Rightarrow>
   ('g, 'h) memory_space outcome"
where
  "new_host_memory_space env factory c =
     (case factory (host_mr_factory_fn c) (numa_id c) (host_config_capacity c) of
        None \<Rightarrow> Inl (invalid_argument ''At least one allocator must be provided'')
      | Some u \<Rightarrow>
          (case new_host_resource env (numa_id c) u (host_reservation_limit c) (host_config_capacity c)
                  (config_block_size c) (config_pool_size c) (initial_number_pools c) of
             (Inl e, _) \<Rightarrow> Inl e
           | (Inr _, h) \<Rightarrow>
               Inr \<lparr>ms_id = memory_space_id HOST (numa_id c), ms_capacity = host_config_capacity c,
                    ms_memory_limit = host_reservation_limit c,
                    start_downgrading_memory_threshold = host_downgrade_trigger_threshold c,
                    stop_downgrading_memory_threshold = host_downgrade_stop_threshold c,
                    ms_channel = new_channel, reservation_allocator = Host_adaptor h,
                    has_stream_pool = False\<rparr>))"

definition new_disk_memory_space :: "disk_memory_space_config \<Rightarrow> ('g, 'h) memory_space outcome" where
  "new_disk_memory_space c =
     (if mount_paths c = []
      then Inl (invalid_argument ''Mount path must be provided for disk memory space'')
      else
        let i = memory_space_id DISK (disk_id c)
        in Inr \<lparr>ms_id = i, ms_capacity = disk_config_capacity c,
                ms_memory_limit = disk_reservation_limit c,
                start_downgrading_memory_threshold = disk_downgrade_trigger_threshold c,
                stop_downgrading_memory_threshold = disk_downgrade_stop_threshold c,
                ms_channel = new_channel,
                reservation_allocator =
                  Disk_adaptor (new_disk_limiter i (disk_reservation_limit c) (disk_config_capacity c)
                    (mount_paths c)),
                has_stream_pool = False\<rparr>)"

section \<open>Queries\<close>

definition ms_tier :: "('g, 'h) memory_space \<Rightarrow> Tier" where
  "ms_tier ms = tier (ms_id ms)"

definition ms_device_id :: "('g, 'h) memory_space \<Rightarrow> i32" where
  "ms_device_id ms = device_id (ms_id ms)"

definition ms_equal :: "('g, 'h) memory_space \<Rightarrow> ('g, 'h) memory_space \<Rightarrow> bool" where
  "ms_equal ms other = (ms_id ms = ms_id other)"

definition ms_available_memory :: "('g, 'h) memory_space \<Rightarrow> u64" where
  "ms_available_memory ms =
     (case reservation_allocator ms of
        Disk_adaptor mr \<Rightarrow> disk_available_memory mr
      | Gpu_adaptor mr \<Rightarrow> dev_available_memory mr
      | Host_adaptor mr \<Rightarrow> host_available_memory mr)"

definition ms_available_memory_on :: "caller \<Rightarrow> ('g, 'h) memory_space \<Rightarrow> u64 outcome" where
  "ms_available_memory_on at ms =
     (case reservation_allocator ms of
        Disk_adaptor mr \<Rightarrow> Inr (disk_available_memory mr)
      | Gpu_adaptor mr \<Rightarrow> dev_available_memory_on at mr
      | Host_adaptor mr \<Rightarrow> Inr (host_available_memory mr))"

definition ms_total_reserved_memory :: "('g, 'h) memory_space \<Rightarrow> u64" where
  "ms_total_reserved_memory ms =
     (case reservation_allocator ms of
        Disk_adaptor mr \<Rightarrow> disk_total_reserved_bytes mr
      | Gpu_adaptor mr \<Rightarrow> total_reserved_bytes mr
      | Host_adaptor mr \<Rightarrow> host_total_reserved_bytes mr)"

definition ms_active_reservation_count :: "('g, 'h) memory_space \<Rightarrow> u64" where
  "ms_active_reservation_count ms =
     (case reservation_allocator ms of
        Disk_adaptor mr \<Rightarrow> disk_reservation_count mr
      | Gpu_adaptor mr \<Rightarrow> number_of_allocations mr
      | Host_adaptor mr \<Rightarrow> of_nat (host_active_reservation_count mr))"

text \<open>
  The resource that allocations of a space go to: the adaptor of the tier, or on a disk the space's
  own upstream allocator, which is the null resource.
\<close>

datatype ('g, 'h) default_allocator =
    Gpu_allocator "'g device_adaptor"
  | Host_allocator "'h host_resource"
  | Null_allocator

definition get_default_allocator :: "('g, 'h) memory_space \<Rightarrow> ('g, 'h) default_allocator" where
  "get_default_allocator ms =
     (case reservation_allocator ms of
        Disk_adaptor mr \<Rightarrow> Null_allocator
      | Gpu_adaptor mr \<Rightarrow> Gpu_allocator mr
      | Host_adaptor mr \<Rightarrow> Host_allocator mr)"

text \<open>\<open>reservation::get_memory_resource\<close> asks the space that the reservation refers to.\<close>

definition get_memory_resource :: "('g, 'h) memory_space \<Rightarrow> ('g, 'h) default_allocator" where
  "get_memory_resource res_in = get_default_allocator res_in"

definition should_downgrade_memory :: "('g, 'h) memory_space \<Rightarrow> bool" where
  "should_downgrade_memory ms =
     (ms_memory_limit ms - ms_available_memory ms \<ge> start_downgrading_memory_threshold ms)"

definition should_stop_downgrading_memory :: "('g, 'h) memory_space \<Rightarrow> bool" where
  "should_stop_downgrading_memory ms =
     (ms_memory_limit ms - ms_available_memory ms \<le> stop_downgrading_memory_threshold ms)"

definition get_amount_to_downgrade :: "('g, 'h) memory_space \<Rightarrow> u64" where
  "get_amount_to_downgrade ms =
     (let consumed = ms_memory_limit ms - ms_available_memory ms
      in if consumed \<le> stop_downgrading_memory_threshold ms then 0
         else consumed - stop_downgrading_memory_threshold ms)"

definition acquire_stream :: "('g, 'h) memory_space \<Rightarrow> unit outcome" where
  "acquire_stream ms =
     (if has_stream_pool ms then Inr ()
      else Inl (runtime_error ''Stream pool is not available for non-GPU memory spaces''))"

definition ms_to_string :: "('g, 'h) memory_space \<Rightarrow> string" where
  "ms_to_string ms =
     ''memory_space(tier='' @
     (case ms_tier ms of GPU \<Rightarrow> ''GPU'' | HOST \<Rightarrow> ''HOST'' | DISK \<Rightarrow> ''DISK'' | SIZE \<Rightarrow> ''UNKNOWN'')
     @ '', device_id='' @ decimal_int (sint (ms_device_id ms))
     @ '', limit='' @ decimal (unat (ms_memory_limit ms)) @ '')''"

text \<open>\<open>std::hash\<close> of an integer is the integer.\<close>

definition memory_space_hash :: "('g, 'h) memory_space \<Rightarrow> u64" where
  "memory_space_hash ms =
     xor (scast (tier_value (ms_tier ms))) (push_bit 1 (scast (ms_device_id ms)))"

section \<open>Reservations\<close>

definition space_reserve ::
  "'h rmm \<Rightarrow> nat \<Rightarrow> u64 \<Rightarrow> ('g, 'h) reserving_adaptor \<Rightarrow> nat option \<times> ('g, 'h) reserving_adaptor" where
  "space_reserve env a bytes ra =
     (case ra of
        Disk_adaptor mr \<Rightarrow> map_prod id Disk_adaptor (disk_reserve a bytes mr)
      | Gpu_adaptor mr \<Rightarrow> map_prod id Gpu_adaptor (dev_reserve a bytes mr)
      | Host_adaptor mr \<Rightarrow> map_prod id Host_adaptor (host_reserve env a bytes mr))"

definition space_reserve_upto ::
  "'h rmm \<Rightarrow> nat \<Rightarrow> u64 \<Rightarrow> ('g, 'h) reserving_adaptor \<Rightarrow> nat option \<times> ('g, 'h) reserving_adaptor" where
  "space_reserve_upto env a bytes ra =
     (case ra of
        Disk_adaptor mr \<Rightarrow> map_prod id Disk_adaptor (disk_reserve_upto a bytes mr)
      | Gpu_adaptor mr \<Rightarrow> map_prod id Gpu_adaptor (dev_reserve_upto a bytes mr)
      | Host_adaptor mr \<Rightarrow> map_prod id Host_adaptor (host_reserve_upto env a bytes mr))"

text \<open>
  Making a reservation takes a notifier from the channel. It becomes part of the arena, or, when
  there is no arena, is destroyed on the way out. The result is the pointer to a new \<open>reservation\<close>.
\<close>

definition with_notifier ::
  "bool \<Rightarrow> nat option \<times> ('g, 'h) reserving_adaptor \<Rightarrow> ('g, 'h) memory_space \<Rightarrow>
   reservation option outcome \<times> ('g, 'h) memory_space"
where
  "with_notifier asserts made ms =
     (case made of
        (arena, ra) \<Rightarrow>
          let channel = get_notifier (ms_channel ms);
              channel' = (if arena = None then snd (release_notifier channel) else channel);
              result = (case reservation_create asserts (ms_id ms) arena of
                          Inl e \<Rightarrow> Inl e | Inr r \<Rightarrow> Inr (Some r))
          in (result, ms\<lparr>ms_channel := channel', reservation_allocator := ra\<rparr>))"

definition make_reservation_or_null ::
  "'h rmm \<Rightarrow> bool \<Rightarrow> nat \<Rightarrow> u64 \<Rightarrow> ('g, 'h) memory_space \<Rightarrow>
   reservation option outcome \<times> ('g, 'h) memory_space"
where
  "make_reservation_or_null env asserts a bytes ms =
     with_notifier asserts (space_reserve env a bytes (reservation_allocator ms)) ms"

definition make_reservation_upto ::
  "'h rmm \<Rightarrow> bool \<Rightarrow> nat \<Rightarrow> u64 \<Rightarrow> ('g, 'h) memory_space \<Rightarrow>
   reservation option outcome \<times> ('g, 'h) memory_space"
where
  "make_reservation_upto env asserts a bytes ms =
     with_notifier asserts (space_reserve_upto env a bytes (reservation_allocator ms)) ms"

text \<open>
  The loop of \<open>make_reservation\<close>. Each element of the list is what other threads do to the space
  before the next evaluation of the predicate of \<open>wait\<close>; \<open>None\<close> is a thread still asleep at the end
  of the list.
\<close>

fun reservation_loop ::
  "'h rmm \<Rightarrow> bool \<Rightarrow> nat \<Rightarrow> u64 \<Rightarrow> (('g, 'h) memory_space \<Rightarrow> ('g, 'h) memory_space) list \<Rightarrow>
   ('g, 'h) memory_space \<Rightarrow> (reservation option outcome \<times> ('g, 'h) memory_space) option"
where
  "reservation_loop env asserts a bytes [] ms = None"
| "reservation_loop env asserts a bytes (others # rest) ms =
     (let ms1 = others ms
      in case wait_check (ms_channel ms1) of
           (status, channel) \<Rightarrow>
             let ms2 = ms1\<lparr>ms_channel := channel\<rparr>
             in case status of
                  None \<Rightarrow> reservation_loop env asserts a bytes rest ms2
                | Some SHUTDOWN \<Rightarrow> Some (Inr None, ms2)
                | Some IDLE \<Rightarrow> Some (make_reservation_upto env asserts a bytes ms2)
                | Some NOTIFIED \<Rightarrow>
                    (case make_reservation_or_null env asserts a bytes ms2 of
                       (Inr None, ms3) \<Rightarrow> reservation_loop env asserts a bytes rest ms3
                     | (r, ms3) \<Rightarrow> Some (r, ms3)))"

definition make_reservation ::
  "'h rmm \<Rightarrow> bool \<Rightarrow> nat \<Rightarrow> u64 \<Rightarrow> (('g, 'h) memory_space \<Rightarrow> ('g, 'h) memory_space) list \<Rightarrow>
   ('g, 'h) memory_space \<Rightarrow> (reservation option outcome \<times> ('g, 'h) memory_space) option"
where
  "make_reservation env asserts a bytes waits ms =
     (case make_reservation_or_null env asserts a bytes ms of
        (Inr None, ms') \<Rightarrow> reservation_loop env asserts a bytes waits ms'
      | (r, ms') \<Rightarrow> Some (r, ms'))"

definition ms_shutdown :: "('g, 'h) memory_space \<Rightarrow> ('g, 'h) memory_space" where
  "ms_shutdown ms = ms\<lparr>ms_channel := snd (shutdown (ms_channel ms))\<rparr>"

text \<open>
  The end of a reservation: its arena is destroyed, which gives the bytes back to the resource and
  then posts to the channel.
\<close>

definition destroy_reservation ::
  "reservation \<Rightarrow> ('g, 'h) memory_space \<Rightarrow> unit outcome \<times> ('g, 'h) memory_space" where
  "destroy_reservation r ms =
     (case res_arena r of
        None \<Rightarrow> (Inr (), ms)
      | Some a \<Rightarrow>
          (case (case reservation_allocator ms of
                   Disk_adaptor mr \<Rightarrow> (Inr (), Disk_adaptor (disk_release_reservation a mr))
                 | Gpu_adaptor mr \<Rightarrow> (Inr (), Gpu_adaptor (dev_release_reservation a mr))
                 | Host_adaptor mr \<Rightarrow> map_prod id Host_adaptor (release_reservation a mr)) of
             (Inl e, ra) \<Rightarrow> (Inl e, ms\<lparr>reservation_allocator := ra\<rparr>)
           | (Inr _, ra) \<Rightarrow>
               (Inr (), ms\<lparr>reservation_allocator := ra,
                           ms_channel := notify_on_exit True (ms_channel ms)\<rparr>)))"

end
