(* ===== verification/Space_Reservations.thy ===== *)
theory Space_Reservations
  imports Memory_Space
begin

text \<open>
  What a memory space promises: the reservation contract of its resource, whatever the tier, what
  the three ways of making a reservation return, and what the downgrade queries say.
\<close>

section \<open>The contract of the variant\<close>

fun space_total :: "('g, 'h) reserving_adaptor \<Rightarrow> u64" where
  "space_total (Disk_adaptor mr) = disk_allocated_bytes mr"
| "space_total (Gpu_adaptor mr) = total_allocated_bytes mr"
| "space_total (Host_adaptor mr) = host_allocated_bytes mr"

fun space_limit :: "('g, 'h) reserving_adaptor \<Rightarrow> u64" where
  "space_limit (Disk_adaptor mr) = disk_memory_limit mr"
| "space_limit (Gpu_adaptor mr) = dev_memory_limit mr"
| "space_limit (Host_adaptor mr) = host_memory_limit mr"

fun space_rounded :: "'h rmm \<Rightarrow> u64 \<Rightarrow> ('g, 'h) reserving_adaptor \<Rightarrow> u64" where
  "space_rounded env b (Host_adaptor mr) = align_up env b (host_block_size mr)"
| "space_rounded env b ra = b"

interpretation space: reserving space_total space_limit "space_rounded env" "space_reserve env"
  "space_reserve_upto env" for env :: "'h rmm"
proof
  fix ra :: "('g, 'h) reserving_adaptor" and b :: u64 and a :: nat
  show "\<exists>ra'. space_reserve env a b ra = (Some a, ra') \<and> space_limit ra' = space_limit ra
      \<and> unat (space_total ra') = unat (space_total ra) + unat (space_rounded env b ra)"
    if fits: "unat (space_total ra) + unat (space_rounded env b ra) \<le> unat (space_limit ra)"
  proof (cases ra)
    case (Gpu_adaptor mr)
    with fits device.reserve_fits [of mr b a] show ?thesis by (auto simp: space_reserve_def)
  next
    case (Host_adaptor mr)
    with fits host.reserve_fits [of mr env b a] show ?thesis by (auto simp: space_reserve_def)
  next
    case (Disk_adaptor mr)
    with fits disk.reserve_fits [of mr b a] show ?thesis by (auto simp: space_reserve_def)
  qed
  show "space_reserve env a b ra = (None, ra)"
    if over: "unat (space_limit ra) < unat (space_total ra) + unat (space_rounded env b ra)"
  proof (cases ra)
    case (Gpu_adaptor mr)
    with over device.reserve_refuses [of mr b a] show ?thesis by (auto simp: space_reserve_def)
  next
    case (Host_adaptor mr)
    with over host.reserve_refuses [of mr env b a] show ?thesis by (auto simp: space_reserve_def)
  next
    case (Disk_adaptor mr)
    with over disk.reserve_refuses [of mr b a] show ?thesis by (auto simp: space_reserve_def)
  qed
  show "\<exists>ra'. space_reserve_upto env a b ra = (Some a, ra') \<and> space_limit ra' = space_limit ra
      \<and> unat (space_total ra') = unat (space_total ra)
          + min (unat (space_rounded env b ra)) (unat (space_limit ra) - unat (space_total ra))"
  proof (cases ra)
    case (Gpu_adaptor mr)
    with device.reserve_upto_takes [of a b mr] show ?thesis by (auto simp: space_reserve_upto_def)
  next
    case (Host_adaptor mr)
    with host.reserve_upto_takes [of env a b mr] show ?thesis by (auto simp: space_reserve_upto_def)
  next
    case (Disk_adaptor mr)
    with disk.reserve_upto_takes [of a b mr] show ?thesis by (auto simp: space_reserve_upto_def)
  qed
qed

section \<open>Making reservations\<close>

text \<open>The bytes of a live arena, and the sum that the resource reports for all of them.\<close>

fun space_arena :: "('g, 'h) reserving_adaptor \<Rightarrow> nat \<Rightarrow> int option" where
  "space_arena (Disk_adaptor mr) a = map_option disk_arena_size (map_of (disk_arenas mr) a)"
| "space_arena (Gpu_adaptor mr) a = map_option dev_arena_size (map_of (dev_arenas mr) a)"
| "space_arena (Host_adaptor mr) a = map_option area_size (map_of (active_reservations mr) a)"

fun space_reserved :: "('g, 'h) reserving_adaptor \<Rightarrow> u64" where
  "space_reserved (Disk_adaptor mr) = disk_total_reserved_bytes mr"
| "space_reserved (Gpu_adaptor mr) = total_reserved_bytes mr"
| "space_reserved (Host_adaptor mr) = host_total_reserved_bytes mr"

lemma ms_total_reserved_memory_space: "ms_total_reserved_memory ms = space_reserved (reservation_allocator ms)"
  by (cases "reservation_allocator ms") (simp_all add: ms_total_reserved_memory_def)

lemma alist_set_fresh: "map_of xs k = None \<Longrightarrow> alist_set k v xs = xs @ [(k, v)]"
  by (induction k v xs rule: alist_set.induct) (auto split: if_splits)

lemma reserved_area:
  assumes "unat b < 2 ^ 63" shows "to_i64 b = int (unat b)" and "to_u64 (max 0 (to_i64 b)) = b"
proof -
  show i: "to_i64 b = int (unat b)" using assms by (rule to_i64_small)
  then show "to_u64 (max 0 (to_i64 b)) = b" by (simp add: to_u64_def)
qed

lemma host_register_reserved:
  assumes "map_of (active_reservations h) a = None" and "unat b < 2 ^ 63"
  shows "host_total_reserved_bytes (register_reservation a b h) = host_total_reserved_bytes h + b"
  using reserved_area [OF assms(2)]
  by (simp add: host_total_reserved_bytes_def register_reservation_def alist_set_fresh [OF assms(1)])

lemma space_reserve_registers:
  assumes run: "space_reserve env a b ra = (Some a, ra')" and new: "space_arena ra a = None"
    and small: "unat (space_rounded env b ra) < 2 ^ 63"
  shows "space_arena ra' a = Some (int (unat (space_rounded env b ra)))
    \<and> space_reserved ra' = space_reserved ra + space_rounded env b ra"
proof (cases ra)
  case (Gpu_adaptor mr)
  with run small reserved_area(1) [of b] show ?thesis
    by (auto simp: space_reserve_def dev_reserve_def dev_do_reserve_def new_device_arena_def set_arena_def
        add_def split: prod.splits bool.splits if_splits)
next
  case (Disk_adaptor mr)
  with run small reserved_area(1) [of b] show ?thesis
    by (auto simp: space_reserve_def disk_reserve_def disk_do_reserve_def new_disk_arena_def
        disk_total_reserved_bytes_def try_add_def split: prod.splits bool.splits if_splits)
next
  case (Host_adaptor mr)
  let ?b = "align_up env b (host_block_size mr)"
  obtain h1 where h1: "host_do_reserve ?b (host_memory_limit mr) mr = (True, h1)"
    and ra': "ra' = Host_adaptor (register_reservation a ?b h1)"
    using run Host_adaptor
    by (auto simp: space_reserve_def host_reserve_def Let_def split: prod.splits bool.splits)
  have act: "active_reservations h1 = active_reservations mr"
    using h1 by (auto simp: host_do_reserve_def split: prod.splits if_splits)
  then have "map_of (active_reservations h1) a = None" using new Host_adaptor by simp
  from host_register_reserved [OF this, of ?b] act small reserved_area(1) [of ?b] Host_adaptor ra'
  show ?thesis by (simp add: register_reservation_def host_total_reserved_bytes_def)
qed

text \<open>
  Property C21. A reservation that fits is made, on every tier: when the bytes the tier rounds the
  request to fit below the reservation limit (of less than \<open>2 ^ 63\<close> bytes), \<open>make_reservation_or_null\<close>
  returns a reservation with a new arena of exactly these bytes, \<open>get_total_reserved_memory\<close> of the
  space has grown by them, and so has the counter of allocated bytes, which stays within the limit.
\<close>

theorem fitting_reservation_is_made:
  assumes "unat (space_total (reservation_allocator ms))
           + unat (space_rounded env bytes (reservation_allocator ms))
           \<le> unat (space_limit (reservation_allocator ms))"
    and "unat (space_limit (reservation_allocator ms)) < 2 ^ 63"
    and "space_arena (reservation_allocator ms) a = None"
  shows "\<exists>ms'. make_reservation_or_null env asserts a bytes ms
        = (Inr (Some \<lparr>res_space = ms_id ms, res_arena = Some a\<rparr>), ms')
      \<and> space_arena (reservation_allocator ms') a
        = Some (int (unat (space_rounded env bytes (reservation_allocator ms))))
      \<and> ms_total_reserved_memory ms'
        = ms_total_reserved_memory ms + space_rounded env bytes (reservation_allocator ms)
      \<and> unat (space_total (reservation_allocator ms'))
        = unat (space_total (reservation_allocator ms))
          + unat (space_rounded env bytes (reservation_allocator ms))
      \<and> unat (space_total (reservation_allocator ms')) \<le> unat (space_limit (reservation_allocator ms'))"
proof -
  have small: "unat (space_rounded env bytes (reservation_allocator ms)) < 2 ^ 63"
    using assms(1,2) by linarith
  obtain ra' where run: "space_reserve env a bytes (reservation_allocator ms) = (Some a, ra')"
    and rest: "space_limit ra' = space_limit (reservation_allocator ms)"
    "unat (space_total ra') = unat (space_total (reservation_allocator ms))
        + unat (space_rounded env bytes (reservation_allocator ms))"
    using space.reserve_fits [OF assms(1), of a] by blast
  with assms space_reserve_registers [OF run assms(3) small] show ?thesis
    by (simp add: make_reservation_or_null_def with_notifier_def reservation_create_def
        ms_total_reserved_memory_space)
qed

text \<open>
  A reservation that does not fit is reported as made: \<open>make_reservation_or_null\<close> never
  returns a null pointer. When the resource has refused, it returns a \<open>reservation\<close> object without
  an arena (an assertion failure in builds that check assertions), whose \<open>size\<close> dereferences null.
\<close>

theorem refused_reservation_is_not_null:
  assumes "unat (space_limit (reservation_allocator ms))
           < unat (space_total (reservation_allocator ms))
             + unat (space_rounded env bytes (reservation_allocator ms))"
  shows "fst (make_reservation_or_null env False a bytes ms)
        = Inr (Some \<lparr>res_space = ms_id ms, res_arena = None\<rparr>)
    \<and> fst (make_reservation_or_null env True a bytes ms) = Inl assertion_failure
    \<and> reservation_size sizes \<lparr>res_space = ms_id ms, res_arena = None\<rparr> = Inl invalid_dereference"
  using space.reserve_refuses [OF assms, of a]
  by (simp add: make_reservation_or_null_def with_notifier_def reservation_create_def
      reservation_size_def Let_def)

lemma or_null_never_null: "fst (make_reservation_or_null env asserts a bytes ms) \<noteq> Inr None"
  by (auto simp: make_reservation_or_null_def with_notifier_def reservation_create_def Let_def
      split: prod.splits)

lemma make_reservation_at_once:
  "make_reservation env asserts a bytes waits ms = Some (make_reservation_or_null env asserts a bytes ms)"
proof -
  obtain r ms' where r: "make_reservation_or_null env asserts a bytes ms = (r, ms')" by fastforce
  with or_null_never_null [of env asserts a bytes ms] have "r \<noteq> Inr None" by simp
  with r show ?thesis
    by (auto simp: make_reservation_def split: sum.splits option.splits)
qed

text \<open>
  The blocking reservation never blocks: \<open>make_reservation\<close> returns what its first
  attempt returns, an exception or a reservation but never a null pointer, whatever the waits in its
  loop would have answered: it does not wait for memory to be released, even when the attempt was
  refused.
\<close>

theorem make_reservation_never_waits:
  "\<exists>r ms'. make_reservation env asserts a bytes waits ms = Some (r, ms') \<and> r \<noteq> Inr None
     \<and> make_reservation_or_null env asserts a bytes ms = (r, ms')"
  using or_null_never_null [of env asserts a bytes ms]
  by (metis make_reservation_at_once prod.collapse)

text \<open>
  \<open>make_reservation_upto\<close> always makes a reservation with an arena, on every tier, and
  takes the smaller of the request and what is left below the limit.
\<close>

theorem reservation_upto_takes_what_is_left:
  "\<exists>ms'. make_reservation_upto env asserts a bytes ms
        = (Inr (Some \<lparr>res_space = ms_id ms, res_arena = Some a\<rparr>), ms')
      \<and> unat (space_total (reservation_allocator ms'))
        = unat (space_total (reservation_allocator ms))
          + min (unat (space_rounded env bytes (reservation_allocator ms)))
                (unat (space_limit (reservation_allocator ms))
                 - unat (space_total (reservation_allocator ms)))"
proof -
  obtain ra' where "space_reserve_upto env a bytes (reservation_allocator ms) = (Some a, ra')"
    "unat (space_total ra') = unat (space_total (reservation_allocator ms))
        + min (unat (space_rounded env bytes (reservation_allocator ms)))
            (unat (space_limit (reservation_allocator ms)) - unat (space_total (reservation_allocator ms)))"
    using space.reserve_upto_takes [of env a bytes "reservation_allocator ms"] by blast
  then show ?thesis
    by (simp add: make_reservation_upto_def with_notifier_def reservation_create_def)
qed

section \<open>Downgrading\<close>

text \<open>
  The amount to downgrade is the right one: \<open>get_amount_to_downgrade\<close> is zero exactly
  when \<open>should_stop_downgrading_memory\<close> holds, and otherwise it is the number of bytes whose release
  brings the consumption down to the stop threshold.
\<close>

theorem downgrade_amount_reaches_stop:
  "(get_amount_to_downgrade ms = 0 \<longleftrightarrow> should_stop_downgrading_memory ms)
   \<and> (\<not> should_stop_downgrading_memory ms \<longleftrightarrow>
        ms_memory_limit ms - ms_available_memory ms - get_amount_to_downgrade ms
          = stop_downgrading_memory_threshold ms
        \<and> 0 < get_amount_to_downgrade ms)"
  by (auto simp: get_amount_to_downgrade_def should_stop_downgrading_memory_def Let_def word_gt_0)

text \<open>
  An idle space asks for a downgrade. Consumption is computed as limit minus available
  memory, but available memory is measured against the capacity, which exceeds the limit: while less
  than the difference is in use the subtraction wraps around, \<open>should_downgrade_memory\<close> holds although
  hardly anything is allocated, and the amount to downgrade exceeds the capacity.
\<close>

theorem idle_space_wants_downgrade:
  assumes "unat (ms_memory_limit ms) < unat (ms_available_memory ms)"
    and "unat (ms_available_memory ms) < 2 ^ 62"
    and "unat (start_downgrading_memory_threshold ms) < 2 ^ 62"
    and "unat (stop_downgrading_memory_threshold ms) < 2 ^ 62"
  shows "should_downgrade_memory ms \<and> 2 ^ 62 < unat (get_amount_to_downgrade ms)"
proof -
  let ?c = "ms_memory_limit ms - ms_available_memory ms"
  have "uint ?c = (uint (ms_memory_limit ms) - uint (ms_available_memory ms)) mod 2 ^ 64"
    by (simp add: uint_word_ariths)
  also have "\<dots> = uint (ms_memory_limit ms) - uint (ms_available_memory ms) + 2 ^ 64"
  proof -
    let ?i = "uint (ms_memory_limit ms) - uint (ms_available_memory ms)"
    have "?i mod 2 ^ 64 = (?i + 2 ^ 64) mod 2 ^ 64" by simp
    also have "\<dots> = ?i + 2 ^ 64"
    proof (rule mod_pos_pos_trivial)
      have "uint (ms_memory_limit ms) < uint (ms_available_memory ms)"
        using assms(1) by (simp only: word_less_nat_alt [symmetric] word_less_def)
      then show "?i + 2 ^ 64 < 2 ^ 64" by linarith
      have "uint (ms_available_memory ms) < 2 ^ 64"
        using unsigned_less [of "ms_available_memory ms", where ?'a = int] by simp
      moreover have "0 \<le> uint (ms_memory_limit ms)" by simp
      ultimately show "0 \<le> ?i + 2 ^ 64" by linarith
    qed
    finally show ?thesis .
  qed
  finally have "int (unat ?c) = int (unat (ms_memory_limit ms)) - int (unat (ms_available_memory ms)) + 2 ^ 64"
    by simp
  moreover have "int (unat (ms_available_memory ms)) < 2 ^ 62"
    using assms(2) by (simp del: of_nat_unat)
  moreover have "0 \<le> int (unat (ms_memory_limit ms))" by (rule of_nat_0_le_iff)
  ultimately have "2 ^ 63 < int (unat ?c)" by (simp del: of_nat_unat of_nat_0_le_iff)
  then have big: "2 ^ 63 < unat ?c" by (simp del: of_nat_unat)
  have "should_downgrade_memory ms"
    using big assms(3) by (simp add: should_downgrade_memory_def word_le_nat_alt)
  moreover have "unat (get_amount_to_downgrade ms)
      = unat ?c - unat (stop_downgrading_memory_threshold ms)"
    using big assms(4)
    by (auto simp: get_amount_to_downgrade_def Let_def word_le_nat_alt unat_sub_exact)
  ultimately show ?thesis using big assms(4) by simp
qed

section \<open>Concrete spaces\<close>

definition small_disk_space :: "(nat, nat) memory_space" where
  "small_disk_space =
     \<lparr>ms_id = memory_space_id DISK 0, ms_capacity = 100, ms_memory_limit = 100,
      start_downgrading_memory_threshold = 100, stop_downgrading_memory_threshold = 99,
      ms_channel = new_channel, reservation_allocator = Disk_adaptor small_disk,
      has_stream_pool = False\<rparr>"

lemma small_disk_space_simps [simp]:
  "reservation_allocator small_disk_space = Disk_adaptor small_disk"
  "ms_id small_disk_space = memory_space_id DISK 0"
  "disk_allocated_bytes small_disk = 0" "disk_memory_limit small_disk = 100"
  by (simp_all add: small_disk_space_def small_disk_def new_disk_limiter_def)

theorem fitting_reservation_is_made_witness:
  "\<exists>ms'. make_reservation_or_null bump_rmm True 1 30 small_disk_space
        = (Inr (Some \<lparr>res_space = memory_space_id DISK 0, res_arena = Some 1\<rparr>), ms')
      \<and> space_arena (reservation_allocator ms') 1 = Some 30
      \<and> unat (space_total (reservation_allocator ms')) = 30"
  using fitting_reservation_is_made [of small_disk_space bump_rmm 30 1 True]
  by (auto simp: small_disk_def new_disk_limiter_def)

theorem refused_reservation_is_not_null_witness:
  "fst (make_reservation_or_null bump_rmm False 1 101 small_disk_space)
     = Inr (Some \<lparr>res_space = memory_space_id DISK 0, res_arena = None\<rparr>)"
  using refused_reservation_is_not_null [of small_disk_space bump_rmm 101 1 "\<lambda>_. 0"] by simp

definition idle_gpu_space :: "(nat, nat) memory_space" where
  "idle_gpu_space =
     \<lparr>ms_id = memory_space_id GPU 0, ms_capacity = 1000, ms_memory_limit = 900,
      start_downgrading_memory_threshold = 750, stop_downgrading_memory_threshold = 650,
      ms_channel = new_channel,
      reservation_allocator = Gpu_adaptor (new_device_adaptor (memory_space_id GPU 0) 0 900 1000 None None PER_STREAM),
      has_stream_pool = True\<rparr>"

theorem idle_space_wants_downgrade_witness:
  "should_downgrade_memory idle_gpu_space \<and> 2 ^ 62 < unat (get_amount_to_downgrade idle_gpu_space)"
  by (rule idle_space_wants_downgrade)
     (simp_all add: idle_gpu_space_def ms_available_memory_def dev_available_memory_def new_device_adaptor_def)

end
