(* ===== verification/Reservation_Manager.thy ===== *)
theory Reservation_Manager
  imports Space_Reservations
begin

text \<open>
  \<open>memory_reservation_manager\<close> and the request strategies
  (\<open>include/memory/memory_reservation_manager.hpp\<close>, \<open>src/memory/memory_reservation_manager.cpp\<close>).
  The manager owns its memory spaces in a vector; a \<open>memory_space*\<close> is the index of the space. The
  tables of const pointers hold the same pointers as the others and are not duplicated.
\<close>

section \<open>The manager and its lookup tables\<close>

record ('g, 'h) memory_reservation_manager =
  memory_spaces :: "('g, 'h) memory_space list"
  memory_space_views :: "nat list"
  memory_space_lookup :: "(memory_space_id \<times> nat) list"
  tier_to_memory_spaces :: "(Tier \<times> nat list) list"

definition push_tier :: "Tier \<Rightarrow> nat \<Rightarrow> (Tier \<times> nat list) list \<Rightarrow> (Tier \<times> nat list) list" where
  "push_tier t i m = alist_set t ((case map_of m t of None \<Rightarrow> [] | Some is \<Rightarrow> is) @ [i]) m"

definition add_space_to_tables ::
  "nat \<Rightarrow> ('g, 'h) memory_space \<Rightarrow> ('g, 'h) memory_reservation_manager \<Rightarrow> ('g, 'h) memory_reservation_manager"
where
  "add_space_to_tables i ms m =
     m\<lparr>memory_space_views := memory_space_views m @ [i],
       memory_space_lookup := alist_set (ms_id ms) i (memory_space_lookup m),
       tier_to_memory_spaces := push_tier (ms_tier ms) i (tier_to_memory_spaces m)\<rparr>"

definition build_lookup_tables ::
  "('g, 'h) memory_reservation_manager \<Rightarrow> ('g, 'h) memory_reservation_manager" where
  "build_lookup_tables m =
     fold (\<lambda>(i, ms). add_space_to_tables i ms) (List.enumerate 0 (memory_spaces m))
       (m\<lparr>memory_space_views := [], memory_space_lookup := [], tier_to_memory_spaces := []\<rparr>)"

text \<open>The construction of the spaces is an argument: one of the three constructors per configuration.\<close>

fun construct_spaces ::
  "('f memory_space_config \<Rightarrow> ('g, 'h) memory_space outcome) \<Rightarrow> 'f memory_space_config list \<Rightarrow>
   ('g, 'h) memory_space list outcome"
where
  "construct_spaces construct [] = Inr []"
| "construct_spaces construct (c # cs) =
     (case (case c of
              Monostate \<Rightarrow> Inl (invalid_argument ''Unknown memory_space configuration type'')
            | _ \<Rightarrow> construct c) of
        Inl e \<Rightarrow> Inl e
      | Inr ms \<Rightarrow> (case construct_spaces construct cs of Inl e \<Rightarrow> Inl e | Inr mss \<Rightarrow> Inr (ms # mss)))"

definition new_memory_reservation_manager ::
  "('f memory_space_config \<Rightarrow> ('g, 'h) memory_space outcome) \<Rightarrow> 'f memory_space_config list \<Rightarrow>
   ('g, 'h) memory_reservation_manager outcome"
where
  "new_memory_reservation_manager construct configs =
     (if configs = []
      then Inl (invalid_argument ''At least one memory_space configuration must be provided'')
      else case construct_spaces construct configs of
             Inl e \<Rightarrow> Inl e
           | Inr spaces \<Rightarrow>
               Inr (build_lookup_tables
                      \<lparr>memory_spaces = spaces, memory_space_views = [], memory_space_lookup = [],
                       tier_to_memory_spaces = []\<rparr>))"

section \<open>Access\<close>

definition get_memory_space ::
  "Tier \<Rightarrow> i32 \<Rightarrow> ('g, 'h) memory_reservation_manager \<Rightarrow> nat option" where
  "get_memory_space t dev m = map_of (memory_space_lookup m) (memory_space_id t dev)"

fun get_memory_space_of_ids ::
  "memory_space_id list \<Rightarrow> ('g, 'h) memory_reservation_manager \<Rightarrow> nat list" where
  "get_memory_space_of_ids [] m = []"
| "get_memory_space_of_ids (i # is) m =
     list_of_option (get_memory_space (tier i) (device_id i) m) @ get_memory_space_of_ids is m"

definition get_memory_spaces_for_tier ::
  "Tier \<Rightarrow> ('g, 'h) memory_reservation_manager \<Rightarrow> nat list" where
  "get_memory_spaces_for_tier t m =
     (case map_of (tier_to_memory_spaces m) t of Some is \<Rightarrow> is | None \<Rightarrow> [])"

definition get_all_memory_spaces :: "('g, 'h) memory_reservation_manager \<Rightarrow> nat list" where
  "get_all_memory_spaces m = memory_space_views m"

definition sum_over ::
  "(('g, 'h) memory_space \<Rightarrow> u64) \<Rightarrow> nat list \<Rightarrow> ('g, 'h) memory_reservation_manager \<Rightarrow> u64" where
  "sum_over f is m = foldl (\<lambda>acc i. acc + f (memory_spaces m ! i)) 0 is"

definition get_available_memory_for_tier :: "Tier \<Rightarrow> ('g, 'h) memory_reservation_manager \<Rightarrow> u64" where
  "get_available_memory_for_tier t m = sum_over ms_available_memory (get_memory_spaces_for_tier t m) m"

definition get_total_reserved_memory_for_tier ::
  "Tier \<Rightarrow> ('g, 'h) memory_reservation_manager \<Rightarrow> u64" where
  "get_total_reserved_memory_for_tier t m =
     sum_over ms_total_reserved_memory (get_memory_spaces_for_tier t m) m"

definition get_active_reservation_count_for_tier ::
  "Tier \<Rightarrow> ('g, 'h) memory_reservation_manager \<Rightarrow> u64" where
  "get_active_reservation_count_for_tier t m =
     sum_over ms_active_reservation_count (get_memory_spaces_for_tier t m) m"

definition get_total_available_memory :: "('g, 'h) memory_reservation_manager \<Rightarrow> u64" where
  "get_total_available_memory m = foldl (\<lambda>acc ms. acc + ms_available_memory ms) 0 (memory_spaces m)"

definition get_total_reserved_memory :: "('g, 'h) memory_reservation_manager \<Rightarrow> u64" where
  "get_total_reserved_memory m = foldl (\<lambda>acc ms. acc + ms_total_reserved_memory ms) 0 (memory_spaces m)"

definition get_active_reservation_count :: "('g, 'h) memory_reservation_manager \<Rightarrow> u64" where
  "get_active_reservation_count m =
     foldl (\<lambda>acc ms. acc + ms_active_reservation_count ms) 0 (memory_spaces m)"

definition manager_shutdown ::
  "('g, 'h) memory_reservation_manager \<Rightarrow> ('g, 'h) memory_reservation_manager" where
  "manager_shutdown m = m\<lparr>memory_spaces := map ms_shutdown (memory_spaces m)\<rparr>"

section \<open>Request strategies\<close>

datatype reservation_request_strategy =
    any_memory_space_in_tier_with_preference Tier "u64 option"
  | any_memory_space_in_tier Tier
  | any_memory_space_in_tiers "Tier list"
  | specific_memory_space memory_space_id
  | any_memory_space_to_downgrade memory_space_id "Tier list"
  | any_memory_space_to_upgrade memory_space_id Tier

fun has_strong_ordering :: "reservation_request_strategy \<Rightarrow> bool" where
  "has_strong_ordering (any_memory_space_in_tier_with_preference _ _) = True"
| "has_strong_ordering (any_memory_space_in_tier _) = False"
| "has_strong_ordering (any_memory_space_in_tiers _) = False"
| "has_strong_ordering (specific_memory_space _) = True"
| "has_strong_ordering (any_memory_space_to_downgrade _ _) = True"
| "has_strong_ordering (any_memory_space_to_upgrade _ _) = True"

definition stable_partition :: "('a \<Rightarrow> bool) \<Rightarrow> 'a list \<Rightarrow> 'a list" where
  "stable_partition P xs = filter P xs @ filter (\<lambda>x. \<not> P x) xs"

fun get_candidates ::
  "reservation_request_strategy \<Rightarrow> ('g, 'h) memory_reservation_manager \<Rightarrow> nat list" where
  "get_candidates (any_memory_space_in_tier_with_preference t preferred) m =
     (let candidates = get_memory_spaces_for_tier t m
      in case preferred of
           None \<Rightarrow> candidates
         | Some p \<Rightarrow> stable_partition (\<lambda>i. ms_device_id (memory_spaces m ! i) = ucast p) candidates)"
| "get_candidates (any_memory_space_in_tier t) m = get_memory_spaces_for_tier t m"
| "get_candidates (any_memory_space_in_tiers ts) m =
     concat (map (\<lambda>t. get_memory_spaces_for_tier t m) ts)"
| "get_candidates (specific_memory_space i) m =
     list_of_option (get_memory_space (tier i) (device_id i) m)"
| "get_candidates (any_memory_space_to_downgrade _ _) m = []"
| "get_candidates (any_memory_space_to_upgrade _ _) m = []"

section \<open>Requests\<close>

text \<open>
  A request runs against a list of the spaces. \<open>None\<close> stands for a thread that is still asleep in a
  space's \<open>make_reservation\<close>; an inner \<open>Inr None\<close> for \<open>std::nullopt\<close>.
\<close>

type_synonym ('g, 'h) spaces = "('g, 'h) memory_space list"
type_synonym ('g, 'h) reserve_fn =
  "('g, 'h) memory_space \<Rightarrow> (reservation option outcome \<times> ('g, 'h) memory_space) option"

fun try_candidates ::
  "('g, 'h) reserve_fn \<Rightarrow> nat list \<Rightarrow> ('g, 'h) spaces \<Rightarrow>
   (reservation option outcome \<times> ('g, 'h) spaces) option"
where
  "try_candidates f [] sp = Some (Inr None, sp)"
| "try_candidates f (i # is) sp =
     (case f (sp ! i) of
        None \<Rightarrow> None
      | Some (Inr None, ms) \<Rightarrow> try_candidates f is (sp[i := ms])
      | Some (r, ms) \<Rightarrow> Some (r, sp[i := ms]))"

definition select_memory_space_and_make_reservation ::
  "'h rmm \<Rightarrow> bool \<Rightarrow> nat \<Rightarrow> reservation_request_strategy \<Rightarrow> u64 \<Rightarrow>
   (('g, 'h) memory_space \<Rightarrow> ('g, 'h) memory_space) list \<Rightarrow> ('g, 'h) memory_reservation_manager \<Rightarrow>
   (reservation option outcome \<times> ('g, 'h) memory_reservation_manager) option"
where
  "select_memory_space_and_make_reservation env asserts a request bytes waits m =
     (let candidates = get_candidates request m;
          block = make_reservation env asserts a bytes waits;
          try = (\<lambda>ms. Some (make_reservation_or_null env asserts a bytes ms));
          back = map_option (\<lambda>(r, sp). (r, m\<lparr>memory_spaces := sp\<rparr>))
      in if has_strong_ordering request
         then back (try_candidates block candidates (memory_spaces m))
         else case try_candidates try candidates (memory_spaces m) of
                None \<Rightarrow> None
              | Some (Inr None, sp) \<Rightarrow> back (try_candidates block candidates sp)
              | Some (r, sp) \<Rightarrow> back (Some (r, sp)))"

text \<open>
  \<open>request_reservation\<close>: the fast path, then attempts that are separated by waits on \<open>_wait_cv\<close>.
  Each element of the list is what other threads do during one such wait; no code of the library
  notifies the condition variable.
\<close>

fun request_loop ::
  "'h rmm \<Rightarrow> bool \<Rightarrow> nat \<Rightarrow> reservation_request_strategy \<Rightarrow> u64 \<Rightarrow>
   (('g, 'h) memory_space \<Rightarrow> ('g, 'h) memory_space) list \<Rightarrow>
   (('g, 'h) memory_reservation_manager \<Rightarrow> ('g, 'h) memory_reservation_manager) list \<Rightarrow>
   ('g, 'h) memory_reservation_manager \<Rightarrow>
   (reservation option outcome \<times> ('g, 'h) memory_reservation_manager) option"
where
  "request_loop env asserts a request bytes waits others m =
     (case select_memory_space_and_make_reservation env asserts a request bytes waits m of
        None \<Rightarrow> None
      | Some (Inr None, m') \<Rightarrow>
          (case others of
             [] \<Rightarrow> None
           | during_wait # rest \<Rightarrow>
               request_loop env asserts a request bytes waits rest (during_wait m'))
      | Some (r, m') \<Rightarrow> Some (r, m'))"

definition request_reservation ::
  "'h rmm \<Rightarrow> bool \<Rightarrow> nat \<Rightarrow> reservation_request_strategy \<Rightarrow> u64 \<Rightarrow>
   (('g, 'h) memory_space \<Rightarrow> ('g, 'h) memory_space) list \<Rightarrow>
   (('g, 'h) memory_reservation_manager \<Rightarrow> ('g, 'h) memory_reservation_manager) list \<Rightarrow>
   ('g, 'h) memory_reservation_manager \<Rightarrow>
   (reservation option outcome \<times> ('g, 'h) memory_reservation_manager) option"
where
  "request_reservation env asserts a request bytes waits others m =
     (case select_memory_space_and_make_reservation env asserts a request bytes waits m of
        None \<Rightarrow> None
      | Some (Inr None, m') \<Rightarrow> request_loop env asserts a request bytes waits others m'
      | Some (r, m') \<Rightarrow> Some (r, m'))"

end
