(* ===== verification/Manager_Requests.thy ===== *)
theory Manager_Requests
  imports Reservation_Manager
begin

text \<open>
  What \<open>memory_reservation_manager\<close> does with a request: the lookup tables find the right spaces,
  the request goes to the first candidate, and a request without candidates is never answered.
\<close>

section \<open>The lookup tables\<close>

lemma add_space_to_tables_fields [simp]:
  "memory_spaces (add_space_to_tables i ms m) = memory_spaces m"
  "memory_space_views (add_space_to_tables i ms m) = memory_space_views m @ [i]"
  "memory_space_lookup (add_space_to_tables i ms m) = alist_set (ms_id ms) i (memory_space_lookup m)"
  "tier_to_memory_spaces (add_space_to_tables i ms m)
     = push_tier (ms_tier ms) i (tier_to_memory_spaces m)"
  by (simp_all add: add_space_to_tables_def)

lemma fold_tables_spaces [simp]:
  "memory_spaces (fold (\<lambda>(i, ms). add_space_to_tables i ms) xs m) = memory_spaces m"
  by (induction xs arbitrary: m) auto

lemma build_tables:
  fixes xs :: "('g, 'h) memory_space list" and start :: "('g, 'h) memory_reservation_manager"
  assumes "memory_space_views start = []" and "memory_space_lookup start = []" and "tier_to_memory_spaces start = []"
  defines "m \<equiv> fold (\<lambda>(i, ms). add_space_to_tables i ms) (List.enumerate 0 xs) start"
  shows "memory_space_views m = [0..<length xs]"
    and "distinct (map ms_id xs) \<Longrightarrow>
           map_of (memory_space_lookup m) k = Some i \<longleftrightarrow> i < length xs \<and> ms_id (xs ! i) = k"
    and "get_memory_spaces_for_tier t m = filter (\<lambda>i. ms_tier (xs ! i) = t) [0..<length xs]"
  unfolding m_def
proof (induction xs arbitrary: i rule: rev_induct)
  case Nil
  { case 1 show ?case using assms(1) by simp }
  { case 2 show ?case using assms(2) by simp }
  { case 3 show ?case using assms(3) by (simp add: get_memory_spaces_for_tier_def) }
next
  case (snoc x xs)
  let ?m = "fold (\<lambda>(i, ms). add_space_to_tables i ms) (List.enumerate 0 xs) start"
  have eq: "fold (\<lambda>(i, ms). add_space_to_tables i ms) (List.enumerate 0 (xs @ [x])) start
      = add_space_to_tables (length xs) x ?m"
    by (simp add: enumerate_append_eq)
  have cong: "filter (\<lambda>i. ms_tier ((xs @ [x]) ! i) = t') [0..<length xs]
      = filter (\<lambda>i. ms_tier (xs ! i) = t') [0..<length xs]" for t'
    by (rule filter_cong) (auto simp: nth_append)
  { case 1 show ?case using snoc(1) unfolding eq by simp }
  { case 2
    then have d: "distinct (map ms_id xs)" and new: "ms_id x \<notin> set (map ms_id xs)" by auto
    have "ms_id (xs ! i) \<noteq> ms_id x" if "i < length xs" for i
      using new that by (metis length_map nth_map nth_mem)
    with snoc(2) [OF d] show ?case unfolding eq by (auto simp: nth_append less_Suc_eq) }
  { case 3
    show ?case
    proof (cases "ms_tier x = t")
      case True
      with snoc(3) show ?thesis unfolding eq
        by (auto simp: get_memory_spaces_for_tier_def push_tier_def cong split: option.splits)
    next
      case False
      with snoc(3) show ?thesis unfolding eq
        by (simp add: get_memory_spaces_for_tier_def push_tier_def cong)
    qed }
qed

text \<open>
  The lookup tables are right. For a manager built over spaces with distinct
  identifiers, looking a space up by tier and device finds the space with that identifier and
  nothing else, the spaces of a tier are all spaces of the tier in configuration order, and the
  view of all spaces is complete.
\<close>

theorem lookup_tables_correct:
  assumes "distinct (map ms_id spaces)"
    and "m = build_lookup_tables \<lparr>memory_spaces = spaces, memory_space_views = vs,
               memory_space_lookup = lk, tier_to_memory_spaces = tt\<rparr>"
  shows "(get_memory_space t dev m = Some i \<longleftrightarrow>
            i < length spaces \<and> ms_id (spaces ! i) = memory_space_id t dev)
    \<and> get_memory_spaces_for_tier t m = filter (\<lambda>i. ms_tier (spaces ! i) = t) [0..<length spaces]
    \<and> get_all_memory_spaces m = [0..<length spaces] \<and> memory_spaces m = spaces"
proof -
  let ?m0 = "\<lparr>memory_spaces = spaces, memory_space_views = [], memory_space_lookup = [],
              tier_to_memory_spaces = []\<rparr>"
  have m: "m = fold (\<lambda>(i, ms). add_space_to_tables i ms) (List.enumerate 0 spaces) ?m0"
    by (simp add: assms(2) build_lookup_tables_def)
  show ?thesis
    using build_tables [where xs = spaces and start = ?m0, folded m] assms(1) by (simp add: get_memory_space_def get_all_memory_spaces_def m)
qed

section \<open>Requests\<close>

lemma try_first_or_null:
  assumes "\<And>ms. f ms = Some (make_reservation_or_null env asserts a bytes ms)"
  shows "try_candidates f (i # is) sp
    = (case make_reservation_or_null env asserts a bytes (sp ! i) of (r, ms) \<Rightarrow> Some (r, sp[i := ms]))"
proof -
  obtain r ms where r: "make_reservation_or_null env asserts a bytes (sp ! i) = (r, ms)" by fastforce
  with or_null_never_null [of env asserts a bytes "sp ! i"] have "r \<noteq> Inr None" by simp
  with r show ?thesis by (auto simp: assms split: sum.splits option.splits)
qed

lemma select_first:
  assumes "get_candidates request m = i # is"
  shows "select_memory_space_and_make_reservation env asserts a request bytes waits m
    = (case make_reservation_or_null env asserts a bytes (memory_spaces m ! i) of
         (r, ms) \<Rightarrow> Some (r, m\<lparr>memory_spaces := (memory_spaces m)[i := ms]\<rparr>))
    \<and> fst (make_reservation_or_null env asserts a bytes (memory_spaces m ! i)) \<noteq> Inr None"
proof -
  obtain r ms where r: "make_reservation_or_null env asserts a bytes (memory_spaces m ! i) = (r, ms)"
    by fastforce
  have nn: "r \<noteq> Inr None"
    using or_null_never_null [of env asserts a bytes "memory_spaces m ! i"] r by simp
  note first = try_first_or_null [of _ env asserts a bytes i "is" "memory_spaces m"]
  have block: "try_candidates (make_reservation env asserts a bytes waits) (i # is) (memory_spaces m)
      = Some (r, (memory_spaces m)[i := ms])"
    using first [OF make_reservation_at_once] r by (simp del: try_candidates.simps)
  have now: "try_candidates (\<lambda>ms. Some (make_reservation_or_null env asserts a bytes ms)) (i # is) (memory_spaces m)
      = Some (r, (memory_spaces m)[i := ms])"
    using first [of "\<lambda>ms. Some (make_reservation_or_null env asserts a bytes ms)"] r by (simp del: try_candidates.simps)
  show ?thesis
    using assms r nn block now
    by (auto simp: select_memory_space_and_make_reservation_def Let_def simp del: try_candidates.simps
        split: sum.splits option.splits)
qed

lemma request_first_candidate:
  assumes "get_candidates request m = i # is"
  shows "request_reservation env asserts a request bytes waits others m
    = (case make_reservation_or_null env asserts a bytes (memory_spaces m ! i) of
         (r, ms) \<Rightarrow> Some (r, m\<lparr>memory_spaces := (memory_spaces m)[i := ms]\<rparr>))"
proof -
  obtain r ms where r: "make_reservation_or_null env asserts a bytes (memory_spaces m ! i) = (r, ms)"
    by fastforce
  with select_first [OF assms, of env asserts a bytes waits] show ?thesis
    by (auto simp: request_reservation_def split: sum.splits option.splits)
qed

text \<open>
  Property C33. A request is answered by its first candidate, whatever the others could do: with at
  least one candidate, \<open>request_reservation\<close> returns at once with what \<open>make_reservation_or_null\<close> of
  the first candidate returns, also when that space is full and another one has room, and the spaces
  of the other candidates are not touched.
\<close>

theorem request_goes_to_first_candidate:
  assumes "get_candidates request m = i # is"
  shows "request_reservation env asserts a request bytes waits others m
    = (case make_reservation_or_null env asserts a bytes (memory_spaces m ! i) of
         (r, ms) \<Rightarrow> Some (r, m\<lparr>memory_spaces := (memory_spaces m)[i := ms]\<rparr>))"
  by (rule request_first_candidate [OF assms])

text \<open>
  A request to downgrade or to upgrade is never answered: these strategies have no
  candidates, so \<open>request_reservation\<close> waits on a condition variable again and again, whatever
  happens to the spaces in the meantime.
\<close>

theorem request_without_candidates_blocks:
  "request_reservation env asserts a (any_memory_space_to_downgrade src targets) bytes waits others m = None
   \<and> request_reservation env asserts a (any_memory_space_to_upgrade src target) bytes waits others m = None"
proof -
  have none: "select_memory_space_and_make_reservation env asserts a request bytes waits m' = Some (Inr None, m')"
    if "request = any_memory_space_to_downgrade src targets \<or> request = any_memory_space_to_upgrade src target"
    for request m'
    using that by (auto simp: select_memory_space_and_make_reservation_def Let_def)
  have loop: "request_loop env asserts a request bytes waits others m' = None"
    if "request = any_memory_space_to_downgrade src targets \<or> request = any_memory_space_to_upgrade src target"
    for request m'
    using that
  proof (induction others arbitrary: m')
    case Nil
    then show ?case using none [OF Nil] by simp
  next
    case (Cons f fs)
    then show ?case using none [OF Cons.prems] by simp
  qed
  show ?thesis using none loop by (simp add: request_reservation_def)
qed

section \<open>Concrete managers\<close>

definition full_disk_space :: "(nat, nat) memory_space" where
  "full_disk_space =
     small_disk_space\<lparr>reservation_allocator := Disk_adaptor (small_disk\<lparr>disk_allocated_bytes := 100\<rparr>)\<rparr>"

definition two_disks :: "(nat, nat) memory_reservation_manager" where
  "two_disks =
     build_lookup_tables
       \<lparr>memory_spaces = [full_disk_space, small_disk_space\<lparr>ms_id := memory_space_id DISK 1\<rparr>],
        memory_space_views = [], memory_space_lookup = [], tier_to_memory_spaces = []\<rparr>"

lemma two_disks_spaces:
  "distinct (map ms_id [full_disk_space, small_disk_space\<lparr>ms_id := memory_space_id DISK 1\<rparr>])"
  by (simp add: full_disk_space_def)

theorem lookup_tables_correct_witness:
  "get_memory_space DISK 1 two_disks = Some 1 \<and> get_memory_spaces_for_tier DISK two_disks = [0, 1]"
proof -
  note t = lookup_tables_correct [OF two_disks_spaces two_disks_def, of DISK]
  have "get_memory_space DISK 1 two_disks = Some 1" using t [of 1 1] by simp
  moreover have "get_memory_spaces_for_tier DISK two_disks = [0, 1]"
    using t [of 1 1] by (simp add: full_disk_space_def ms_tier_def upt_rec)
  ultimately show ?thesis ..
qed

theorem request_goes_to_first_candidate_witness:
  "\<exists>m'. request_reservation bump_rmm False 1 (any_memory_space_in_tier DISK) 10 [] [] two_disks
     = Some (Inr (Some \<lparr>res_space = memory_space_id DISK 0, res_arena = None\<rparr>), m')"
proof -
  have build: "get_memory_spaces_for_tier DISK two_disks = [0, 1]"
      "memory_spaces two_disks = [full_disk_space, small_disk_space\<lparr>ms_id := memory_space_id DISK 1\<rparr>]"
    by (simp_all add: two_disks_def build_lookup_tables_def get_memory_spaces_for_tier_def push_tier_def
        full_disk_space_def ms_tier_def)
  have c: "get_candidates (any_memory_space_in_tier DISK) two_disks = 0 # [1]"
    using build(1) by simp
  have "make_reservation_or_null bump_rmm False 1 10 full_disk_space
      = (Inr (Some \<lparr>res_space = memory_space_id DISK 0, res_arena = None\<rparr>),
         snd (make_reservation_or_null bump_rmm False 1 10 full_disk_space))"
    by (simp add: full_disk_space_def make_reservation_or_null_def space_reserve_def disk_reserve_def
        disk_do_reserve_def try_add_def with_notifier_def reservation_create_def small_disk_def
        new_disk_limiter_def Let_def)
  with request_goes_to_first_candidate [OF c, of bump_rmm False 1 10 "[]" "[]"] build(2) show ?thesis
    by (auto split: prod.splits)
qed

end
