(* ===== verification/Cxx_Strings.thy ===== *)
theory Cxx_Strings
  imports Prelude
begin

text \<open>
  The operations of the C++ standard library on strings that the program uses: searching, splitting
  with \<open>getline\<close>, lower case, file names, and \<open>std::stoi\<close> with its exceptions. The round trip of
  numbers through their decimal form is proved here.
\<close>

section \<open>Searching and splitting\<close>

text \<open>\<open>std::string::find\<close> with a character; \<open>None\<close> is \<open>npos\<close>.\<close>

fun find_char :: "char \<Rightarrow> string \<Rightarrow> nat option" where
  "find_char c [] = None"
| "find_char c (x # xs) = (if x = c then Some 0 else map_option Suc (find_char c xs))"

text \<open>
  The tokens of a loop \<open>while (std::getline(iss, token, d))\<close>: a delimiter at the very end starts no
  further token.
\<close>

function getlines :: "char \<Rightarrow> string \<Rightarrow> string list" where
  "getlines d s =
     (if s = [] then []
      else takeWhile (\<lambda>x. x \<noteq> d) s # getlines d (drop 1 (dropWhile (\<lambda>x. x \<noteq> d) s)))"
  by pat_completeness auto

termination getlines
proof (relation "measure (length \<circ> snd)", goal_cases)
  case (2 d s)
  then have "0 < length s" by simp
  moreover have "length (dropWhile (\<lambda>x. x \<noteq> d) s) \<le> length s" by (rule length_dropWhile_le)
  ultimately have "length (drop 1 (dropWhile (\<lambda>x. x \<noteq> d) s)) < length s"
    unfolding length_drop by linarith
  then show ?case by simp
qed simp

declare getlines.simps [simp del]

definition to_lower :: "char \<Rightarrow> char" where
  "to_lower c = (let n = of_char c :: nat in if 65 \<le> n \<and> n \<le> 90 then char_of (n + 32) else c)"

text \<open>\<open>path::filename\<close>: what follows the last separator.\<close>

definition path_filename :: "string \<Rightarrow> string" where
  "path_filename s = rev (takeWhile (\<lambda>c. c \<noteq> CHR ''/'') (rev s))"

section \<open>Numbers\<close>

definition is_space :: "char \<Rightarrow> bool" where
  "is_space c = (let n = of_char c :: nat in n = 32 \<or> 9 \<le> n \<and> n \<le> 13)"

definition digit_value :: "char \<Rightarrow> nat" where
  "digit_value c =
     (let n = of_char c :: nat
      in if 48 \<le> n \<and> n \<le> 57 then n - 48
         else if 97 \<le> n \<and> n \<le> 122 then n - 87
         else if 65 \<le> n \<and> n \<le> 90 then n - 55 else 36)"

definition number_of :: "nat \<Rightarrow> string \<Rightarrow> nat" where
  "number_of base ds = foldl (\<lambda>n c. n * base + digit_value c) 0 ds"

text \<open>
  \<open>std::stoi\<close>: leading white space, a sign, for base 16 an optional \<open>0x\<close> before a digit, then the
  longest run of digits; what follows is ignored. No digit is \<open>invalid_argument\<close>, a value outside
  \<open>int\<close> is \<open>out_of_range\<close>.
\<close>

definition strip_0x :: "nat \<Rightarrow> string \<Rightarrow> string" where
  "strip_0x base s =
     (if base = 16 \<and> 2 < length s \<and> s ! 0 = CHR ''0'' \<and> to_lower (s ! 1) = CHR ''x''
         \<and> digit_value (s ! 2) < 16
      then drop 2 s else s)"

definition stoi :: "nat \<Rightarrow> string \<Rightarrow> int outcome" where
  "stoi base s =
     (let t = dropWhile is_space s;
          negative = (t \<noteq> [] \<and> hd t = CHR ''-'');
          u = (if t \<noteq> [] \<and> (hd t = CHR ''-'' \<or> hd t = CHR ''+'') then tl t else t);
          ds = takeWhile (\<lambda>c. digit_value c < base) (strip_0x base u);
          n = (if negative then - int (number_of base ds) else int (number_of base ds))
      in if ds = [] then Inl (invalid_argument ''stoi'')
         else if n < - (2 ^ 31) \<or> 2 ^ 31 \<le> n then Inl (out_of_range ''stoi'')
         else Inr n)"

section \<open>Decimal numbers read back\<close>

definition is_digit :: "char \<Rightarrow> bool" where
  "is_digit c \<longleftrightarrow> digit_value c < 10"

lemma digit_char:
  assumes "d < 10"
  shows "digit_value (char_of (48 + d :: nat)) = d" and "is_digit (char_of (48 + d :: nat))"
proof -
  have "of_char (char_of (48 + d :: nat) :: char) = 48 + d" using assms by simp
  with assms show "digit_value (char_of (48 + d :: nat)) = d" by (simp add: digit_value_def)
  with assms show "is_digit (char_of (48 + d :: nat))" by (simp add: is_digit_def)
qed

lemma decimal_digits: "decimal n \<noteq> []" "c \<in> set (decimal n) \<Longrightarrow> is_digit c"
proof -
  have "decimal n \<noteq> [] \<and> (\<forall>c \<in> set (decimal n). is_digit c)"
  proof (induction n rule: decimal.induct)
    case (1 n)
    then show ?case
      using digit_char(2) [of n] digit_char(2) [of "n mod 10"]
      by (subst (1 2) decimal.simps) auto
  qed
  then show "decimal n \<noteq> []" "c \<in> set (decimal n) \<Longrightarrow> is_digit c" by auto
qed

lemma number_of_decimal: "number_of 10 (decimal n) = n"
proof (induction n rule: decimal.induct)
  case (1 n)
  show ?case
  proof (cases "n < 10")
    case True
    then show ?thesis using digit_char(1) [of n] by (subst decimal.simps) (simp add: number_of_def)
  next
    case False
    with 1 have "number_of 10 (decimal (n div 10)) = n div 10" by simp
    with False show ?thesis
      using digit_char(1) [of "n mod 10"] by (subst decimal.simps) (simp add: number_of_def)
  qed
qed

lemma digit_is_no_sign:
  assumes "is_digit c"
  shows "\<not> is_space c" and "c \<noteq> CHR ''-''" and "c \<noteq> CHR ''+''" and "c \<noteq> CHR '',''"
  using assms by (auto simp: is_digit_def digit_value_def is_space_def Let_def split: if_splits)

lemma takeWhile_decimal:
  assumes "rest = [] \<or> \<not> is_digit (hd rest)"
  shows "takeWhile (\<lambda>c. digit_value c < 10) (decimal n @ rest) = decimal n"
  using assms decimal_digits(2) [of _ n]
  by (cases rest) (auto simp: takeWhile_append is_digit_def)

lemma stoi_decimal:
  assumes "n < 2 ^ 31" and "rest = [] \<or> \<not> is_digit (hd rest)"
  shows "stoi 10 (decimal n @ rest) = Inr (int n)"
proof -
  obtain c cs where d: "decimal n = c # cs" using decimal_digits(1) by (cases "decimal n") auto
  then have "is_digit c" using decimal_digits(2) [of c n] by simp
  note c = digit_is_no_sign [OF this]
  have "dropWhile is_space (decimal n @ rest) = decimal n @ rest" using c(1) d by simp
  moreover have "hd (decimal n @ rest) \<noteq> CHR ''-''" "hd (decimal n @ rest) \<noteq> CHR ''+''" using c d by simp_all
  ultimately show ?thesis
    using takeWhile_decimal [OF assms(2), of n] decimal_digits(1) [of n] assms(1)
    by (simp add: stoi_def strip_0x_def number_of_decimal Let_def)
qed

end
