(* ===== verification/Topology.thy ===== *)
theory Topology
  imports Cxx_Strings
begin

text \<open>
  Topology discovery (\<open>include/memory/topology_discovery.hpp\<close>, \<open>src/memory/topology_discovery.cpp\<close>).

  The file system and NVML are parameters: \<open>sysfs\<close> gives the contents of files, which paths exist,
  what iterating over a directory yields (the entries with their names and whether they are
  directories, and whether the iteration then fails with an exception) and canonical paths;
  \<open>nvml\<close> gives the answers of the loaded library, \<open>None\<close> for a failing call, and whether the loader
  made it available. Messages on \<open>std::cerr\<close>
  are left out. \<open>int\<close> values are integers; \<open>std::stoi\<close> keeps them within 32 bits.
\<close>

section \<open>Data\<close>

record sysfs =
  fs_read :: "string \<Rightarrow> string option"
  fs_exists :: "string \<Rightarrow> bool"
  fs_iterate :: "string \<Rightarrow> (string \<times> bool) list \<times> bool"
  fs_canonical :: "string \<Rightarrow> string option"
  fs_hostname :: "string option"

record nvml =
  nvml_loaded :: bool
  nvml_init :: bool
  nvml_device_count :: "nat option"
  nvml_handle :: "nat \<Rightarrow> bool"
  nvml_name :: "nat \<Rightarrow> string option"
  nvml_pci_bus_id :: "nat \<Rightarrow> string option"
  nvml_uuid :: "nat \<Rightarrow> string option"

record gpu_topology_info =
  gpu_id :: nat
  gpu_name :: string
  gpu_pci_bus_id :: string
  gpu_uuid :: string
  gpu_numa_node :: int
  gpu_cpu_affinity_list :: string
  gpu_cpu_cores :: "int list"
  gpu_memory_binding :: "int list"
  gpu_network_devices :: "string list"

record network_device_info =
  net_name :: string
  net_numa_node :: int
  net_pci_bus_id :: string

datatype StorageDriveType = NVME | SATA_SSD | SATA_HDD | UNKNOWN

record storage_device_info =
  storage_type :: StorageDriveType
  storage_name :: string
  storage_numa_node :: int
  storage_pci_bus_id :: string

record system_topology_info =
  hostname :: string
  num_gpus :: nat
  num_numa_nodes :: nat
  num_network_devices :: nat
  topo_gpus :: "gpu_topology_info list"
  topo_network_devices :: "network_device_info list"
  topo_storage_devices :: "storage_device_info list"

datatype PciePathType = PIX | PXB | PHB | NODE | SYS

fun path_rank :: "PciePathType \<Rightarrow> nat" where
  "path_rank PIX = 0" | "path_rank PXB = 1" | "path_rank PHB = 2" | "path_rank NODE = 3" | "path_rank SYS = 4"

section \<open>Loading NVML\<close>

text \<open>
  The runtime loader. \<open>dlopen\<close> and \<open>dlsym\<close> are parameters, \<open>None\<close> a null pointer; \<open>nvml_load\<close> also gives
  the handles it closed.
\<close>

record dynlib =
  dl_open :: "string \<Rightarrow> nat option"
  dl_sym :: "nat \<Rightarrow> string \<Rightarrow> nat option"

record NvmlLoader =
  nvml_lib_handle :: "nat option"
  p_nvmlInit_v2 :: "nat option"
  p_nvmlShutdown :: "nat option"
  p_nvmlDeviceGetCount_v2 :: "nat option"
  p_nvmlDeviceGetHandleByIndex_v2 :: "nat option"
  p_nvmlDeviceGetName :: "nat option"
  p_nvmlDeviceGetPciInfo_v3 :: "nat option"
  p_nvmlDeviceGetUUID :: "nat option"
  p_nvmlErrorString :: "nat option"

definition empty_loader :: NvmlLoader where
  "empty_loader =
     \<lparr>nvml_lib_handle = None, p_nvmlInit_v2 = None, p_nvmlShutdown = None, p_nvmlDeviceGetCount_v2 = None,
      p_nvmlDeviceGetHandleByIndex_v2 = None, p_nvmlDeviceGetName = None, p_nvmlDeviceGetPciInfo_v3 = None,
      p_nvmlDeviceGetUUID = None, p_nvmlErrorString = None\<rparr>"

definition resolve_symbols :: "dynlib \<Rightarrow> nat \<Rightarrow> NvmlLoader" where
  "resolve_symbols dl h =
     \<lparr>nvml_lib_handle = Some h,
      p_nvmlInit_v2 = dl_sym dl h ''nvmlInit_v2'',
      p_nvmlShutdown = dl_sym dl h ''nvmlShutdown'',
      p_nvmlDeviceGetCount_v2 = dl_sym dl h ''nvmlDeviceGetCount_v2'',
      p_nvmlDeviceGetHandleByIndex_v2 = dl_sym dl h ''nvmlDeviceGetHandleByIndex_v2'',
      p_nvmlDeviceGetName = dl_sym dl h ''nvmlDeviceGetName'',
      p_nvmlDeviceGetPciInfo_v3 = dl_sym dl h ''nvmlDeviceGetPciInfo_v3'',
      p_nvmlDeviceGetUUID = dl_sym dl h ''nvmlDeviceGetUUID'',
      p_nvmlErrorString = dl_sym dl h ''nvmlErrorString''\<rparr>"

definition missing_symbol :: "NvmlLoader \<Rightarrow> bool" where
  "missing_symbol l =
     (p_nvmlInit_v2 l = None \<or> p_nvmlShutdown l = None \<or> p_nvmlDeviceGetCount_v2 l = None
      \<or> p_nvmlDeviceGetHandleByIndex_v2 l = None \<or> p_nvmlDeviceGetName l = None
      \<or> p_nvmlDeviceGetPciInfo_v3 l = None \<or> p_nvmlDeviceGetUUID l = None \<or> p_nvmlErrorString l = None)"

definition nvml_load :: "dynlib \<Rightarrow> NvmlLoader \<times> nat list" where
  "nvml_load dl =
     (let handle = (case dl_open dl ''libnvidia-ml.so.1'' of
                      Some h \<Rightarrow> Some h
                    | None \<Rightarrow> dl_open dl ''libnvidia-ml.so'')
      in case handle of
           None \<Rightarrow> (empty_loader, [])
         | Some h \<Rightarrow>
             let l = resolve_symbols dl h
             in if missing_symbol l then (empty_loader, [h]) else (l, []))"

definition nvml_available :: "NvmlLoader \<Rightarrow> bool" where
  "nvml_available l =
     (nvml_lib_handle l \<noteq> None \<and> p_nvmlInit_v2 l \<noteq> None \<and> p_nvmlShutdown l \<noteq> None
      \<and> p_nvmlDeviceGetCount_v2 l \<noteq> None \<and> p_nvmlDeviceGetHandleByIndex_v2 l \<noteq> None
      \<and> p_nvmlDeviceGetName l \<noteq> None \<and> p_nvmlDeviceGetPciInfo_v3 l \<noteq> None
      \<and> p_nvmlDeviceGetUUID l \<noteq> None \<and> p_nvmlErrorString l \<noteq> None)"

definition nvml_loader_destroy :: "NvmlLoader \<Rightarrow> nat list" where
  "nvml_loader_destroy l = list_of_option (nvml_lib_handle l)"

section \<open>Parsing\<close>

definition read_file_content :: "sysfs \<Rightarrow> string \<Rightarrow> string" where
  "read_file_content fs path =
     (case fs_read fs path of
        None \<Rightarrow> []
      | Some content \<Rightarrow> if content \<noteq> [] \<and> last content = CHR 0x0A then butlast content else content)"

text \<open>One token of a CPU list; a range up to \<open>INT_MAX\<close> overflows its loop variable.\<close>

definition parse_cpu_token :: "string \<Rightarrow> int list outcome" where
  "parse_cpu_token token =
     (case find_char CHR ''-'' token of
        Some dash_pos \<Rightarrow>
          (case stoi 10 (take dash_pos token) of
             Inl e \<Rightarrow> Inl e
           | Inr start \<Rightarrow>
               (case stoi 10 (drop (dash_pos + 1) token) of
                  Inl e \<Rightarrow> Inl e
                | Inr end_ \<Rightarrow> if start \<le> end_ \<and> end_ = 2 ^ 31 - 1 then Inl signed_overflow
                               else Inr [start..end_]))
      | None \<Rightarrow> (case stoi 10 token of Inl e \<Rightarrow> Inl e | Inr i \<Rightarrow> Inr [i]))"

fun parse_cpu_tokens :: "string list \<Rightarrow> int list \<Rightarrow> int list outcome" where
  "parse_cpu_tokens [] cores = Inr cores"
| "parse_cpu_tokens (t # ts) cores =
     (case parse_cpu_token t of
        Inl e \<Rightarrow> Inl e
      | Inr is \<Rightarrow> parse_cpu_tokens ts (cores @ is))"

definition parse_cpu_list :: "string \<Rightarrow> int list outcome" where
  "parse_cpu_list cpulist =
     (if cpulist = [] then Inr [] else parse_cpu_tokens (getlines CHR '','' cpulist) [])"

definition normalize_pci_bus_id :: "string \<Rightarrow> string" where
  "normalize_pci_bus_id pci_bus_id =
     (case find_char CHR '':'' pci_bus_id of
        None \<Rightarrow> pci_bus_id
      | Some colon_pos \<Rightarrow>
          let domain = take colon_pos pci_bus_id;
              domain = (if 4 < length domain then drop (length domain - 4) domain else domain)
          in map to_lower (domain @ drop colon_pos pci_bus_id))"

definition pci_device_file :: "string \<Rightarrow> string \<Rightarrow> string" where
  "pci_device_file normalized_id file = ''/sys/bus/pci/devices/'' @ normalized_id @ ''/'' @ file"

definition get_numa_node_from_sys :: "sysfs \<Rightarrow> string \<Rightarrow> int" where
  "get_numa_node_from_sys fs pci_bus_id =
     (let content = read_file_content fs (pci_device_file (normalize_pci_bus_id pci_bus_id) ''numa_node'')
      in if content = [] then - 1
         else (case stoi 10 content of Inl _ \<Rightarrow> - 1 | Inr i \<Rightarrow> i))"

definition get_cpu_affinity_from_sys :: "sysfs \<Rightarrow> string \<Rightarrow> string" where
  "get_cpu_affinity_from_sys fs pci_bus_id =
     read_file_content fs (pci_device_file (normalize_pci_bus_id pci_bus_id) ''local_cpulist'')"

definition get_pci_bus_id_from_device :: "sysfs \<Rightarrow> string \<Rightarrow> string" where
  "get_pci_bus_id_from_device fs device_path =
     (let device_link = device_path @ ''/device''
      in if \<not> fs_exists fs device_link then []
         else (case fs_canonical fs device_link of
                 None \<Rightarrow> []
               | Some real_path \<Rightarrow> path_filename real_path))"

definition get_pci_bus_number :: "string \<Rightarrow> int" where
  "get_pci_bus_number pci_id =
     (case find_char CHR '':'' pci_id of
        None \<Rightarrow> - 1
      | Some first_colon \<Rightarrow>
          (case find_char CHR '':'' (drop (first_colon + 1) pci_id) of
             None \<Rightarrow> - 1
           | Some len \<Rightarrow>
               (case stoi 16 (take len (drop (first_colon + 1) pci_id)) of Inl _ \<Rightarrow> - 1 | Inr i \<Rightarrow> i)))"

section \<open>PCIe paths\<close>

definition numa_of_file :: "string \<Rightarrow> int outcome" where
  "numa_of_file content = (if content = [] then Inr (- 1) else stoi 10 content)"

definition bus_path_type :: "int \<Rightarrow> int \<Rightarrow> PciePathType" where
  "bus_path_type gpu_bus nic_bus =
     (if gpu_bus < 0 \<or> nic_bus < 0 then PHB
      else let bus_distance = \<bar>gpu_bus - nic_bus\<bar>
           in if bus_distance \<le> 2 then PIX else if bus_distance \<le> 10 then PHB else NODE)"

definition get_pcie_path_type :: "sysfs \<Rightarrow> string \<Rightarrow> string \<Rightarrow> PciePathType outcome" where
  "get_pcie_path_type fs gpu_pci_id nic_pci_id =
     (let gpu_numa_str = read_file_content fs (pci_device_file (normalize_pci_bus_id gpu_pci_id) ''numa_node'');
          nic_numa_str = read_file_content fs (pci_device_file (normalize_pci_bus_id nic_pci_id) ''numa_node'')
      in case numa_of_file gpu_numa_str of
           Inl e \<Rightarrow> Inl e
         | Inr gpu_numa \<Rightarrow>
             (case numa_of_file nic_numa_str of
                Inl e \<Rightarrow> Inl e
              | Inr nic_numa \<Rightarrow>
                  if gpu_numa \<noteq> nic_numa \<and> 0 \<le> gpu_numa \<and> 0 \<le> nic_numa then Inr SYS
                  else Inr (bus_path_type (get_pci_bus_number gpu_pci_id) (get_pci_bus_number nic_pci_id))))"

text \<open>The NICs with PCI information and their paths, in order.\<close>

fun nics_with_paths :: "sysfs \<Rightarrow> string \<Rightarrow> network_device_info list \<Rightarrow> (string \<times> PciePathType) list outcome" where
  "nics_with_paths fs gpu_pci_id [] = Inr []"
| "nics_with_paths fs gpu_pci_id (dev # devs) =
     (if net_pci_bus_id dev = [] then nics_with_paths fs gpu_pci_id devs
      else (case get_pcie_path_type fs gpu_pci_id (net_pci_bus_id dev) of
              Inl e \<Rightarrow> Inl e
            | Inr path \<Rightarrow>
                (case nics_with_paths fs gpu_pci_id devs of
                   Inl e \<Rightarrow> Inl e
                 | Inr nics \<Rightarrow> Inr ((net_name dev, path) # nics))))"

definition best_path_type :: "(string \<times> PciePathType) list \<Rightarrow> PciePathType" where
  "best_path_type nics =
     foldl (\<lambda>best nic. if path_rank (snd nic) < path_rank best then snd nic else best) SYS nics"

definition map_network_devices_to_gpu ::
  "sysfs \<Rightarrow> string \<Rightarrow> int \<Rightarrow> network_device_info list \<Rightarrow> string list outcome" where
  "map_network_devices_to_gpu fs gpu_pci_id numa network_devices =
     (case nics_with_paths fs gpu_pci_id network_devices of
        Inl e \<Rightarrow> Inl e
      | Inr nics \<Rightarrow>
          if nics = [] then Inr []
          else
            let best = best_path_type nics;
                mapped = map fst (filter (\<lambda>nic. snd nic = best) nics);
                mapped = (if mapped = []
                          then map net_name (filter (\<lambda>dev. net_numa_node dev = numa) network_devices)
                          else mapped);
                mapped = (if mapped = [] \<and> network_devices \<noteq> []
                          then map net_name network_devices else mapped)
            in Inr mapped)"

section \<open>Scanning the system\<close>

text \<open>
  The loop over a device class directory. An exception of the iteration, or of \<open>std::stoi\<close> in its
  body, is caught: the devices found so far are returned.
\<close>

fun scan_devices :: "sysfs \<Rightarrow> string \<Rightarrow> (string \<times> bool) list \<Rightarrow> (string \<times> int \<times> string) list" where
  "scan_devices fs path [] = []"
| "scan_devices fs path ((name, is_directory) # entries) =
     (if \<not> is_directory then scan_devices fs path entries
      else
        let entry = path @ ''/'' @ name
        in case numa_of_file (read_file_content fs (entry @ ''/device/numa_node'')) of
             Inl _ \<Rightarrow> []
           | Inr numa \<Rightarrow> (name, numa, get_pci_bus_id_from_device fs entry) # scan_devices fs path entries)"

definition scan_class :: "sysfs \<Rightarrow> string \<Rightarrow> (string \<times> int \<times> string) list" where
  "scan_class fs path = (if fs_exists fs path then scan_devices fs path (fst (fs_iterate fs path)) else [])"

definition discover_network_devices_with_topology :: "sysfs \<Rightarrow> network_device_info list" where
  "discover_network_devices_with_topology fs =
     map (\<lambda>(name, numa, pci). \<lparr>net_name = name, net_numa_node = numa, net_pci_bus_id = pci\<rparr>)
       (scan_class fs ''/sys/class/infiniband'')"

definition discover_storage_devices_with_topology :: "sysfs \<Rightarrow> storage_device_info list" where
  "discover_storage_devices_with_topology fs =
     map (\<lambda>(name, numa, pci).
            \<lparr>storage_type = NVME, storage_name = name, storage_numa_node = numa, storage_pci_bus_id = pci\<rparr>)
       (scan_class fs ''/sys/class/nvme'')"

definition get_hostname :: "sysfs \<Rightarrow> string" where
  "get_hostname fs = (case fs_hostname fs of None \<Rightarrow> [] | Some name \<Rightarrow> name)"

definition count_numa_nodes :: "sysfs \<Rightarrow> nat" where
  "count_numa_nodes fs =
     (let path = ''/sys/devices/system/node''
      in if \<not> fs_exists fs path then 0
         else (case fs_iterate fs path of
                 (entries, failed) \<Rightarrow>
                   if failed then 0
                   else length (filter (\<lambda>(name, _). take 4 name = ''node'') entries)))"

section \<open>Discovery\<close>

definition describe_gpu ::
  "sysfs \<Rightarrow> nvml \<Rightarrow> network_device_info list \<Rightarrow> nat \<Rightarrow> gpu_topology_info option outcome" where
  "describe_gpu fs nv network_devices i =
     (if \<not> nvml_handle nv i then Inr None
      else
        (case nvml_pci_bus_id nv i of
           None \<Rightarrow> Inr None
         | Some pci \<Rightarrow>
             let numa = get_numa_node_from_sys fs pci;
                 affinity = get_cpu_affinity_from_sys fs pci
             in case parse_cpu_list affinity of
                  Inl e \<Rightarrow> Inl e
                | Inr cores \<Rightarrow>
                    (case map_network_devices_to_gpu fs pci numa network_devices of
                       Inl e \<Rightarrow> Inl e
                     | Inr nics \<Rightarrow>
                         Inr (Some
                           \<lparr>gpu_id = i,
                            gpu_name = (case nvml_name nv i of None \<Rightarrow> ''Unknown'' | Some s \<Rightarrow> s),
                            gpu_pci_bus_id = pci,
                            gpu_uuid = (case nvml_uuid nv i of None \<Rightarrow> ''Unknown'' | Some s \<Rightarrow> s),
                            gpu_numa_node = numa, gpu_cpu_affinity_list = affinity,
                            gpu_cpu_cores = cores,
                            gpu_memory_binding = (if 0 \<le> numa then [numa] else []),
                            gpu_network_devices = nics\<rparr>))))"

fun describe_gpus ::
  "sysfs \<Rightarrow> nvml \<Rightarrow> network_device_info list \<Rightarrow> nat list \<Rightarrow> gpu_topology_info list outcome" where
  "describe_gpus fs nv devs [] = Inr []"
| "describe_gpus fs nv devs (i # is) =
     (case describe_gpu fs nv devs i of
        Inl e \<Rightarrow> Inl e
      | Inr g \<Rightarrow>
          (case describe_gpus fs nv devs is of
             Inl e \<Rightarrow> Inl e
           | Inr gs \<Rightarrow> Inr (list_of_option g @ gs)))"

text \<open>
  \<open>discover\<close>: the result, the topology stored in the object, and whether NVML is left initialised.
\<close>

definition discover ::
  "sysfs \<Rightarrow> nvml \<Rightarrow> system_topology_info option \<Rightarrow> bool outcome \<times> system_topology_info option \<times> bool" where
  "discover fs nv stored =
     (let initialised = (nvml_loaded nv \<and> nvml_init nv);
          counted = (if initialised then nvml_device_count nv else None);
          device_count = (case counted of None \<Rightarrow> 0 | Some n \<Rightarrow> n);
          network_devices = discover_network_devices_with_topology fs
      in case describe_gpus fs nv network_devices [0..<device_count] of
           Inl e \<Rightarrow> (Inl e, stored, initialised)
         | Inr gpus \<Rightarrow>
             (Inr True,
              Some \<lparr>hostname = get_hostname fs, num_gpus = device_count,
                    num_numa_nodes = count_numa_nodes fs, num_network_devices = length network_devices,
                    topo_gpus = gpus, topo_network_devices = network_devices,
                    topo_storage_devices = discover_storage_devices_with_topology fs\<rparr>,
              initialised \<and> counted = None))"

definition get_topology :: "system_topology_info option \<Rightarrow> system_topology_info outcome" where
  "get_topology stored = (case stored of None \<Rightarrow> Inl bad_optional_access | Some t \<Rightarrow> Inr t)"

definition is_discovered :: "system_topology_info option \<Rightarrow> bool" where
  "is_discovered stored = (stored \<noteq> None)"

end
