(* ===== verification/Configurator.thy ===== *)
theory Configurator
  imports Memory_Config Topology
begin

text \<open>
  \<open>reservation_manager_configurator\<close> (\<open>include/memory/reservation_manager_configurator.hpp\<close>,
  \<open>src/memory/reservation_manager_configurator.cpp\<close>): the builder that turns settings and a system
  topology into the configurations of the memory spaces.

  A memory resource factory is a function of a device id and a capacity that may throw; an empty
  \<open>std::function\<close> is \<open>None\<close>. \<open>total_memory\<close> is what \<open>rmm::available_device_memory\<close> reports as the total
  of a device; \<open>asserts\<close> says whether the build checks assertions. A fraction of no bytes at all is
  no finite double: the model stops there with \<open>not_a_number\<close>.
\<close>

section \<open>Settings\<close>

type_synonym 'r factory = "i32 \<Rightarrow> u64 \<Rightarrow> 'r outcome"

datatype fraction_or_size = Fraction dbl | Size u64

definition frac_85 :: dbl where "frac_85 = Dbl 7656119366529843 (- 53)"

fun get_fraction :: "bool \<Rightarrow> u64 \<Rightarrow> fraction_or_size \<Rightarrow> dbl outcome" where
  "get_fraction asserts total_size (Fraction f) = Inr f"
| "get_fraction asserts total_size (Size bytes) =
     (if asserts \<and> \<not> bytes \<le> total_size then Inl assertion_failure
      else if total_size = 0 then Inl not_a_number
      else Inr (dbl_div (dbl_of_u64 bytes) (dbl_of_u64 total_size)))"

fun get_capacity :: "bool \<Rightarrow> u64 \<Rightarrow> fraction_or_size \<Rightarrow> u64 outcome" where
  "get_capacity asserts total_size (Fraction f) = Inr (scale_bytes total_size f)"
| "get_capacity asserts total_size (Size bytes) =
     (if asserts \<and> \<not> (bytes \<le> total_size \<and> 0 < total_size) then Inl assertion_failure else Inr bytes)"

datatype host_creation_policy = bind_cpu_to_gpu_numa | bind_host_to_gpu_id

record 'r reservation_manager_configurator =
  cfg_num_gpus :: u64
  cfg_per_stream_gpu_reservation :: bool
  cfg_gpu_capacity :: fraction_or_size
  cfg_gpu_reservation :: fraction_or_size
  downgrade_fractions_per_gpu :: "dbl \<times> dbl"
  cfg_gpu_mr_fn :: "'r factory option"
  cfg_host_capacity :: u64
  cfg_is_capacity_per_space :: bool
  cfg_host_creation_policy :: host_creation_policy
  cfg_chunk_size :: "u64 option"
  cfg_block_size :: "u64 option"
  cfg_initial_block_count :: "u64 option"
  downgrade_fractions_per_host :: "dbl \<times> dbl"
  cfg_cpu_reservation :: fraction_or_size
  cfg_cpu_mr_fn :: "'r factory option"
  cfg_disk_mounting_points :: "(i32 \<times> u64 \<times> string) list"

definition default_configurator :: "'r factory \<Rightarrow> 'r factory \<Rightarrow> 'r reservation_manager_configurator" where
  "default_configurator make_default_gpu_memory_resource make_default_host_memory_resource =
     \<lparr>cfg_num_gpus = 1, cfg_per_stream_gpu_reservation = True,
      cfg_gpu_capacity = Size (push_bit 30 1), cfg_gpu_reservation = Fraction frac_85,
      downgrade_fractions_per_gpu = (frac_85, frac_65),
      cfg_gpu_mr_fn = Some make_default_gpu_memory_resource,
      cfg_host_capacity = push_bit 30 4, cfg_is_capacity_per_space = True,
      cfg_host_creation_policy = bind_cpu_to_gpu_numa,
      cfg_chunk_size = None, cfg_block_size = None, cfg_initial_block_count = None,
      downgrade_fractions_per_host = (frac_85, frac_65),
      cfg_cpu_reservation = Fraction frac_85,
      cfg_cpu_mr_fn = Some make_default_host_memory_resource,
      cfg_disk_mounting_points = []\<rparr>"

definition proper_fraction :: "dbl \<Rightarrow> bool" where
  "proper_fraction f = (dbl_positive f \<and> dbl_le f (Dbl 1 0))"

definition checked :: "bool \<Rightarrow> bool \<Rightarrow> 'a \<Rightarrow> 'a outcome" where
  "checked asserts condition x = (if asserts \<and> \<not> condition then Inl assertion_failure else Inr x)"

subsection \<open>GPU settings\<close>

definition set_number_of_gpus ::
  "bool \<Rightarrow> u64 \<Rightarrow> 'r reservation_manager_configurator \<Rightarrow> 'r reservation_manager_configurator outcome" where
  "set_number_of_gpus asserts n_gpus c = checked asserts (0 < n_gpus) (c\<lparr>cfg_num_gpus := n_gpus\<rparr>)"

definition set_gpu_usage_limit ::
  "u64 \<Rightarrow> 'r reservation_manager_configurator \<Rightarrow> 'r reservation_manager_configurator outcome" where
  "set_gpu_usage_limit bytes c = Inr (c\<lparr>cfg_gpu_capacity := Size bytes\<rparr>)"

definition set_usage_limit_ratio_per_gpu ::
  "bool \<Rightarrow> dbl \<Rightarrow> 'r reservation_manager_configurator \<Rightarrow> 'r reservation_manager_configurator outcome" where
  "set_usage_limit_ratio_per_gpu asserts f c =
     checked asserts (proper_fraction f) (c\<lparr>cfg_gpu_capacity := Fraction f\<rparr>)"

definition set_reservation_limit_per_gpu ::
  "u64 \<Rightarrow> 'r reservation_manager_configurator \<Rightarrow> 'r reservation_manager_configurator outcome" where
  "set_reservation_limit_per_gpu bytes c = Inr (c\<lparr>cfg_gpu_reservation := Size bytes\<rparr>)"

definition set_reservation_fraction_per_gpu ::
  "bool \<Rightarrow> dbl \<Rightarrow> 'r reservation_manager_configurator \<Rightarrow> 'r reservation_manager_configurator outcome" where
  "set_reservation_fraction_per_gpu asserts f c =
     checked asserts (proper_fraction f) (c\<lparr>cfg_gpu_reservation := Fraction f\<rparr>)"

definition set_downgrade_fractions_per_gpu ::
  "bool \<Rightarrow> dbl \<Rightarrow> dbl \<Rightarrow> 'r reservation_manager_configurator \<Rightarrow> 'r reservation_manager_configurator outcome"
where
  "set_downgrade_fractions_per_gpu asserts start stop c =
     checked asserts (proper_fraction start \<and> proper_fraction stop)
       (c\<lparr>downgrade_fractions_per_gpu := (start, stop)\<rparr>)"

definition track_reservation_per_stream ::
  "bool \<Rightarrow> 'r reservation_manager_configurator \<Rightarrow> 'r reservation_manager_configurator outcome" where
  "track_reservation_per_stream enable c = Inr (c\<lparr>cfg_per_stream_gpu_reservation := enable\<rparr>)"

definition set_gpu_memory_resource_factory ::
  "bool \<Rightarrow> 'r factory option \<Rightarrow> 'r reservation_manager_configurator \<Rightarrow>
   'r reservation_manager_configurator outcome" where
  "set_gpu_memory_resource_factory asserts mr_fn c =
     checked asserts (mr_fn \<noteq> None) (c\<lparr>cfg_gpu_mr_fn := mr_fn\<rparr>)"

subsection \<open>Host and disk settings\<close>

definition use_host_per_gpu ::
  "'r reservation_manager_configurator \<Rightarrow> 'r reservation_manager_configurator outcome" where
  "use_host_per_gpu c = Inr (c\<lparr>cfg_host_creation_policy := bind_host_to_gpu_id\<rparr>)"

definition use_host_per_numa ::
  "'r reservation_manager_configurator \<Rightarrow> 'r reservation_manager_configurator outcome" where
  "use_host_per_numa c = Inr (c\<lparr>cfg_host_creation_policy := bind_cpu_to_gpu_numa\<rparr>)"

definition set_total_host_capacity ::
  "bool \<Rightarrow> u64 \<Rightarrow> 'r reservation_manager_configurator \<Rightarrow> 'r reservation_manager_configurator outcome" where
  "set_total_host_capacity asserts bytes c =
     checked asserts (0 < bytes) (c\<lparr>cfg_host_capacity := bytes, cfg_is_capacity_per_space := False\<rparr>)"

definition set_per_host_capacity ::
  "bool \<Rightarrow> u64 \<Rightarrow> 'r reservation_manager_configurator \<Rightarrow> 'r reservation_manager_configurator outcome" where
  "set_per_host_capacity asserts bytes c =
     checked asserts (0 < bytes) (c\<lparr>cfg_host_capacity := bytes, cfg_is_capacity_per_space := True\<rparr>)"

definition set_downgrade_fractions_per_host ::
  "bool \<Rightarrow> dbl \<Rightarrow> dbl \<Rightarrow> 'r reservation_manager_configurator \<Rightarrow> 'r reservation_manager_configurator outcome"
where
  "set_downgrade_fractions_per_host asserts start stop c =
     checked asserts (proper_fraction start \<and> proper_fraction stop)
       (c\<lparr>downgrade_fractions_per_host := (start, stop)\<rparr>)"

definition set_reservation_fraction_per_host ::
  "bool \<Rightarrow> dbl \<Rightarrow> 'r reservation_manager_configurator \<Rightarrow> 'r reservation_manager_configurator outcome" where
  "set_reservation_fraction_per_host asserts f c =
     checked asserts (proper_fraction f) (c\<lparr>cfg_cpu_reservation := Fraction f\<rparr>)"

definition set_reservation_limit_per_host ::
  "u64 \<Rightarrow> 'r reservation_manager_configurator \<Rightarrow> 'r reservation_manager_configurator outcome" where
  "set_reservation_limit_per_host bytes c = Inr (c\<lparr>cfg_cpu_reservation := Size bytes\<rparr>)"

definition set_host_pool_features ::
  "bool \<Rightarrow> u64 \<Rightarrow> u64 \<Rightarrow> u64 \<Rightarrow> 'r reservation_manager_configurator \<Rightarrow>
   'r reservation_manager_configurator outcome" where
  "set_host_pool_features asserts chunk_size block_size initial_block_count c =
     checked asserts (0 < chunk_size \<and> 0 < block_size \<and> 0 < initial_block_count)
       (c\<lparr>cfg_chunk_size := Some chunk_size, cfg_block_size := Some block_size,
          cfg_initial_block_count := Some initial_block_count\<rparr>)"

definition set_host_memory_resource_factory ::
  "bool \<Rightarrow> 'r factory option \<Rightarrow> 'r reservation_manager_configurator \<Rightarrow>
   'r reservation_manager_configurator outcome" where
  "set_host_memory_resource_factory asserts mr_fn c =
     checked asserts (mr_fn \<noteq> None) (c\<lparr>cfg_cpu_mr_fn := mr_fn\<rparr>)"

definition set_disk_mounting_point ::
  "bool \<Rightarrow> i32 \<Rightarrow> u64 \<Rightarrow> string \<Rightarrow> 'r reservation_manager_configurator \<Rightarrow>
   'r reservation_manager_configurator outcome" where
  "set_disk_mounting_point asserts disk capacity mounting_point c =
     checked asserts (mounting_point \<noteq> [])
       (c\<lparr>cfg_disk_mounting_points := cfg_disk_mounting_points c @ [(disk, capacity, mounting_point)]\<rparr>)"

section \<open>Devices and hosts\<close>

record gpu_info =
  gi_space_id :: i32
  gi_hw_id :: i32
  gi_gpu_capacity :: u64
  gi_numa_id :: i32

record host_info =
  hi_space_id :: i32
  hi_numa_id :: i32

fun available_gpus ::
  "(i32 \<Rightarrow> u64 outcome) \<Rightarrow> gpu_topology_info list \<Rightarrow> (i32 \<times> u64 \<times> i32) list \<Rightarrow> (i32 \<times> u64 \<times> i32) list outcome"
where
  "available_gpus total_memory [] available = Inr available"
| "available_gpus total_memory (gpu # gpus) available =
     (let device = of_nat (gpu_id gpu)
      in case total_memory device of
           Inl e \<Rightarrow> Inl e
         | Inr bytes \<Rightarrow>
             available_gpus total_memory gpus
               (alist_set device (bytes, word_of_int (gpu_numa_node gpu)) available))"

fun select_gpus :: "(i32 \<times> u64 \<times> i32) list \<Rightarrow> nat list \<Rightarrow> gpu_info list outcome" where
  "select_gpus available [] = Inr []"
| "select_gpus available (i # is) =
     (case map_of available (of_nat i) of
        None \<Rightarrow>
          Inl (runtime_error (''Requested GPU ID '' @ decimal i @ '' is not available in the system topology''))
      | Some (bytes, numa) \<Rightarrow>
          (case select_gpus available is of
             Inl e \<Rightarrow> Inl e
           | Inr infos \<Rightarrow>
               Inr (\<lparr>gi_space_id = of_nat i, gi_hw_id = of_nat i, gi_gpu_capacity = bytes,
                     gi_numa_id = numa\<rparr> # infos)))"

definition extract_gpu_ids ::
  "(i32 \<Rightarrow> u64 outcome) \<Rightarrow> 'r reservation_manager_configurator \<Rightarrow> system_topology_info \<Rightarrow> gpu_info list outcome"
where
  "extract_gpu_ids total_memory c topology =
     (if length (topo_gpus topology) < unat (cfg_num_gpus c)
      then Inl (runtime_error ''Requested number of GPUs exceeds available GPUs'')
      else
        let n = (if cfg_num_gpus c = 0 then length (topo_gpus topology) else unat (cfg_num_gpus c))
        in case available_gpus total_memory (topo_gpus topology) [] of
             Inl e \<Rightarrow> Inl e
           | Inr available \<Rightarrow> select_gpus available [0..<n])"

fun hosts_of_gpus :: "host_creation_policy \<Rightarrow> gpu_info list \<Rightarrow> i32 list \<Rightarrow> host_info list" where
  "hosts_of_gpus policy [] host_ids = []"
| "hosts_of_gpus bind_host_to_gpu_id (gpu # gpus) host_ids =
     \<lparr>hi_space_id = gi_space_id gpu, hi_numa_id = gi_numa_id gpu\<rparr>
     # hosts_of_gpus bind_host_to_gpu_id gpus host_ids"
| "hosts_of_gpus bind_cpu_to_gpu_numa (gpu # gpus) host_ids =
     (if gi_numa_id gpu \<in> set host_ids then hosts_of_gpus bind_cpu_to_gpu_numa gpus host_ids
      else \<lparr>hi_space_id = gi_numa_id gpu, hi_numa_id = gi_numa_id gpu\<rparr>
           # hosts_of_gpus bind_cpu_to_gpu_numa gpus (gi_numa_id gpu # host_ids))"

definition extract_host_ids :: "'r reservation_manager_configurator \<Rightarrow> gpu_info list \<Rightarrow> host_info list" where
  "extract_host_ids c gpus = hosts_of_gpus (cfg_host_creation_policy c) gpus []"

section \<open>Building the configurations\<close>

text \<open>
  The factory of a space whose id differs from the hardware id is wrapped: it ignores the id it is
  given. Calling a wrapped empty function throws.
\<close>

definition space_factory :: "'r factory option \<Rightarrow> i32 \<Rightarrow> i32 \<Rightarrow> 'r factory option" where
  "space_factory mr_fn space_id hw_id =
     (if space_id = hw_id then mr_fn
      else Some (\<lambda>_ capacity. case mr_fn of None \<Rightarrow> Inl bad_function_call | Some f \<Rightarrow> f hw_id capacity))"

fun build_gpu_configs ::
  "bool \<Rightarrow> 'r reservation_manager_configurator \<Rightarrow> gpu_info list \<Rightarrow> 'r factory memory_space_config list outcome"
where
  "build_gpu_configs asserts c [] = Inr []"
| "build_gpu_configs asserts c (info # infos) =
     (case get_capacity asserts (gi_gpu_capacity info) (cfg_gpu_capacity c) of
        Inl e \<Rightarrow> Inl e
      | Inr capacity \<Rightarrow>
          (case get_fraction asserts (gi_gpu_capacity info) (cfg_gpu_reservation c) of
             Inl e \<Rightarrow> Inl e
           | Inr f \<Rightarrow>
               (case build_gpu_configs asserts c infos of
                  Inl e \<Rightarrow> Inl e
                | Inr configs \<Rightarrow>
                    Inr (Gpu_config
                      \<lparr>gpu_device_id = gi_space_id info, gpu_reservation_limit_fraction = f,
                       gpu_downgrade_trigger_fraction = fst (downgrade_fractions_per_gpu c),
                       gpu_downgrade_stop_fraction = snd (downgrade_fractions_per_gpu c),
                       gpu_memory_capacity = capacity,
                       per_stream_reservation = cfg_per_stream_gpu_reservation c,
                       gpu_mr_factory_fn = space_factory (cfg_gpu_mr_fn c) (gi_space_id info) (gi_hw_id info)\<rparr>
                     # configs))))"

definition per_host_capacity :: "'r reservation_manager_configurator \<Rightarrow> nat \<Rightarrow> u64" where
  "per_host_capacity c hosts =
     (if hosts \<le> 1 then cfg_host_capacity c
      else if cfg_is_capacity_per_space c then cfg_host_capacity c
      else cfg_host_capacity c div of_nat hosts)"

definition value_or :: "'a option \<Rightarrow> 'a \<Rightarrow> 'a" where
  "value_or v d = (case v of None \<Rightarrow> d | Some x \<Rightarrow> x)"

fun build_host_configs ::
  "bool \<Rightarrow> 'r reservation_manager_configurator \<Rightarrow> u64 \<Rightarrow> host_info list \<Rightarrow>
   'r factory memory_space_config list outcome"
where
  "build_host_configs asserts c capacity [] = Inr []"
| "build_host_configs asserts c capacity (info # infos) =
     (case get_fraction asserts capacity (cfg_cpu_reservation c) of
        Inl e \<Rightarrow> Inl e
      | Inr f \<Rightarrow>
          (case build_host_configs asserts c capacity infos of
             Inl e \<Rightarrow> Inl e
           | Inr configs \<Rightarrow>
               Inr (Host_config
                 \<lparr>numa_id = hi_space_id info, host_reservation_limit_fraction = f,
                  host_downgrade_trigger_fraction = fst (downgrade_fractions_per_host c),
                  host_downgrade_stop_fraction = snd (downgrade_fractions_per_host c),
                  host_config_capacity = capacity,
                  config_block_size = value_or (cfg_chunk_size c) default_block_size,
                  config_pool_size = value_or (cfg_block_size c) default_pool_size,
                  initial_number_pools = value_or (cfg_initial_block_count c) default_initial_number_pools,
                  host_mr_factory_fn = space_factory (cfg_cpu_mr_fn c) (hi_space_id info) (hi_numa_id info)\<rparr>
                # configs)))"

definition build_disk_configs :: "'r reservation_manager_configurator \<Rightarrow> 'r factory memory_space_config list" where
  "build_disk_configs c =
     map (\<lambda>(disk, capacity, path).
            Disk_config \<lparr>disk_id = disk, disk_config_capacity = capacity, mount_paths = path\<rparr>)
       (cfg_disk_mounting_points c)"

definition build ::
  "bool \<Rightarrow> (i32 \<Rightarrow> u64 outcome) \<Rightarrow> 'r reservation_manager_configurator \<Rightarrow> system_topology_info \<Rightarrow>
   'r factory memory_space_config list outcome"
where
  "build asserts total_memory c topology =
     (case extract_gpu_ids total_memory c topology of
        Inl e \<Rightarrow> Inl e
      | Inr gpus_info \<Rightarrow>
          let host_infos = extract_host_ids c gpus_info
          in case build_gpu_configs asserts c gpus_info of
               Inl e \<Rightarrow> Inl e
             | Inr gpu_configs \<Rightarrow>
                 (case build_host_configs asserts c (per_host_capacity c (length host_infos)) host_infos of
                    Inl e \<Rightarrow> Inl e
                  | Inr host_configs \<Rightarrow> Inr (gpu_configs @ host_configs @ build_disk_configs c)))"

definition build_discovered ::
  "bool \<Rightarrow> sysfs \<Rightarrow> nvml \<Rightarrow> (i32 \<Rightarrow> u64 outcome) \<Rightarrow> 'r reservation_manager_configurator \<Rightarrow>
   'r factory memory_space_config list outcome"
where
  "build_discovered asserts fs nv total_memory c =
     (case discover fs nv None of
        (Inl e, _, _) \<Rightarrow> Inl e
      | (Inr status, stored, _) \<Rightarrow>
          if asserts \<and> \<not> status then Inl assertion_failure
          else (case get_topology stored of
                  Inl e \<Rightarrow> Inl e
                | Inr topology \<Rightarrow> build asserts total_memory c topology))"

end
