(* ===== verification/Topology_Facts.thy ===== *)
theory Topology_Facts
  imports Topology
begin

text \<open>
  What topology discovery computes: CPU lists are read back as the ranges they were printed from,
  PCI ids have one normal form, a GPU is given exactly its closest network devices, and the outcome
  of a discovery, with the exceptions that escape it.
\<close>

section \<open>Splitting\<close>

lemma find_char_append:
  "find_char c (xs @ c # ys) = Some (length xs)" if "c \<notin> set xs"
  using that by (induction xs) auto

lemma find_char_none: "find_char c xs = None \<longleftrightarrow> c \<notin> set xs"
  by (induction xs) auto

lemma find_char_some:
  assumes "find_char c xs = Some n"
  shows "n < length xs" and "xs ! n = c" and "c \<notin> set (take n xs)"
proof -
  have "n < length xs \<and> xs ! n = c \<and> c \<notin> set (take n xs)"
    using assms by (induction xs arbitrary: n) (auto split: if_splits)
  then show "n < length xs" and "xs ! n = c" and "c \<notin> set (take n xs)" by auto
qed

lemma find_char_map:
  assumes "\<And>x. f x = c \<longleftrightarrow> x = c"
  shows "find_char c (map f xs) = find_char c xs"
  using assms by (induction xs) auto

fun join :: "char \<Rightarrow> string list \<Rightarrow> string" where
  "join d [] = []"
| "join d [t] = t"
| "join d (t # u # ts) = t @ d # join d (u # ts)"

lemma join_empty: "join d ts = [] \<Longrightarrow> [] \<notin> set ts \<Longrightarrow> ts = []"
  by (cases "(d, ts)" rule: join.cases) auto

lemma getlines_join:
  assumes "\<And>t. t \<in> set ts \<Longrightarrow> t \<noteq> [] \<and> d \<notin> set t"
  shows "getlines d (join d ts) = ts"
  using assms
proof (induction d ts rule: join.induct)
  case (1 d)
  then show ?case by (simp add: getlines.simps)
next
  case (2 d t)
  then have "takeWhile (\<lambda>x. x \<noteq> d) t = t" and d: "dropWhile (\<lambda>x. x \<noteq> d) t = []" and "t \<noteq> []"
    by (auto simp: takeWhile_eq_all_conv dropWhile_eq_Nil_conv)
  moreover from d have "getlines d (drop 1 (dropWhile (\<lambda>x. x \<noteq> d) t)) = []"
    by (simp only: d) (simp add: getlines.simps)
  ultimately show ?case by (simp add: getlines.simps [of d t])
next
  case (3 d t u ts)
  then have "t \<noteq> []" and "d \<notin> set t" by auto
  then have "takeWhile (\<lambda>x. x \<noteq> d) (t @ d # join d (u # ts)) = t"
    and "dropWhile (\<lambda>x. x \<noteq> d) (t @ d # join d (u # ts)) = d # join d (u # ts)"
    by (auto simp: takeWhile_append takeWhile_eq_all_conv dropWhile_append dropWhile_eq_Nil_conv)
  with 3 show ?case by (subst getlines.simps) simp
qed

section \<open>The loader\<close>

lemma loaded_or_closed:
  "(case nvml_load dl of (l, closed) \<Rightarrow>
      (nvml_available l \<longleftrightarrow> nvml_lib_handle l \<noteq> None)
      \<and> (nvml_available l \<longrightarrow> closed = [])
      \<and> (\<not> nvml_available l \<longrightarrow> l = empty_loader)
      \<and> closed @ nvml_loader_destroy l
        = list_of_option (case dl_open dl ''libnvidia-ml.so.1'' of
                            Some h \<Rightarrow> Some h | None \<Rightarrow> dl_open dl ''libnvidia-ml.so''))"
  by (simp add: nvml_load_def nvml_available_def nvml_loader_destroy_def resolve_symbols_def empty_loader_def
      missing_symbol_def Let_def split: option.split)

section \<open>CPU lists\<close>

text \<open>A CPU list as the kernel prints it: ranges separated by commas, a single CPU without a dash.\<close>

definition show_range :: "nat \<times> nat \<Rightarrow> string" where
  "show_range r = (if fst r = snd r then decimal (fst r) else decimal (fst r) @ CHR ''-'' # decimal (snd r))"

definition show_cpu_list :: "(nat \<times> nat) list \<Rightarrow> string" where
  "show_cpu_list rs = join CHR '','' (map show_range rs)"

definition range_cpus :: "nat \<times> nat \<Rightarrow> int list" where
  "range_cpus r = [int (fst r)..int (snd r)]"

lemma no_dash_in_decimal: "CHR ''-'' \<notin> set (decimal n)" "CHR '','' \<notin> set (decimal n)"
  using decimal_digits(2) [of _ n] digit_is_no_sign by blast+

lemma dash_is_no_digit: "\<not> is_digit CHR ''-''"
  using digit_is_no_sign(2) [of "CHR ''-''"] by auto

lemma stoi_of_decimal: "n < 2 ^ 31 \<Longrightarrow> stoi 10 (decimal n) = Inr (int n)"
  using stoi_decimal [of n "[]"] by simp

lemma parse_show_range:
  assumes "fst r \<le> snd r" and "snd r < 2 ^ 31 - 1"
  shows "parse_cpu_token (show_range r) = Inr (range_cpus r)"
proof (cases "fst r = snd r")
  case True
  have "find_char CHR ''-'' (decimal (fst r)) = None" by (simp add: find_char_none no_dash_in_decimal)
  with True assms show ?thesis
    by (simp add: parse_cpu_token_def show_range_def range_cpus_def stoi_of_decimal)
next
  case False
  have "find_char CHR ''-'' (decimal (fst r) @ CHR ''-'' # decimal (snd r)) = Some (length (decimal (fst r)))"
    by (rule find_char_append) (rule no_dash_in_decimal)
  with False assms show ?thesis
    by (simp add: parse_cpu_token_def show_range_def range_cpus_def stoi_of_decimal)
qed

lemma parse_shown_tokens:
  assumes "\<And>r. r \<in> set rs \<Longrightarrow> fst r \<le> snd r \<and> snd r < 2 ^ 31 - 1"
  shows "parse_cpu_tokens (map show_range rs) cores = Inr (cores @ concat (map range_cpus rs))"
  using assms
proof (induction rs arbitrary: cores)
  case (Cons r rs)
  from Cons.prems [of r] have "parse_cpu_token (show_range r) = Inr (range_cpus r)"
    by (intro parse_show_range) auto
  with Cons show ?case by simp
qed simp

lemma show_range_token: "show_range r \<noteq> [] \<and> CHR '','' \<notin> set (show_range r)"
  using decimal_digits(1) no_dash_in_decimal(2) by (auto simp: show_range_def)

lemma parse_show_cpu_list:
  assumes "\<And>r. r \<in> set rs \<Longrightarrow> fst r \<le> snd r \<and> snd r < 2 ^ 31 - 1"
  shows "parse_cpu_list (show_cpu_list rs) = Inr (concat (map range_cpus rs))"
proof (cases "rs = []")
  case True
  then show ?thesis by (simp add: parse_cpu_list_def show_cpu_list_def)
next
  case False
  have "[] \<notin> set (map show_range rs)" using show_range_token by (auto simp: in_set_conv_nth) metis
  with False have "show_cpu_list rs \<noteq> []"
    unfolding show_cpu_list_def using join_empty by blast
  moreover have "getlines CHR '','' (show_cpu_list rs) = map show_range rs"
    unfolding show_cpu_list_def using show_range_token by (intro getlines_join) auto
  ultimately show ?thesis
    using parse_shown_tokens [OF assms, of rs "[]"] by (simp add: parse_cpu_list_def)
qed

text \<open>
  Property C28. Round trip of CPU affinities: when the \<open>local_cpulist\<close> file of a PCI device holds a
  list of CPU ranges as the kernel prints it, with its final newline, the CPU cores read for the
  device are exactly the CPUs of the ranges, in order. No exception is raised, for any number of
  ranges, none included, whose ends stay below \<open>INT_MAX\<close>.
\<close>

theorem cpu_affinity_round_trip:
  assumes "fs_read fs (pci_device_file (normalize_pci_bus_id pci) ''local_cpulist'')
      = Some (show_cpu_list rs @ [CHR 0x0A])"
    and "\<forall>r \<in> set rs. fst r \<le> snd r \<and> snd r < 2 ^ 31 - 1"
  shows "parse_cpu_list (get_cpu_affinity_from_sys fs pci) = Inr (concat (map range_cpus rs))"
proof -
  have "get_cpu_affinity_from_sys fs pci = show_cpu_list rs"
    using assms(1) by (simp add: get_cpu_affinity_from_sys_def read_file_content_def)
  then show ?thesis using assms(2) parse_show_cpu_list by simp
qed

definition empty_fs :: sysfs where
  "empty_fs = \<lparr>fs_read = (\<lambda>_. None), fs_exists = (\<lambda>_. False), fs_iterate = (\<lambda>_. ([], False)),
               fs_canonical = (\<lambda>_. None), fs_hostname = None\<rparr>"

theorem cpu_affinity_round_trip_witness:
  "parse_cpu_list (get_cpu_affinity_from_sys
     (empty_fs\<lparr>fs_read := \<lambda>_. Some (show_cpu_list [(0, 2), (8, 8)] @ [CHR 0x0A])\<rparr>) ''0:1:2.0'')
   = Inr [0, 1, 2, 8]"
proof -
  have "parse_cpu_list (get_cpu_affinity_from_sys
     (empty_fs\<lparr>fs_read := \<lambda>_. Some (show_cpu_list [(0, 2), (8, 8)] @ [CHR 0x0A])\<rparr>) ''0:1:2.0'')
    = Inr (concat (map range_cpus [(0, 2), (8, 8)]))"
    by (rule cpu_affinity_round_trip) simp_all
  moreover have "concat (map range_cpus [(0, 2), (8, 8)]) = [0, 1, 2, 8]"
    by (simp add: range_cpus_def upto.simps)
  ultimately show ?thesis by simp
qed

section \<open>PCI ids\<close>

lemma to_lower_colon: "to_lower c = CHR '':'' \<longleftrightarrow> c = CHR '':''"
proof
  assume l: "to_lower c = CHR '':''"
  show "c = CHR '':''"
  proof (rule ccontr)
    assume "c \<noteq> CHR '':''"
    with l have range: "65 \<le> (of_char c :: nat) \<and> (of_char c :: nat) \<le> 90"
      and "char_of ((of_char c :: nat) + 32) = CHR '':''"
      by (auto simp: to_lower_def Let_def split: if_splits)
    then have "of_char (char_of ((of_char c :: nat) + 32) :: char) = (58 :: nat)" by simp
    with range show False by simp
  qed
qed (simp add: to_lower_def)

lemma to_lower_idem: "to_lower (to_lower c) = to_lower c"
proof (cases "65 \<le> (of_char c :: nat) \<and> (of_char c :: nat) \<le> 90")
  case True
  then have "of_char (to_lower c) = (of_char c :: nat) + 32" by (simp add: to_lower_def)
  with True show ?thesis by (simp add: to_lower_def [of "to_lower c"])
qed (auto simp: to_lower_def)

lemma normalize_split:
  assumes "CHR '':'' \<notin> set p" and "CHR '':'' \<notin> set d" and "length d = 4"
  shows "normalize_pci_bus_id (p @ d @ CHR '':'' # r) = map to_lower (d @ CHR '':'' # r)"
proof -
  have "find_char CHR '':'' ((p @ d) @ CHR '':'' # r) = Some (length (p @ d))"
    by (rule find_char_append) (use assms in simp)
  with assms(3) show ?thesis by (simp add: normalize_pci_bus_id_def Let_def)
qed

text \<open>
  PCI ids have one normal form. Normalising twice is normalising once; and the ids
  that NVML writes with a long domain in upper case and the kernel with four digits in lower case
  are normalised to the same string exactly when their last four domain digits and all that follows
  agree up to case.
\<close>

theorem pci_ids_normal_form:
  assumes "CHR '':'' \<notin> set p" and "CHR '':'' \<notin> set d" and "length d = 4"
    and "CHR '':'' \<notin> set p'" and "CHR '':'' \<notin> set d'" and "length d' = 4"
  shows "normalize_pci_bus_id (normalize_pci_bus_id s) = normalize_pci_bus_id s
    \<and> (normalize_pci_bus_id (p @ d @ CHR '':'' # r) = normalize_pci_bus_id (p' @ d' @ CHR '':'' # r')
        \<longleftrightarrow> map to_lower d = map to_lower d' \<and> map to_lower r = map to_lower r')"
proof
  show "normalize_pci_bus_id (normalize_pci_bus_id s) = normalize_pci_bus_id s"
  proof (cases "find_char CHR '':'' s")
    case (Some n)
    define dom' where "dom' = (if 4 < n then drop (n - 4) (take n s) else take n s)"
    from find_char_some [OF Some] have n: "n < length s" "CHR '':'' \<notin> set (take n s)"
      and s: "drop n s = CHR '':'' # drop (Suc n) s"
      using Cons_nth_drop_Suc [of n s] by simp_all
    have len: "length dom' \<le> 4" using n(1) by (simp add: dom'_def)
    have norm: "normalize_pci_bus_id s = map to_lower (dom' @ drop n s)"
      using Some n(1) by (simp add: normalize_pci_bus_id_def dom'_def)
    have "set dom' \<subseteq> set (take n s)" unfolding dom'_def by (cases "4 < n") (simp_all add: set_drop_subset)
    with n(2) have "CHR '':'' \<notin> set dom'" by blast
    then have "\<not> (\<exists>x \<in> set dom'. to_lower x = CHR '':'')" unfolding to_lower_colon by blast
    then have "CHR '':'' \<notin> set (map to_lower dom')" by fastforce
    then have "find_char CHR '':'' (map to_lower dom' @ CHR '':'' # map to_lower (drop (Suc n) s))
        = Some (length (map to_lower dom'))"
      by (rule find_char_append)
    moreover have "to_lower CHR '':'' = CHR '':''" by (simp add: to_lower_colon)
    ultimately show ?thesis
      using len unfolding norm s by (simp add: normalize_pci_bus_id_def to_lower_idem comp_def)
  qed (simp add: normalize_pci_bus_id_def)
  show "normalize_pci_bus_id (p @ d @ CHR '':'' # r) = normalize_pci_bus_id (p' @ d' @ CHR '':'' # r')
      \<longleftrightarrow> map to_lower d = map to_lower d' \<and> map to_lower r = map to_lower r'"
    unfolding normalize_split [OF assms(1-3)] normalize_split [OF assms(4-6)]
    using assms(3,6) by simp
qed

theorem pci_ids_normal_form_witness:
  "normalize_pci_bus_id ''00000000:0A:00.0'' = normalize_pci_bus_id ''0000:0a:00.0''"
proof -
  have "normalize_pci_bus_id (''0000'' @ ''0000'' @ CHR '':'' # ''0A:00.0'')
      = normalize_pci_bus_id ('''' @ ''0000'' @ CHR '':'' # ''0a:00.0'')
    \<longleftrightarrow> map to_lower ''0000'' = map to_lower ''0000'' \<and> map to_lower ''0A:00.0'' = map to_lower ''0a:00.0''"
    by (rule pci_ids_normal_form [THEN conjunct2]) simp_all
  moreover have "char_of (97 :: nat) = CHR ''a''" by code_simp
  ultimately show ?thesis by (simp add: to_lower_def)
qed

section \<open>Network devices of a GPU\<close>

text \<open>
  The reference: of the devices with PCI information, those whose path to the GPU is no longer than
  that of any other, in order.
\<close>

definition has_pci :: "network_device_info \<Rightarrow> bool" where
  "has_pci dev \<longleftrightarrow> net_pci_bus_id dev \<noteq> []"

definition closest_nics :: "(network_device_info \<Rightarrow> PciePathType) \<Rightarrow> network_device_info list \<Rightarrow> string list" where
  "closest_nics path devs =
     map net_name (filter (\<lambda>dev. has_pci dev
       \<and> (\<forall>other \<in> set devs. has_pci other \<longrightarrow> path_rank (path dev) \<le> path_rank (path other))) devs)"

lemma path_rank_inject: "path_rank p = path_rank q \<longleftrightarrow> p = q"
  by (cases p; cases q) auto

lemma path_rank_SYS: "path_rank p \<le> path_rank SYS"
  by (cases p) auto

abbreviation better :: "PciePathType \<Rightarrow> 'a \<times> PciePathType \<Rightarrow> PciePathType" where
  "better best nic \<equiv> (if path_rank (snd nic) < path_rank best then snd nic else best)"

lemma best_fold_le: "path_rank (foldl better start nics) \<le> path_rank start"
proof (induction nics arbitrary: start)
  case (Cons nic nics)
  have "path_rank (foldl better (better start nic) nics) \<le> path_rank (better start nic)" by (rule Cons)
  also have "\<dots> \<le> path_rank start" by simp
  finally show ?case by simp
qed simp

lemma best_fold_least: "nic \<in> set nics \<Longrightarrow> path_rank (foldl better start nics) \<le> path_rank (snd nic)"
proof (induction nics arbitrary: start)
  case (Cons n nics)
  show ?case
  proof (cases "nic = n")
    case True
    have "path_rank (foldl better (better start n) nics) \<le> path_rank (better start n)" by (rule best_fold_le)
    also have "\<dots> \<le> path_rank (snd nic)" using True by simp
    finally show ?thesis by simp
  next
    case False
    with Cons show ?thesis by simp
  qed
qed simp

lemma best_fold_in: "foldl better start nics = start \<or> foldl better start nics \<in> snd ` set nics"
proof (induction nics arbitrary: start)
  case (Cons n nics)
  then show ?case using Cons [of "better start n"] by (cases "path_rank (snd n) < path_rank start") auto
qed simp

lemma best_path_type_least: "nic \<in> set nics \<Longrightarrow> path_rank (best_path_type nics) \<le> path_rank (snd nic)"
  unfolding best_path_type_def by (rule best_fold_least)

lemma best_path_type_attained: "nics \<noteq> [] \<Longrightarrow> best_path_type nics \<in> snd ` set nics"
proof -
  assume "nics \<noteq> []"
  then obtain nic where nic: "nic \<in> set nics" by (cases nics) auto
  show ?thesis
  proof (cases "best_path_type nics = SYS")
    case True
    with best_path_type_least [OF nic] path_rank_SYS [of "snd nic"] have "snd nic = SYS"
      by (simp add: path_rank_inject [symmetric])
    with True nic show ?thesis by force
  qed (use best_fold_in [of SYS nics] in \<open>simp add: best_path_type_def\<close>)
qed

lemma nics_with_paths_eq:
  assumes "\<And>dev. dev \<in> set devs \<Longrightarrow> has_pci dev \<Longrightarrow> get_pcie_path_type fs gpu (net_pci_bus_id dev) = Inr (path dev)"
  shows "nics_with_paths fs gpu devs = Inr (map (\<lambda>dev. (net_name dev, path dev)) (filter has_pci devs))"
  using assms by (induction devs) (auto simp: has_pci_def)

text \<open>
  Property C27. Network devices of a GPU: when the path types of the devices can be determined, the
  three stages of the selection (best path, same NUMA node, all devices) amount to one: the result
  is the list of the devices with PCI information at the least distance. The two later stages never
  contribute, and the result is empty exactly when no device has PCI information.
\<close>

theorem closest_nics_are_mapped:
  assumes "\<forall>dev \<in> set devs. has_pci dev \<longrightarrow> get_pcie_path_type fs gpu (net_pci_bus_id dev) = Inr (path dev)"
  shows "map_network_devices_to_gpu fs gpu numa devs = Inr (closest_nics path devs)
    \<and> (closest_nics path devs = [] \<longleftrightarrow> filter has_pci devs = [])"
proof -
  define nics where "nics = map (\<lambda>dev. (net_name dev, path dev)) (filter has_pci devs)"
  define best where "best = best_path_type nics"
  have nics: "nics_with_paths fs gpu devs = Inr nics"
    unfolding nics_def using assms by (intro nics_with_paths_eq) blast
  have least: "path_rank best \<le> path_rank (path dev)" if "dev \<in> set devs" "has_pci dev" for dev
    using best_path_type_least [of "(net_name dev, path dev)" nics] that by (auto simp: nics_def best_def)
  have best_iff: "path dev = best \<longleftrightarrow> (\<forall>other \<in> set devs. has_pci other \<longrightarrow> path_rank (path dev) \<le> path_rank (path other))"
    if dev: "dev \<in> set devs" "has_pci dev" for dev
  proof
    assume least_dev: "\<forall>other \<in> set devs. has_pci other \<longrightarrow> path_rank (path dev) \<le> path_rank (path other)"
    have "nics \<noteq> []" using dev by (auto simp: nics_def filter_empty_conv)
    then obtain other where "other \<in> set devs" "has_pci other" "best = path other"
      using best_path_type_attained [of nics] by (auto simp: nics_def best_def)
    with least_dev least [OF dev] have "path_rank (path dev) = path_rank best"
      by (intro antisym) auto
    then show "path dev = best" by (simp add: path_rank_inject)
  qed (use least in auto)
  have mapped: "map fst (filter (\<lambda>nic. snd nic = best) nics) = closest_nics path devs"
    unfolding nics_def closest_nics_def filter_map map_map filter_filter comp_def fst_conv snd_conv
    by (rule arg_cong [where f = "map net_name"]) (rule filter_cong, simp_all add: best_iff cong: conj_cong)
  have empty: "nics = [] \<longleftrightarrow> filter has_pci devs = []" by (simp add: nics_def)
  show ?thesis
  proof (cases "nics = []")
    case True
    then have "closest_nics path devs = []" using mapped by simp
    with True nics empty show ?thesis by (simp add: map_network_devices_to_gpu_def)
  next
    case False
    then have "best \<in> snd ` set nics" unfolding best_def by (rule best_path_type_attained)
    then have "closest_nics path devs \<noteq> []" unfolding mapped [symmetric] by (auto simp: filter_empty_conv)
    moreover from this have "filter (\<lambda>nic. snd nic = best) nics \<noteq> []" unfolding mapped [symmetric] by auto
    ultimately show ?thesis
      using False nics empty mapped by (simp add: map_network_devices_to_gpu_def best_def Let_def)
  qed
qed

definition nic_at :: "string \<Rightarrow> string \<Rightarrow> network_device_info" where
  "nic_at name pci = \<lparr>net_name = name, net_numa_node = 0, net_pci_bus_id = pci\<rparr>"

theorem closest_nics_are_mapped_witness:
  "map_network_devices_to_gpu empty_fs ''0000:0a:00.0'' 0
     [nic_at ''near'' ''0000:0b:00.0'', nic_at ''far'' ''0000:20:00.0'', nic_at ''bare'' []] = Inr [''near'']"
proof -
  let ?devs = "[nic_at ''near'' ''0000:0b:00.0'', nic_at ''far'' ''0000:20:00.0'', nic_at ''bare'' []]"
  let ?path = "\<lambda>dev. if net_name dev = ''near'' then PIX else NODE"
  have "get_pcie_path_type empty_fs ''0000:0a:00.0'' ''0000:0b:00.0'' = Inr PIX"
    and "get_pcie_path_type empty_fs ''0000:0a:00.0'' ''0000:20:00.0'' = Inr NODE" by code_simp+
  then have "map_network_devices_to_gpu empty_fs ''0000:0a:00.0'' 0 ?devs = Inr (closest_nics ?path ?devs)"
    by (intro closest_nics_are_mapped [THEN conjunct1]) (simp add: nic_at_def has_pci_def)
  moreover have "closest_nics ?path ?devs = [''near'']"
    by (simp add: closest_nics_def nic_at_def has_pci_def)
  ultimately show ?thesis by simp
qed

section \<open>Discovery\<close>

definition answers :: "nvml \<Rightarrow> nat \<Rightarrow> bool" where
  "answers nv i \<longleftrightarrow> nvml_handle nv i \<and> nvml_pci_bus_id nv i \<noteq> None"

definition nvml_ready :: "nvml \<Rightarrow> bool" where
  "nvml_ready nv \<longleftrightarrow> nvml_loaded nv \<and> nvml_init nv"

text \<open>
  What is to be known of a GPU that answered: what NVML says of it, with a placeholder where NVML
  has no answer, and what the file system says of its PCI id.
\<close>

definition or_unknown :: "string option \<Rightarrow> string" where
  "or_unknown s = (if s = None then ''Unknown'' else the s)"

definition sound_gpu :: "sysfs \<Rightarrow> nvml \<Rightarrow> network_device_info list \<Rightarrow> gpu_topology_info \<Rightarrow> bool" where
  "sound_gpu fs nv devs g \<longleftrightarrow>
     nvml_pci_bus_id nv (gpu_id g) = Some (gpu_pci_bus_id g)
     \<and> gpu_name g = or_unknown (nvml_name nv (gpu_id g))
     \<and> gpu_uuid g = or_unknown (nvml_uuid nv (gpu_id g))
     \<and> gpu_numa_node g = get_numa_node_from_sys fs (gpu_pci_bus_id g)
     \<and> gpu_memory_binding g = (if gpu_numa_node g < 0 then [] else [gpu_numa_node g])
     \<and> gpu_cpu_affinity_list g = get_cpu_affinity_from_sys fs (gpu_pci_bus_id g)
     \<and> parse_cpu_list (gpu_cpu_affinity_list g) = Inr (gpu_cpu_cores g)
     \<and> map_network_devices_to_gpu fs (gpu_pci_bus_id g) (gpu_numa_node g) devs = Inr (gpu_network_devices g)"

lemma describe_gpu_none: "describe_gpu fs nv devs i = Inr None \<longleftrightarrow> \<not> answers nv i"
  by (auto simp: describe_gpu_def answers_def Let_def split: option.splits sum.splits)

lemma describe_gpu_some:
  assumes "describe_gpu fs nv devs i = Inr (Some g)"
  shows "gpu_id g = i" and "answers nv i" and "sound_gpu fs nv devs g"
  using assms
  by (auto simp: describe_gpu_def answers_def sound_gpu_def or_unknown_def Let_def
      split: if_split_asm option.split_asm sum.split_asm)

lemma describe_gpus_ids:
  "describe_gpus fs nv devs is = Inr gs \<Longrightarrow>
     map gpu_id gs = filter (answers nv) is \<and> (\<forall>g \<in> set gs. sound_gpu fs nv devs g)"
proof (induction "is" arbitrary: gs)
  case (Cons i "is")
  then obtain g gs' where g: "describe_gpu fs nv devs i = Inr g"
    and gs: "describe_gpus fs nv devs is = Inr gs'" "gs = list_of_option g @ gs'"
    by (auto split: sum.splits)
  show ?case
  proof (cases g)
    case None
    with g gs Cons.IH [OF gs(1)] show ?thesis by (simp add: describe_gpu_none)
  next
    case (Some a)
    with g have "describe_gpu fs nv devs i = Inr (Some a)" by simp
    from describe_gpu_some [OF this] Some gs Cons.IH [OF gs(1)] show ?thesis by simp
  qed
qed simp

lemma describe_gpus_raises:
  "(\<exists>e. describe_gpus fs nv devs is = Inl e) \<longleftrightarrow> (\<exists>i \<in> set is. \<exists>e. describe_gpu fs nv devs i = Inl e)"
proof (induction "is")
  case (Cons i "is")
  then show ?case
    by (cases "describe_gpu fs nv devs i"; cases "describe_gpus fs nv devs is") auto
qed simp

text \<open>
  Property C29. What a discovery stores: after \<open>discover\<close> returns, \<open>get_topology\<close> gives a topology
  whose GPUs are, in ascending order and once each, exactly the device indices below the count NVML
  reported for which NVML answered; a GPU that did not answer is left out, but still counted in
  \<open>num_gpus\<close>. Each GPU carries what was read for it: the PCI id, the name and the UUID from NVML
  (\<open>Unknown\<close> where NVML has none); the NUMA node of its PCI id with the memory binding that follows
  from it; the CPU affinity list of its PCI id and the cores that list parses to; and the network
  devices that the selection of network devices returns for it from those of the topology.
\<close>

theorem discovered_gpus:
  assumes "discover fs nv stored = (Inr ok, stored', left)"
  shows "\<exists>t. ok \<and> get_topology stored' = Inr t
    \<and> num_gpus t = (if nvml_ready nv then case nvml_device_count nv of None \<Rightarrow> 0 | Some n \<Rightarrow> n else 0)
    \<and> map gpu_id (topo_gpus t) = filter (answers nv) [0..<num_gpus t]
    \<and> topo_network_devices t = discover_network_devices_with_topology fs
    \<and> (\<forall>g \<in> set (topo_gpus t). sound_gpu fs nv (topo_network_devices t) g)"
  using assms describe_gpus_ids
  by (auto simp: discover_def get_topology_def nvml_ready_def Let_def split: sum.splits)

theorem discovered_gpus_witness:
  "let nv = \<lparr>nvml_loaded = True, nvml_init = True, nvml_device_count = Some 2, nvml_handle = (\<lambda>i. i = 1),
             nvml_name = (\<lambda>_. None), nvml_pci_bus_id = (\<lambda>_. Some ''0000:0a:00.0''), nvml_uuid = (\<lambda>_. Some ''GPU-7'')\<rparr>
   in \<exists>t. get_topology (fst (snd (discover empty_fs nv None))) = Inr t \<and> map gpu_id (topo_gpus t) = [1]
        \<and> (\<forall>g \<in> set (topo_gpus t). gpu_name g = ''Unknown'' \<and> gpu_uuid g = ''GPU-7'')"
proof -
  define nv where "nv = \<lparr>nvml_loaded = True, nvml_init = True, nvml_device_count = Some 2, nvml_handle = (\<lambda>i. i = 1),
             nvml_name = (\<lambda>_. None), nvml_pci_bus_id = (\<lambda>_. Some ''0000:0a:00.0''), nvml_uuid = (\<lambda>_. Some ''GPU-7'')\<rparr>"
  have "\<exists>s l. discover empty_fs nv None = (Inr True, s, l)"
    by (simp add: nv_def discover_def empty_fs_def upt_rec describe_gpu_def get_cpu_affinity_from_sys_def
        read_file_content_def parse_cpu_list_def discover_network_devices_with_topology_def scan_class_def
        map_network_devices_to_gpu_def Let_def) blast
  then obtain s l where d: "discover empty_fs nv None = (Inr True, s, l)" by blast
  from discovered_gpus [OF d] obtain t where "get_topology s = Inr t" "num_gpus t = 2"
      "map gpu_id (topo_gpus t) = filter (answers nv) [0..<num_gpus t]"
      and g: "\<forall>g \<in> set (topo_gpus t). sound_gpu empty_fs nv (topo_network_devices t) g"
    by (auto simp: nv_def nvml_ready_def)
  moreover have "\<forall>g \<in> set (topo_gpus t). gpu_name g = ''Unknown'' \<and> gpu_uuid g = ''GPU-7''"
    using g by (auto simp: sound_gpu_def nv_def or_unknown_def)
  ultimately show ?thesis using d unfolding nv_def [symmetric] by (simp add: Let_def answers_def nv_def upt_rec)
qed

text \<open>
  When a discovery fails: \<open>discover\<close> raises exactly when NVML is usable and describing
  some counted GPU raises; then the topology stored before is kept, and NVML stays initialised, for
  no shutdown is reached. A discovery that returns also leaves NVML initialised when the device
  count could not be read.
\<close>

theorem discovery_exceptions:
  "(case discover fs nv stored of (result, stored', left) \<Rightarrow>
      ((\<exists>e. result = Inl e) \<longleftrightarrow>
         nvml_ready nv \<and> (\<exists>n. nvml_device_count nv = Some n \<and>
           (\<exists>i < n. \<exists>e. describe_gpu fs nv (discover_network_devices_with_topology fs) i = Inl e)))
      \<and> (case result of Inl _ \<Rightarrow> stored' = stored \<and> left
         | Inr _ \<Rightarrow> stored' \<noteq> None \<and> left = (nvml_ready nv \<and> nvml_device_count nv = None)))"
proof -
  define count where "count = (if nvml_ready nv then case nvml_device_count nv of None \<Rightarrow> 0 | Some n \<Rightarrow> n else 0)"
  let ?devs = "discover_network_devices_with_topology fs"
  let ?gpus = "describe_gpus fs nv ?devs [0..<count]"
  have raises: "(\<exists>e. ?gpus = Inl e) \<longleftrightarrow>
      nvml_ready nv \<and> (\<exists>n. nvml_device_count nv = Some n \<and> (\<exists>i < n. \<exists>e. describe_gpu fs nv ?devs i = Inl e))"
    unfolding describe_gpus_raises by (auto simp: count_def split: option.splits)
  show ?thesis
  proof (cases ?gpus)
    case (Inl e)
    with raises show ?thesis by (auto simp: discover_def count_def nvml_ready_def Let_def)
  next
    case (Inr gpus)
    with raises show ?thesis by (auto simp: discover_def count_def nvml_ready_def Let_def)
  qed
qed

end
