(* ===== verification/Configuration.thy ===== *)
theory Configuration
  imports Configurator Topology_Facts Manager_Requests Double_Error
begin

text \<open>
  What the configurator builds: one space per requested GPU, the hosts that belong to them and the
  disks, all under different identifiers, so that a manager built from them finds each of them;
  which topologies it accepts; how it splits the host capacity; and the bounds that every built
  configuration keeps when assertions are checked.
\<close>

section \<open>Devices\<close>

definition requested_gpus :: "'r reservation_manager_configurator \<Rightarrow> system_topology_info \<Rightarrow> nat" where
  "requested_gpus c t = (if cfg_num_gpus c = 0 then length (topo_gpus t) else unat (cfg_num_gpus c))"

lemma available_gpus_ok:
  "(\<exists>av. available_gpus total_memory gpus start = Inr av)
     \<longleftrightarrow> (\<forall>g \<in> set gpus. \<exists>b. total_memory (of_nat (gpu_id g)) = Inr b)"
proof (induction gpus arbitrary: start)
  case (Cons g gpus)
  show ?case
  proof (cases "total_memory (of_nat (gpu_id g))")
    case (Inr b)
    then show ?thesis
      using Cons [of "alist_set (of_nat (gpu_id g)) (b, word_of_int (gpu_numa_node g)) start"] by simp
  qed simp
qed simp

lemma available_gpus_entries:
  assumes "available_gpus total_memory gpus start = Inr av"
  shows "dom (map_of av) = dom (map_of start) \<union> (of_nat \<circ> gpu_id) ` set gpus"
    and "\<lbrakk>\<And>d b numa. map_of start d = Some (b, numa) \<Longrightarrow> total_memory d = Inr b;
          map_of av d = Some (b, numa)\<rbrakk> \<Longrightarrow> total_memory d = Inr b"
  using assms
proof (induction gpus arbitrary: start)
  case Nil
  { case 1 then show ?case by simp }
  { case 2 then show ?case by auto }
next
  case (Cons g gpus)
  { case 1
    then show ?case
      using Cons.IH(1) by (auto simp: Let_def split: sum.split_asm) }
  { case 2
    then obtain b' where g: "total_memory (of_nat (gpu_id g)) = Inr b'"
      and rest: "available_gpus total_memory gpus
        (alist_set (of_nat (gpu_id g)) (b', word_of_int (gpu_numa_node g)) start) = Inr av"
      by (auto simp: Let_def split: sum.split_asm)
    show ?case
      by (rule Cons.IH(2) [OF _ 2(2) rest]) (use 2(1) g in \<open>auto split: if_split_asm\<close>) }
qed

lemma select_gpus_ok:
  "(\<exists>infos. select_gpus av is = Inr infos) \<longleftrightarrow> (\<forall>i \<in> set is. of_nat i \<in> dom (map_of av))"
proof (induction "is")
  case (Cons i "is")
  then show ?case
    by (cases "map_of av (of_nat i)"; cases "select_gpus av is") (auto split: prod.splits)
qed simp

lemma select_gpus_infos:
  assumes "select_gpus av is = Inr infos"
  shows "map gi_space_id infos = map of_nat is" and "map gi_hw_id infos = map of_nat is"
    and "info \<in> set infos \<Longrightarrow> map_of av (gi_space_id info) = Some (gi_gpu_capacity info, gi_numa_id info)"
  using assms
proof (induction "is" arbitrary: infos)
  case (Cons i "is")
  { case 1 then show ?case using Cons.IH(1) by (auto split: option.split_asm sum.split_asm prod.split_asm) }
  { case 2 then show ?case using Cons.IH(2) by (auto split: option.split_asm sum.split_asm prod.split_asm) }
  { case 3 then show ?case using Cons.IH(3) by (auto split: option.split_asm sum.split_asm prod.split_asm) }
qed simp_all

lemma extract_gpu_infos:
  assumes "extract_gpu_ids total_memory c t = Inr infos"
  shows "map gi_space_id infos = map of_nat [0..<requested_gpus c t]" and "map gi_hw_id infos = map gi_space_id infos"
    and "requested_gpus c t \<le> length (topo_gpus t)"
    and "info \<in> set infos \<Longrightarrow> total_memory (gi_space_id info) = Inr (gi_gpu_capacity info)"
proof -
  obtain av where av: "available_gpus total_memory (topo_gpus t) [] = Inr av"
    and sel: "select_gpus av [0..<requested_gpus c t] = Inr infos"
    and len: "unat (cfg_num_gpus c) \<le> length (topo_gpus t)"
    using assms by (auto simp: extract_gpu_ids_def requested_gpus_def Let_def split: if_split_asm sum.split_asm)
  from select_gpus_infos(1,2) [OF sel] show "map gi_space_id infos = map of_nat [0..<requested_gpus c t]"
    "map gi_hw_id infos = map gi_space_id infos" by simp_all
  show "requested_gpus c t \<le> length (topo_gpus t)" using len by (simp add: requested_gpus_def)
  show "info \<in> set infos \<Longrightarrow> total_memory (gi_space_id info) = Inr (gi_gpu_capacity info)"
    using available_gpus_entries(2) [OF av] select_gpus_infos(3) [OF sel] by simp
qed

lemma of_nat_i32_inject: "m < 2 ^ 32 \<Longrightarrow> n < 2 ^ 32 \<Longrightarrow> (of_nat m :: i32) = of_nat n \<longleftrightarrow> m = n"
  by (auto simp: word_unat_eq_iff unat_of_nat)

text \<open>
  Property C34. Which requests a discovered topology can serve: the GPUs are taken to be numbered
  from 0, so a request is served exactly when that many GPUs were found and the first devices all
  answered. One device that does not answer makes every request that reaches past it fail, also
  when enough other GPUs are there; a request for all GPUs then always fails.
\<close>

theorem gpus_configurable:
  assumes "discover fs nv None = (Inr ok, stored, left)" and "get_topology stored = Inr t"
    and "\<forall>d. \<exists>b. total_memory d = Inr b" and "num_gpus t < 2 ^ 32"
  shows "(\<exists>infos. extract_gpu_ids total_memory c t = Inr infos) \<longleftrightarrow>
    requested_gpus c t \<le> length (topo_gpus t) \<and> (\<forall>i < requested_gpus c t. answers nv i)"
proof -
  have ids: "map gpu_id (topo_gpus t) = filter (answers nv) [0..<num_gpus t]"
    using assms(1,2) describe_gpus_ids
    by (auto simp: discover_def get_topology_def Let_def split: sum.split_asm)
  then have "length (map gpu_id (topo_gpus t)) \<le> length [0..<num_gpus t]" by (simp del: length_upt)
  then have len: "length (topo_gpus t) \<le> num_gpus t" by simp
  obtain av where av: "available_gpus total_memory (topo_gpus t) [] = Inr av"
    using available_gpus_ok [of total_memory "topo_gpus t" "[]"] assms(3) by auto
  have "dom (map_of av) = of_nat ` set (map gpu_id (topo_gpus t))"
    using available_gpus_entries(1) [OF av] by (simp add: image_comp)
  then have dom: "dom (map_of av) = of_nat ` {i. i < num_gpus t \<and> answers nv i}" unfolding ids by (auto simp: Collect_conj_eq)
  have member: "(of_nat i :: i32) \<in> dom (map_of av) \<longleftrightarrow> answers nv i" if "i < num_gpus t" for i
    unfolding dom using that assms(4) of_nat_i32_inject by (auto simp: image_iff)
  show ?thesis
  proof (cases "requested_gpus c t \<le> length (topo_gpus t)")
    case True
    then have fits: "\<not> length (topo_gpus t) < unat (cfg_num_gpus c)"
      by (auto simp: requested_gpus_def split: if_split_asm)
    have "(\<exists>infos. extract_gpu_ids total_memory c t = Inr infos)
        \<longleftrightarrow> (\<exists>infos. select_gpus av [0..<requested_gpus c t] = Inr infos)"
      using fits av by (simp add: extract_gpu_ids_def requested_gpus_def Let_def)
    also have "\<dots> \<longleftrightarrow> (\<forall>i < requested_gpus c t. answers nv i)"
      unfolding select_gpus_ok using member True len by auto
    finally show ?thesis using True by simp
  next
    case False
    then show ?thesis using extract_gpu_infos(3) by blast
  qed
qed

section \<open>Identifiers\<close>

fun config_id :: "'f memory_space_config \<Rightarrow> memory_space_id option" where
  "config_id Monostate = None"
| "config_id (Gpu_config g) = Some (memory_space_id GPU (gpu_device_id g))"
| "config_id (Host_config h) = Some (memory_space_id HOST (numa_id h))"
| "config_id (Disk_config d) = Some (memory_space_id DISK (disk_id d))"

lemma build_gpu_config_ids:
  "build_gpu_configs asserts c infos = Inr configs \<Longrightarrow>
     map config_id configs = map (\<lambda>info. Some (memory_space_id GPU (gi_space_id info))) infos"
  by (induction infos arbitrary: configs) (auto split: sum.split_asm)

lemma build_host_config_ids:
  "build_host_configs asserts c capacity infos = Inr configs \<Longrightarrow>
     map config_id configs = map (\<lambda>info. Some (memory_space_id HOST (hi_space_id info))) infos"
  by (induction infos arbitrary: configs) (auto split: sum.split_asm)

lemma build_disk_config_ids:
  "map config_id (build_disk_configs c)
     = map (\<lambda>disk. Some (memory_space_id DISK (fst disk))) (cfg_disk_mounting_points c)"
  by (auto simp: build_disk_configs_def)

lemma hosts_per_numa:
  "distinct (map hi_space_id (hosts_of_gpus bind_cpu_to_gpu_numa gpus seen))
   \<and> hi_space_id ` set (hosts_of_gpus bind_cpu_to_gpu_numa gpus seen) = gi_numa_id ` set gpus - set seen"
  by (induction gpus arbitrary: seen) auto

lemma hosts_per_gpu:
  "map hi_space_id (hosts_of_gpus bind_host_to_gpu_id gpus seen) = map gi_space_id gpus"
  by (induction gpus) auto

lemma hosts_distinct:
  "distinct (map gi_space_id gpus) \<Longrightarrow> distinct (map hi_space_id (extract_host_ids c gpus))"
  using hosts_per_numa [of gpus "[]"] hosts_per_gpu [of gpus "[]"]
  by (cases "cfg_host_creation_policy c") (simp_all add: extract_host_ids_def)

lemma hosts_at_most_gpus: "length (extract_host_ids c gpus) \<le> length gpus"
proof -
  have "length (hosts_of_gpus policy gpus seen) \<le> length gpus" for policy seen
    by (induction policy gpus seen rule: hosts_of_gpus.induct) auto
  then show ?thesis by (simp add: extract_host_ids_def)
qed

lemma distinct_gpu_ids: "n \<le> 2 ^ 32 \<Longrightarrow> distinct (map (of_nat :: nat \<Rightarrow> i32) [0..<n])"
  by (auto simp: distinct_map inj_on_def of_nat_i32_inject)

lemma build_parts:
  assumes "build asserts total_memory c t = Inr configs"
  obtains infos gcs hcs where
    "extract_gpu_ids total_memory c t = Inr infos" "build_gpu_configs asserts c infos = Inr gcs"
    "build_host_configs asserts c (per_host_capacity c (length (extract_host_ids c infos)))
       (extract_host_ids c infos) = Inr hcs"
    "configs = gcs @ hcs @ build_disk_configs c"
  using assms by (auto simp: build_def Let_def split: sum.split_asm)

lemma built_ids:
  assumes "build asserts total_memory c t = Inr configs"
    and "length (topo_gpus t) \<le> 2 ^ 32" and "distinct (map fst (cfg_disk_mounting_points c))"
  shows "distinct (map config_id configs)" and "None \<notin> set (map config_id configs)"
    and "\<exists>rest. map config_id configs
          = map (\<lambda>i. Some (memory_space_id GPU (of_nat i))) [0..<requested_gpus c t] @ rest
        \<and> (\<forall>i \<in> set rest. \<exists>s. i = Some s \<and> tier s \<noteq> GPU)"
proof -
  obtain infos gcs hcs where infos: "extract_gpu_ids total_memory c t = Inr infos"
    and gcs: "build_gpu_configs asserts c infos = Inr gcs"
    and hcs: "build_host_configs asserts c (per_host_capacity c (length (extract_host_ids c infos)))
       (extract_host_ids c infos) = Inr hcs"
    and configs: "configs = gcs @ hcs @ build_disk_configs c"
    using assms(1) by (rule build_parts)
  note ids = build_gpu_config_ids [OF gcs] build_host_config_ids [OF hcs] build_disk_config_ids [of c]
  note gpu = extract_gpu_infos [OF infos]
  have "requested_gpus c t \<le> 2 ^ 32" using gpu(3) assms(2) by simp
  then have dg: "distinct (map gi_space_id infos)" unfolding gpu(1) by (rule distinct_gpu_ids)
  have "distinct (map config_id gcs)"
    using dg unfolding ids(1) by (auto simp: distinct_map inj_on_def)
  moreover have "distinct (map config_id hcs)"
    using hosts_distinct [OF dg, of c] unfolding ids(2) by (auto simp: distinct_map inj_on_def)
  moreover have "distinct (map config_id (build_disk_configs c))"
    using assms(3) unfolding ids(3) by (auto simp: distinct_map inj_on_def)
  moreover have "set (map config_id gcs) \<inter> set (map config_id hcs) = {}"
      "set (map config_id gcs) \<inter> set (map config_id (build_disk_configs c)) = {}"
      "set (map config_id hcs) \<inter> set (map config_id (build_disk_configs c)) = {}"
    unfolding ids by auto
  ultimately show "distinct (map config_id configs)"
    unfolding configs map_append distinct_append set_append by (simp add: Int_Un_distrib)
  show "None \<notin> set (map config_id configs)" unfolding configs map_append set_append ids by auto
  have "map (\<lambda>info. Some (memory_space_id GPU (gi_space_id info))) infos
      = map (\<lambda>i. Some (memory_space_id GPU i)) (map gi_space_id infos)" by simp
  also have "\<dots> = map (\<lambda>i. Some (memory_space_id GPU (of_nat i))) [0..<requested_gpus c t]"
    unfolding gpu(1) by simp
  finally have gpus: "map config_id gcs = \<dots>" unfolding ids(1) .
  show "\<exists>rest. map config_id configs
        = map (\<lambda>i. Some (memory_space_id GPU (of_nat i))) [0..<requested_gpus c t] @ rest
      \<and> (\<forall>i \<in> set rest. \<exists>s. i = Some s \<and> tier s \<noteq> GPU)"
    unfolding configs map_append gpus ids(2,3)
    by (intro exI [where x = "map (\<lambda>info. Some (memory_space_id HOST (hi_space_id info))) (extract_host_ids c infos)
          @ map (\<lambda>disk. Some (memory_space_id DISK (fst disk))) (cfg_disk_mounting_points c)"]) auto
qed

section \<open>The manager over the built spaces\<close>

text \<open>The visitor of the constructor of \<open>memory_reservation_manager\<close>, one constructor per alternative.\<close>

fun construct_space ::
  "'h rmm \<Rightarrow> ('f option \<Rightarrow> i32 \<Rightarrow> u64 \<Rightarrow> 'g option) \<Rightarrow> ('f option \<Rightarrow> i32 \<Rightarrow> u64 \<Rightarrow> 'h option) \<Rightarrow>
   'f memory_space_config \<Rightarrow> ('g, 'h) memory_space outcome"
where
  "construct_space env gf hf Monostate = Inl (invalid_argument ''Unknown memory_space configuration type'')"
| "construct_space env gf hf (Gpu_config g) = new_gpu_memory_space gf g"
| "construct_space env gf hf (Host_config h) = new_host_memory_space env hf h"
| "construct_space env gf hf (Disk_config d) = new_disk_memory_space d"

lemma construct_space_id: "construct_space env gf hf config = Inr ms \<Longrightarrow> config_id config = Some (ms_id ms)"
  by (cases config)
     (auto simp: new_gpu_memory_space_def new_host_memory_space_def new_disk_memory_space_def Let_def
       split: option.split_asm sum.split_asm prod.split_asm if_split_asm)

lemma construct_spaces_ids:
  "construct_spaces (construct_space env gf hf) configs = Inr spaces \<Longrightarrow>
     map config_id configs = map (Some \<circ> ms_id) spaces"
proof (induction configs arbitrary: spaces)
  case (Cons config configs)
  then obtain ms spaces' where ms: "construct_space env gf hf config = Inr ms"
    and "construct_spaces (construct_space env gf hf) configs = Inr spaces'" "spaces = ms # spaces'"
    by (cases config) (auto split: sum.split_asm)
  with Cons.IH construct_space_id [OF ms] show ?case by simp
qed simp

lemma manager_lookup:
  assumes "distinct (map ms_id spaces)"
    and "m = build_lookup_tables \<lparr>memory_spaces = spaces, memory_space_views = [],
               memory_space_lookup = [], tier_to_memory_spaces = []\<rparr>"
  shows "get_memory_space t dev m = Some i \<longleftrightarrow> i < length spaces \<and> ms_id (spaces ! i) = memory_space_id t dev"
proof -
  let ?m0 = "\<lparr>memory_spaces = spaces, memory_space_views = [], memory_space_lookup = [],
              tier_to_memory_spaces = []\<rparr>"
  have m: "m = fold (\<lambda>(i, ms). add_space_to_tables i ms) (List.enumerate 0 spaces) ?m0"
    by (simp add: assms(2) build_lookup_tables_def)
  show ?thesis
    using build_tables(2) [where xs = spaces and start = ?m0, folded m] assms(1)
    by (simp add: get_memory_space_def)
qed

text \<open>
  Property C25. From settings to a working manager: when the configurator builds configurations for
  a topology, with a different id for each mounted disk and at most \<open>2 ^ 32\<close> GPUs, and the manager is
  constructed from them,
  every space of the configuration is found under its tier and device id and under no other: GPU
  \<open>i\<close> of the requested ones is the space at position \<open>i\<close>, and no further GPU is found.
\<close>

theorem configured_manager_lookup:
  assumes "build asserts total_memory c t = Inr configs"
    and "new_memory_reservation_manager (construct_space env gf hf) configs = Inr m"
    and "distinct (map fst (cfg_disk_mounting_points c))" and "length (topo_gpus t) \<le> 2 ^ 32"
  shows "(get_memory_space ti dev m = Some k \<longleftrightarrow>
            k < length configs \<and> config_id (configs ! k) = Some (memory_space_id ti dev))
    \<and> (get_memory_space GPU dev m = Some k \<longleftrightarrow> k < requested_gpus c t \<and> of_nat k = dev)"
proof -
  obtain spaces where spaces: "construct_spaces (construct_space env gf hf) configs = Inr spaces"
    and m: "m = build_lookup_tables \<lparr>memory_spaces = spaces, memory_space_views = [],
               memory_space_lookup = [], tier_to_memory_spaces = []\<rparr>"
    using assms(2) by (auto simp: new_memory_reservation_manager_def split: if_split_asm sum.split_asm)
  note ids = construct_spaces_ids [OF spaces]
  have len: "length spaces = length configs" using arg_cong [OF ids, of length] by simp
  have nth: "config_id (configs ! i) = Some (ms_id (spaces ! i))" if "i < length configs" for i
    using arg_cong [OF ids, of "\<lambda>xs. xs ! i"] that len by simp
  have "distinct (map (Some \<circ> ms_id) spaces)" using built_ids(1) [OF assms(1,4,3)] unfolding ids .
  then have "distinct (map ms_id spaces)" by (metis distinct_map map_map)
  note lookup = manager_lookup [OF this m]
  have all: "get_memory_space ti dev m = Some k \<longleftrightarrow>
      k < length configs \<and> config_id (configs ! k) = Some (memory_space_id ti dev)" for ti
    unfolding lookup len using nth by auto
  obtain rest where rest: "map config_id configs
      = map (\<lambda>i. Some (memory_space_id GPU (of_nat i))) [0..<requested_gpus c t] @ rest"
    and others: "\<And>i. i \<in> set rest \<Longrightarrow> \<exists>s. i = Some s \<and> tier s \<noteq> GPU"
    using built_ids(3) [OF assms(1,4,3)] by blast
  have rl: "length configs = requested_gpus c t + length rest" using arg_cong [OF rest, of length] by simp
  have at: "config_id (configs ! k) = Some (memory_space_id GPU dev)
      \<longleftrightarrow> k < requested_gpus c t \<and> of_nat k = dev" if "k < length configs"
  proof (cases "k < requested_gpus c t")
    case True
    with that show ?thesis
      using arg_cong [OF rest, of "\<lambda>xs. xs ! k"] by (simp add: nth_append)
  next
    case False
    with that rl have "config_id (configs ! k) \<in> set rest"
      using arg_cong [OF rest, of "\<lambda>xs. xs ! k"] by (simp add: nth_append)
    with others False show ?thesis by fastforce
  qed
  show ?thesis using all [of ti] all [of GPU] at rl by auto
qed

section \<open>Host capacity\<close>

definition host_capacities :: "'f memory_space_config list \<Rightarrow> nat list" where
  "host_capacities configs =
     concat (map (\<lambda>config. case config of Host_config h \<Rightarrow> [unat (host_config_capacity h)] | _ \<Rightarrow> []) configs)"

lemma gpu_configs_no_hosts: "build_gpu_configs asserts c infos = Inr configs \<Longrightarrow> host_capacities configs = []"
  by (induction infos arbitrary: configs) (auto simp: host_capacities_def split: sum.split_asm)

lemma disk_configs_no_hosts: "host_capacities (build_disk_configs c) = []"
  by (auto simp: host_capacities_def build_disk_configs_def)

lemma host_configs_capacities:
  "build_host_configs asserts c capacity infos = Inr configs \<Longrightarrow>
     host_capacities configs = replicate (length infos) (unat capacity)"
  by (induction infos arbitrary: configs) (auto simp: host_capacities_def split: sum.split_asm)

lemma host_capacities_append: "host_capacities (xs @ ys) = host_capacities xs @ host_capacities ys"
  by (simp add: host_capacities_def)

lemma built_host_capacities:
  assumes "build asserts total_memory c t = Inr configs"
  shows "\<exists>n \<le> length (topo_gpus t). host_capacities configs = replicate n (unat (per_host_capacity c n))"
proof -
  obtain infos gcs hcs where infos: "extract_gpu_ids total_memory c t = Inr infos"
    and gcs: "build_gpu_configs asserts c infos = Inr gcs"
    and hcs: "build_host_configs asserts c (per_host_capacity c (length (extract_host_ids c infos)))
       (extract_host_ids c infos) = Inr hcs"
    and configs: "configs = gcs @ hcs @ build_disk_configs c"
    using assms by (rule build_parts)
  have "length (map gi_space_id infos) = requested_gpus c t" using extract_gpu_infos(1) [OF infos] by simp
  then have "length (extract_host_ids c infos) \<le> length (topo_gpus t)"
    using hosts_at_most_gpus [of c infos] extract_gpu_infos(3) [OF infos] by simp
  then show ?thesis
    unfolding configs host_capacities_append gpu_configs_no_hosts [OF gcs] disk_configs_no_hosts
      host_configs_capacities [OF hcs] by auto
qed

text \<open>
  Property C35. A total host capacity is a bound: after \<open>set_total_host_capacity\<close> the capacities of
  the built host spaces sum to at most the total, and what the division drops is less than one byte
  per space. With \<open>set_per_host_capacity\<close> every host space has the full capacity.
\<close>

theorem total_host_capacity_is_split:
  assumes "build asserts total_memory c t = Inr configs" and "length (topo_gpus t) < 2 ^ 32"
  shows "if cfg_is_capacity_per_space c
    then set (host_capacities configs) \<subseteq> {unat (cfg_host_capacity c)}
    else sum_list (host_capacities configs) \<le> unat (cfg_host_capacity c)
      \<and> (host_capacities configs = []
         \<or> unat (cfg_host_capacity c) < sum_list (host_capacities configs) + length (host_capacities configs))"
proof -
  obtain n where n: "n \<le> length (topo_gpus t)" and h: "host_capacities configs = replicate n (unat (per_host_capacity c n))"
    using built_host_capacities [OF assms(1)] by blast
  have small: "n mod 2 ^ 64 = n" using n assms(2) by simp
  have cap: "unat (per_host_capacity c n) = unat (cfg_host_capacity c) div n"
    if "1 < n" "\<not> cfg_is_capacity_per_space c"
    using that small by (simp add: per_host_capacity_def unat_div unat_of_nat)
  show ?thesis
  proof (cases "cfg_is_capacity_per_space c \<or> n \<le> 1")
    case True
    then consider "cfg_is_capacity_per_space c" | "n = 0" | "n = 1" by linarith
    then show ?thesis unfolding h by cases (auto simp: per_host_capacity_def)
  next
    case False
    then have "n * (unat (cfg_host_capacity c) div n) \<le> unat (cfg_host_capacity c)"
      and "unat (cfg_host_capacity c) < n * (unat (cfg_host_capacity c) div n) + n"
      using dividend_less_times_div [of n "unat (cfg_host_capacity c)"] by (simp_all add: algebra_simps)
    with False cap show ?thesis unfolding h by (simp add: sum_list_replicate)
  qed
qed

section \<open>Settings\<close>

text \<open>The settings that a program can reach by calling the setters, with assertions checked.\<close>

inductive configured :: "'r reservation_manager_configurator \<Rightarrow> bool" where
  initial: "configured (default_configurator gpu_mr host_mr)"
| gpus: "configured c \<Longrightarrow> set_number_of_gpus True n c = Inr c' \<Longrightarrow> configured c'"
| gpu_limit: "configured c \<Longrightarrow> set_gpu_usage_limit bytes c = Inr c' \<Longrightarrow> configured c'"
| gpu_ratio: "configured c \<Longrightarrow> set_usage_limit_ratio_per_gpu True f c = Inr c' \<Longrightarrow> configured c'"
| gpu_bytes: "configured c \<Longrightarrow> set_reservation_limit_per_gpu bytes c = Inr c' \<Longrightarrow> configured c'"
| gpu_fraction: "configured c \<Longrightarrow> set_reservation_fraction_per_gpu True f c = Inr c' \<Longrightarrow> configured c'"
| gpu_downgrade: "configured c \<Longrightarrow> set_downgrade_fractions_per_gpu True f g c = Inr c' \<Longrightarrow> configured c'"
| per_stream: "configured c \<Longrightarrow> track_reservation_per_stream b c = Inr c' \<Longrightarrow> configured c'"
| gpu_factory: "configured c \<Longrightarrow> set_gpu_memory_resource_factory True mr c = Inr c' \<Longrightarrow> configured c'"
| host_per_gpu: "configured c \<Longrightarrow> use_host_per_gpu c = Inr c' \<Longrightarrow> configured c'"
| host_per_numa: "configured c \<Longrightarrow> use_host_per_numa c = Inr c' \<Longrightarrow> configured c'"
| host_total: "configured c \<Longrightarrow> set_total_host_capacity True bytes c = Inr c' \<Longrightarrow> configured c'"
| host_each: "configured c \<Longrightarrow> set_per_host_capacity True bytes c = Inr c' \<Longrightarrow> configured c'"
| host_downgrade: "configured c \<Longrightarrow> set_downgrade_fractions_per_host True f g c = Inr c' \<Longrightarrow> configured c'"
| host_fraction: "configured c \<Longrightarrow> set_reservation_fraction_per_host True f c = Inr c' \<Longrightarrow> configured c'"
| host_bytes: "configured c \<Longrightarrow> set_reservation_limit_per_host bytes c = Inr c' \<Longrightarrow> configured c'"
| host_pools: "configured c \<Longrightarrow> set_host_pool_features True x y z c = Inr c' \<Longrightarrow> configured c'"
| host_factory: "configured c \<Longrightarrow> set_host_memory_resource_factory True mr c = Inr c' \<Longrightarrow> configured c'"
| disk: "configured c \<Longrightarrow> set_disk_mounting_point True d bytes path c = Inr c' \<Longrightarrow> configured c'"

fun proper_setting :: "fraction_or_size \<Rightarrow> bool" where
  "proper_setting (Fraction f) = proper_fraction f"
| "proper_setting (Size _) = True"

definition sound_settings :: "'r reservation_manager_configurator \<Rightarrow> bool" where
  "sound_settings c \<longleftrightarrow>
     proper_setting (cfg_gpu_capacity c) \<and> proper_setting (cfg_gpu_reservation c)
     \<and> proper_setting (cfg_cpu_reservation c)
     \<and> proper_fraction (fst (downgrade_fractions_per_gpu c)) \<and> proper_fraction (snd (downgrade_fractions_per_gpu c))
     \<and> proper_fraction (fst (downgrade_fractions_per_host c)) \<and> proper_fraction (snd (downgrade_fractions_per_host c))
     \<and> cfg_gpu_mr_fn c \<noteq> None \<and> cfg_cpu_mr_fn c \<noteq> None \<and> 0 < cfg_host_capacity c
     \<and> (\<forall>d \<in> set (cfg_disk_mounting_points c). snd (snd d) \<noteq> [])"

lemma default_fractions: "proper_fraction frac_85" "proper_fraction frac_65"
  by (simp_all add: proper_fraction_def dbl_positive_def dbl_le_def frac_85_def frac_65_def)

lemma checked_Inr: "checked True b x = Inr y \<longleftrightarrow> b \<and> y = x"
  by (auto simp: checked_def)

lemmas setter_defs =
  set_number_of_gpus_def set_gpu_usage_limit_def set_usage_limit_ratio_per_gpu_def
  set_reservation_limit_per_gpu_def set_reservation_fraction_per_gpu_def
  set_downgrade_fractions_per_gpu_def track_reservation_per_stream_def
  set_gpu_memory_resource_factory_def use_host_per_gpu_def use_host_per_numa_def
  set_total_host_capacity_def set_per_host_capacity_def set_downgrade_fractions_per_host_def
  set_reservation_fraction_per_host_def set_reservation_limit_per_host_def
  set_host_pool_features_def set_host_memory_resource_factory_def set_disk_mounting_point_def

lemma configured_sound: "configured c \<Longrightarrow> sound_settings c"
proof (induction rule: configured.induct)
  case (initial gpu_mr host_mr)
  show ?case by (simp add: sound_settings_def default_configurator_def default_fractions)
qed (auto simp: setter_defs checked_Inr sound_settings_def)

definition sound_config :: "(i32 \<Rightarrow> u64 outcome) \<Rightarrow> 'f memory_space_config \<Rightarrow> bool" where
  "sound_config total_memory config =
     (case config of
        Monostate \<Rightarrow> False
      | Gpu_config g \<Rightarrow>
          gpu_mr_factory_fn g \<noteq> None
          \<and> (case total_memory (gpu_device_id g) of Inl _ \<Rightarrow> False | Inr b \<Rightarrow> gpu_memory_capacity g \<le> b)
          \<and> gpu_reservation_limit g \<le> gpu_memory_capacity g
          \<and> gpu_downgrade_trigger_threshold g \<le> gpu_memory_capacity g
          \<and> gpu_downgrade_stop_threshold g \<le> gpu_memory_capacity g
      | Host_config h \<Rightarrow>
          host_mr_factory_fn h \<noteq> None
          \<and> host_reservation_limit h \<le> host_config_capacity h
          \<and> host_downgrade_trigger_threshold h \<le> host_config_capacity h
          \<and> host_downgrade_stop_threshold h \<le> host_config_capacity h
      | Disk_config d \<Rightarrow> mount_paths d \<noteq> [])"

lemma proper_fraction_le: "proper_fraction f \<Longrightarrow> dbl_le f (Dbl 1 0)"
  by (simp add: proper_fraction_def)

lemma get_fraction_le:
  assumes "get_fraction True b s = Inr f" and "proper_setting s" and "unat b < 2 ^ 53"
  shows "dbl_le f (Dbl 1 0)"
  using assms dbl_div_le_one proper_fraction_le by (cases s) (auto split: if_split_asm)

lemma get_capacity_le:
  assumes "get_capacity True b s = Inr capacity" and "proper_setting s" and "unat b < 2 ^ 53"
  shows "capacity \<le> b"
  using assms scale_bytes_le proper_fraction_le by (cases s) (auto split: if_split_asm)

lemma space_factory_some: "mr \<noteq> None \<Longrightarrow> space_factory mr i j \<noteq> None"
  by (auto simp: space_factory_def)

lemma sound_gpu_config:
  assumes "sound_settings c" and "get_capacity True b (cfg_gpu_capacity c) = Inr capacity"
    and "get_fraction True b (cfg_gpu_reservation c) = Inr f"
    and "total_memory d = Inr b" and "unat b < 2 ^ 53"
  shows "sound_config total_memory (Gpu_config
     \<lparr>gpu_device_id = d, gpu_reservation_limit_fraction = f,
      gpu_downgrade_trigger_fraction = fst (downgrade_fractions_per_gpu c),
      gpu_downgrade_stop_fraction = snd (downgrade_fractions_per_gpu c),
      gpu_memory_capacity = capacity, per_stream_reservation = p,
      gpu_mr_factory_fn = space_factory (cfg_gpu_mr_fn c) d hw\<rparr>)"
proof -
  note s = assms(1) [unfolded sound_settings_def]
  have cap: "capacity \<le> b" using get_capacity_le [OF assms(2) _ assms(5)] s by blast
  then have small: "unat capacity < 2 ^ 53" using assms(5) unfolding word_le_nat_alt by (rule le_less_trans)
  have f: "dbl_le f (Dbl 1 0)" using get_fraction_le [OF assms(3) _ assms(5)] s by blast
  have "space_factory (cfg_gpu_mr_fn c) d hw \<noteq> None" using s space_factory_some by blast
  with cap assms(4) scale_bytes_le [OF f small] scale_bytes_le [OF proper_fraction_le small] s show ?thesis
    by (simp add: sound_config_def gpu_reservation_limit_def gpu_downgrade_trigger_threshold_def
        gpu_downgrade_stop_threshold_def)
qed

lemma sound_gpu_configs:
  assumes "sound_settings c"
  shows "build_gpu_configs True c infos = Inr configs \<Longrightarrow>
     (\<And>info. info \<in> set infos \<Longrightarrow> total_memory (gi_space_id info) = Inr (gi_gpu_capacity info)
        \<and> unat (gi_gpu_capacity info) < 2 ^ 53) \<Longrightarrow>
     config \<in> set configs \<Longrightarrow> sound_config total_memory config"
proof (induction infos arbitrary: configs)
  case (Cons info infos)
  obtain capacity f configs' where capacity: "get_capacity True (gi_gpu_capacity info) (cfg_gpu_capacity c) = Inr capacity"
    and f: "get_fraction True (gi_gpu_capacity info) (cfg_gpu_reservation c) = Inr f"
    and rest: "build_gpu_configs True c infos = Inr configs'"
    using Cons.prems(1) by (auto split: sum.split_asm)
  have "total_memory (gi_space_id info) = Inr (gi_gpu_capacity info)" "unat (gi_gpu_capacity info) < 2 ^ 53"
    using Cons.prems(2) [of info] by simp_all
  note head = sound_gpu_config [where total_memory = total_memory and d = "gi_space_id info",
      OF assms capacity f this]
  have tail: "sound_config total_memory config" if "config \<in> set configs'"
    using Cons.IH [OF rest _ that] Cons.prems(2) by simp
  from Cons.prems(1,3) capacity f rest head tail show ?case by auto
qed simp

lemma sound_host_config:
  assumes "sound_settings c" and "get_fraction True capacity (cfg_cpu_reservation c) = Inr f"
    and "unat capacity < 2 ^ 53"
  shows "sound_config total_memory (Host_config
     \<lparr>numa_id = i, host_reservation_limit_fraction = f,
      host_downgrade_trigger_fraction = fst (downgrade_fractions_per_host c),
      host_downgrade_stop_fraction = snd (downgrade_fractions_per_host c),
      host_config_capacity = capacity, config_block_size = x, config_pool_size = y,
      initial_number_pools = z, host_mr_factory_fn = space_factory (cfg_cpu_mr_fn c) i numa\<rparr>)"
proof -
  note s = assms(1) [unfolded sound_settings_def]
  have f: "dbl_le f (Dbl 1 0)" using get_fraction_le [OF assms(2) _ assms(3)] s by blast
  have "space_factory (cfg_cpu_mr_fn c) i numa \<noteq> None" using s space_factory_some by blast
  with scale_bytes_le [OF f assms(3)] scale_bytes_le [OF proper_fraction_le assms(3)] s show ?thesis
    by (simp add: sound_config_def host_reservation_limit_def host_downgrade_trigger_threshold_def
        host_downgrade_stop_threshold_def)
qed

lemma sound_host_configs:
  assumes "sound_settings c" and "unat capacity < 2 ^ 53"
  shows "build_host_configs True c capacity infos = Inr configs \<Longrightarrow> config \<in> set configs \<Longrightarrow>
     sound_config total_memory config"
proof (induction infos arbitrary: configs)
  case (Cons info infos)
  obtain f configs' where f: "get_fraction True capacity (cfg_cpu_reservation c) = Inr f"
    and rest: "build_host_configs True c capacity infos = Inr configs'"
    using Cons.prems(1) by (auto split: sum.split_asm)
  from Cons.prems f rest Cons.IH [OF rest] sound_host_config [OF assms(1) f assms(2)] show ?case by auto
qed simp

lemma per_host_capacity_le: "unat (per_host_capacity c n) \<le> unat (cfg_host_capacity c)"
  by (simp add: per_host_capacity_def unat_div)

text \<open>
  Property C17. Every configuration that is built is within bounds: with assertions checked, whatever
  sequence of setters was called, each built GPU configuration has at most the memory of its device
  as its capacity, the reservation limit and both downgrade thresholds of a GPU or host space are at
  most its capacity, every space has a factory, and every disk has a mounting point, so that no
  constructor of a disk space refuses it. The device totals and the host capacity are below
  \<open>2 ^ 53\<close> bytes, where a byte count is exact as a \<open>double\<close>.
\<close>

theorem built_configs_within_bounds:
  assumes "configured c" and "build True total_memory c t = Inr configs" and "config \<in> set configs"
    and "\<forall>d b. total_memory d = Inr b \<longrightarrow> unat b < 2 ^ 53" and "unat (cfg_host_capacity c) < 2 ^ 53"
  shows "sound_config total_memory config"
proof -
  obtain infos gcs hcs where infos: "extract_gpu_ids total_memory c t = Inr infos"
    and gcs: "build_gpu_configs True c infos = Inr gcs"
    and hcs: "build_host_configs True c (per_host_capacity c (length (extract_host_ids c infos)))
       (extract_host_ids c infos) = Inr hcs"
    and configs: "configs = gcs @ hcs @ build_disk_configs c"
    using assms(2) by (rule build_parts)
  have s: "sound_settings c" by (rule configured_sound [OF assms(1)])
  have host: "unat (per_host_capacity c (length (extract_host_ids c infos))) < 2 ^ 53"
    using per_host_capacity_le assms(5) by (rule le_less_trans)
  consider "config \<in> set gcs" | "config \<in> set hcs" | "config \<in> set (build_disk_configs c)"
    using assms(3) unfolding configs by auto
  then show ?thesis
  proof cases
    case 1
    show ?thesis
      by (rule sound_gpu_configs [OF s gcs _ 1]) (use extract_gpu_infos(4) [OF infos] assms(4) in blast)
  next
    case 2
    show ?thesis by (rule sound_host_configs [OF s host hcs 2])
  next
    case 3
    then show ?thesis using s by (auto simp: build_disk_configs_def sound_config_def sound_settings_def)
  qed
qed

section \<open>Concrete configurations\<close>

definition demo_gpu :: gpu_topology_info where
  "demo_gpu = \<lparr>gpu_id = 0, gpu_name = [], gpu_pci_bus_id = [], gpu_uuid = [], gpu_numa_node = 0,
     gpu_cpu_affinity_list = [], gpu_cpu_cores = [], gpu_memory_binding = [0], gpu_network_devices = []\<rparr>"

definition demo_topology :: system_topology_info where
  "demo_topology = \<lparr>hostname = [], num_gpus = 2, num_numa_nodes = 2, num_network_devices = 0,
     topo_gpus = [demo_gpu, demo_gpu\<lparr>gpu_id := 1, gpu_numa_node := 1\<rparr>],
     topo_network_devices = [], topo_storage_devices = []\<rparr>"

definition demo_memory :: "i32 \<Rightarrow> u64 outcome" where
  "demo_memory d = Inr 2147483648"

definition demo_settings :: "nat reservation_manager_configurator" where
  "demo_settings = (default_configurator (\<lambda>_ _. Inr 0) (\<lambda>_ _. Inr 0))
     \<lparr>cfg_num_gpus := 2, cfg_host_capacity := 1001, cfg_is_capacity_per_space := False,
      cfg_initial_block_count := Some 0, cfg_disk_mounting_points := [(0, 5, ''/tmp'')]\<rparr>"

lemma demo_infos:
  "extract_gpu_ids demo_memory demo_settings demo_topology
   = Inr [\<lparr>gi_space_id = 0, gi_hw_id = 0, gi_gpu_capacity = 2147483648, gi_numa_id = 0\<rparr>,
          \<lparr>gi_space_id = 1, gi_hw_id = 1, gi_gpu_capacity = 2147483648, gi_numa_id = 1\<rparr>]"
  by (simp add: extract_gpu_ids_def demo_settings_def demo_topology_def demo_memory_def demo_gpu_def upt_rec)

lemma demo_hosts:
  "extract_host_ids demo_settings
     [\<lparr>gi_space_id = 0, gi_hw_id = 0, gi_gpu_capacity = 2147483648, gi_numa_id = 0\<rparr>,
      \<lparr>gi_space_id = 1, gi_hw_id = 1, gi_gpu_capacity = 2147483648, gi_numa_id = 1\<rparr>]
   = [\<lparr>hi_space_id = 0, hi_numa_id = 0\<rparr>, \<lparr>hi_space_id = 1, hi_numa_id = 1\<rparr>]"
  by (simp add: extract_host_ids_def demo_settings_def default_configurator_def)

lemma demo_build: "\<exists>configs. build True demo_memory demo_settings demo_topology = Inr configs \<and> configs \<noteq> []"
proof -
  have "(1073741824 :: u64) \<le> 2147483648" by simp
  then show ?thesis
    unfolding build_def demo_infos sum.case Let_def demo_hosts
    by (simp add: demo_settings_def default_configurator_def)
qed

lemma demo_manager:
  "\<exists>configs m. build True demo_memory demo_settings demo_topology = Inr configs
     \<and> new_memory_reservation_manager
         (construct_space bump_rmm (\<lambda>_ _ _. Some (0 :: nat)) (\<lambda>_ _ _. Some 0)) configs = Inr m"
proof -
  have "(1073741824 :: u64) \<le> 2147483648" by simp
  then show ?thesis
    unfolding build_def demo_infos sum.case Let_def demo_hosts
    by (simp add: demo_settings_def default_configurator_def new_memory_reservation_manager_def
        new_gpu_memory_space_def new_host_memory_space_def new_disk_memory_space_def new_host_resource_def
        build_disk_configs_def value_or_def Let_def)
qed

theorem configured_manager_lookup_witness:
  "\<exists>configs m. build True demo_memory demo_settings demo_topology = Inr configs
     \<and> new_memory_reservation_manager
         (construct_space bump_rmm (\<lambda>_ _ _. Some (0 :: nat)) (\<lambda>_ _ _. Some 0)) configs = Inr m
     \<and> get_memory_space GPU 1 m = Some 1 \<and> get_memory_space GPU 2 m = None"
proof -
  obtain configs m where b: "build True demo_memory demo_settings demo_topology = Inr configs"
    and m: "new_memory_reservation_manager
         (construct_space bump_rmm (\<lambda>_ _ _. Some (0 :: nat)) (\<lambda>_ _ _. Some 0)) configs = Inr m"
    using demo_manager by blast
  have d: "distinct (map fst (cfg_disk_mounting_points demo_settings))" by (simp add: demo_settings_def)
  have l: "length (topo_gpus demo_topology) \<le> 2 ^ 32" by (simp add: demo_topology_def)
  have r: "requested_gpus demo_settings demo_topology = 2" by (simp add: requested_gpus_def demo_settings_def)
  note t = configured_manager_lookup [OF b m d l, THEN conjunct2, unfolded r]
  have "get_memory_space GPU 1 m = Some 1" by (simp add: t)
  moreover have "get_memory_space GPU 2 m \<noteq> Some k" for k
  proof
    assume "get_memory_space GPU 2 m = Some k"
    then have "k < 2" "(of_nat k :: i32) = 2" using t by blast+
    then have "(k = 0 \<or> k = 1) \<and> (of_nat k :: i32) = 2" by linarith
    then show False by auto
  qed
  then have "get_memory_space GPU 2 m = None" by (metis not_None_eq)
  ultimately show ?thesis using b m by blast
qed

theorem total_host_capacity_is_split_witness:
  "\<exists>configs. build True demo_memory demo_settings demo_topology = Inr configs
     \<and> sum_list (host_capacities configs) \<le> 1001"
proof -
  obtain configs where b: "build True demo_memory demo_settings demo_topology = Inr configs"
    using demo_build by blast
  have "length (topo_gpus demo_topology) < 2 ^ 32" by (simp add: demo_topology_def)
  from total_host_capacity_is_split [OF b this] have "sum_list (host_capacities configs) \<le> 1001"
    by (simp add: demo_settings_def)
  with b show ?thesis by blast
qed

theorem built_configs_within_bounds_witness:
  "\<exists>configs. build True demo_memory (default_configurator (\<lambda>_ _. Inr (0 :: nat)) (\<lambda>_ _. Inr 0)) demo_topology = Inr configs
     \<and> configs \<noteq> [] \<and> (\<forall>config \<in> set configs. sound_config demo_memory config)"
proof -
  let ?c = "default_configurator (\<lambda>_ _. Inr (0 :: nat)) (\<lambda>_ _. Inr 0)"
  have g: "extract_gpu_ids demo_memory ?c demo_topology
      = Inr [\<lparr>gi_space_id = 0, gi_hw_id = 0, gi_gpu_capacity = 2147483648, gi_numa_id = 0\<rparr>]"
    by (simp add: extract_gpu_ids_def default_configurator_def demo_topology_def demo_memory_def demo_gpu_def upt_rec)
  have h: "extract_host_ids ?c [\<lparr>gi_space_id = 0, gi_hw_id = 0, gi_gpu_capacity = 2147483648, gi_numa_id = 0\<rparr>]
      = [\<lparr>hi_space_id = 0, hi_numa_id = 0\<rparr>]"
    by (simp add: extract_host_ids_def default_configurator_def)
  have "\<exists>configs. build True demo_memory ?c demo_topology = Inr configs \<and> configs \<noteq> []"
    unfolding build_def g sum.case Let_def h by (simp add: default_configurator_def)
  then obtain configs where b: "build True demo_memory ?c demo_topology = Inr configs" "configs \<noteq> []" by blast
  have "sound_config demo_memory config" if "config \<in> set configs" for config
    by (rule built_configs_within_bounds [OF configured.initial b(1) that])
       (simp_all add: demo_memory_def default_configurator_def)
  with b show ?thesis by blast
qed

theorem gpus_configurable_witness:
  "let nv = \<lparr>nvml_loaded = True, nvml_init = True, nvml_device_count = Some 2, nvml_handle = (\<lambda>i. i = 1),
             nvml_name = (\<lambda>_. None), nvml_pci_bus_id = (\<lambda>_. Some ''0000:0a:00.0''), nvml_uuid = (\<lambda>_. None)\<rparr>
   in \<exists>t. get_topology (fst (snd (discover empty_fs nv None))) = Inr t \<and> length (topo_gpus t) = 1
      \<and> \<not> (\<exists>infos. extract_gpu_ids demo_memory (default_configurator (\<lambda>_ _. Inr (0 :: nat)) (\<lambda>_ _. Inr 0)) t = Inr infos)"
proof -
  define nv where "nv = \<lparr>nvml_loaded = True, nvml_init = True, nvml_device_count = Some 2, nvml_handle = (\<lambda>i. i = 1),
             nvml_name = (\<lambda>_. None), nvml_pci_bus_id = (\<lambda>_. Some ''0000:0a:00.0''), nvml_uuid = (\<lambda>_. None)\<rparr>"
  have "\<exists>s l t. discover empty_fs nv None = (Inr True, s, l) \<and> get_topology s = Inr t \<and> length (topo_gpus t) = 1 \<and> num_gpus t = 2"
    by (simp add: nv_def discover_def empty_fs_def upt_rec describe_gpu_def get_cpu_affinity_from_sys_def
        read_file_content_def parse_cpu_list_def discover_network_devices_with_topology_def scan_class_def
        map_network_devices_to_gpu_def Let_def get_topology_def) blast
  then obtain s l t where d: "discover empty_fs nv None = (Inr True, s, l)" and t: "get_topology s = Inr t"
    and n: "length (topo_gpus t) = 1" "num_gpus t = 2" by blast
  have tm: "\<forall>d. \<exists>b. demo_memory d = Inr b" by (simp add: demo_memory_def)
  have "num_gpus t < 2 ^ 32" using n by simp
  note e = gpus_configurable [OF d t tm this, of "default_configurator (\<lambda>_ _. Inr (0 :: nat)) (\<lambda>_ _. Inr 0)"]
  have "\<not> answers nv 0" by (simp add: answers_def nv_def)
  moreover have "0 < requested_gpus (default_configurator (\<lambda>_ _. Inr (0 :: nat)) (\<lambda>_ _. Inr 0)) t"
    by (simp add: requested_gpus_def default_configurator_def)
  ultimately have "\<not> (\<exists>infos. extract_gpu_ids demo_memory (default_configurator (\<lambda>_ _. Inr (0 :: nat)) (\<lambda>_ _. Inr 0)) t = Inr infos)"
    using e by blast
  with d t n show ?thesis unfolding nv_def [symmetric] Let_def by auto
qed

section \<open>Reservation limits in bytes\<close>

text \<open>
  A limit in bytes is turned into a fraction of the device memory, and the fraction is then taken of
  the capacity of the space.
\<close>

lemma built_gpu_config:
  "build_gpu_configs True c infos = Inr configs \<Longrightarrow> Gpu_config g \<in> set configs \<Longrightarrow>
     \<exists>info \<in> set infos. gpu_device_id g = gi_space_id info
       \<and> get_capacity True (gi_gpu_capacity info) (cfg_gpu_capacity c) = Inr (gpu_memory_capacity g)
       \<and> get_fraction True (gi_gpu_capacity info) (cfg_gpu_reservation c) = Inr (gpu_reservation_limit_fraction g)"
  by (induction infos arbitrary: configs) (fastforce split: sum.split_asm)+

text \<open>
  Property C40. A reservation limit in bytes is not the limit that is applied: after
  \<open>set_reservation_limit_per_gpu bytes\<close> and \<open>set_gpu_usage_limit\<close> the reservation limit of the built
  space is \<open>bytes\<close> times the capacity over the memory of the device, up to four bytes that the two
  rounded floating-point operations and the truncation may cost. It is therefore smaller than the
  \<open>bytes\<close> that were asked for whenever the capacity is so much smaller than the device that the share
  that is cut off has more than three bytes. Shown for devices below \<open>2 ^ 53\<close> bytes.
\<close>

theorem reservation_bytes_are_rescaled:
  assumes "build True total_memory c t = Inr configs" and "Gpu_config g \<in> set configs"
    and "cfg_gpu_reservation c = Size bytes" and "cfg_gpu_capacity c = Size capacity"
    and "total_memory (gpu_device_id g) = Inr b" and "unat b < 2 ^ 53"
  shows "gpu_memory_capacity g = capacity
    \<and> unat (gpu_reservation_limit g) * unat b \<le> unat bytes * unat capacity + 3 * unat b
    \<and> unat bytes * unat capacity < (unat (gpu_reservation_limit g) + 4) * unat b
    \<and> (unat bytes * unat capacity + 3 * unat b < unat bytes * unat b \<longrightarrow> gpu_reservation_limit g < bytes)"
proof -
  obtain infos gcs hcs where infos: "extract_gpu_ids total_memory c t = Inr infos"
    and gcs: "build_gpu_configs True c infos = Inr gcs"
    and hcs: "build_host_configs True c (per_host_capacity c (length (extract_host_ids c infos)))
       (extract_host_ids c infos) = Inr hcs"
    and configs: "configs = gcs @ hcs @ build_disk_configs c"
    using assms(1) by (rule build_parts)
  have "Some (memory_space_id GPU (gpu_device_id g)) \<notin> set (map config_id hcs)"
      "Some (memory_space_id GPU (gpu_device_id g)) \<notin> set (map config_id (build_disk_configs c))"
    unfolding build_host_config_ids [OF hcs] build_disk_config_ids by auto
  then have "Gpu_config g \<in> set gcs" using assms(2) unfolding configs by (force simp: image_iff)
  then obtain info where "info \<in> set infos" "gpu_device_id g = gi_space_id info"
    and capacity: "get_capacity True (gi_gpu_capacity info) (Size capacity) = Inr (gpu_memory_capacity g)"
    and f: "get_fraction True (gi_gpu_capacity info) (Size bytes) = Inr (gpu_reservation_limit_fraction g)"
    using built_gpu_config [OF gcs] assms(3,4) by fastforce
  then have b: "gi_gpu_capacity info = b" using extract_gpu_infos(4) [OF infos] assms(5) by fastforce
  from f have le: "bytes \<le> b" "b \<noteq> 0" and eq: "gpu_reservation_limit_fraction g = dbl_div (dbl_of_u64 bytes) (dbl_of_u64 b)"
    by (simp_all add: b split: if_split_asm)
  from capacity have g: "gpu_memory_capacity g = capacity" and "capacity \<le> b" by (simp_all add: b split: if_split_asm)
  note close = scale_bytes_quotient [OF le(1) assms(6) le(2) \<open>capacity \<le> b\<close>]
  have "gpu_reservation_limit g < bytes" if "unat bytes * unat capacity + 3 * unat b < unat bytes * unat b"
  proof -
    from that close(1)
    have "unat (scale_bytes capacity (dbl_div (dbl_of_u64 bytes) (dbl_of_u64 b))) * unat b < unat bytes * unat b"
      by linarith
    then show ?thesis by (simp add: gpu_reservation_limit_def g eq word_less_nat_alt)
  qed
  with g close show ?thesis by (simp add: gpu_reservation_limit_def eq)
qed

theorem reservation_bytes_are_rescaled_witness:
  "\<exists>configs. build True demo_memory (demo_settings\<lparr>cfg_gpu_reservation := Size 536870912\<rparr>) demo_topology = Inr configs
     \<and> (\<exists>g. Gpu_config g \<in> set configs \<and> gpu_reservation_limit g < 536870912
          \<and> 268435453 \<le> unat (gpu_reservation_limit g) \<and> unat (gpu_reservation_limit g) \<le> 268435459)"
proof -
  let ?c = "demo_settings\<lparr>cfg_gpu_reservation := Size 536870912\<rparr>"
  have e: "extract_gpu_ids demo_memory ?c demo_topology = extract_gpu_ids demo_memory demo_settings demo_topology"
    and h: "extract_host_ids ?c gpus = extract_host_ids demo_settings gpus" for gpus
    by (simp_all add: extract_gpu_ids_def extract_host_ids_def demo_settings_def)
  have "\<exists>g configs. build True demo_memory ?c demo_topology = Inr (Gpu_config g # configs)"
    unfolding build_def e demo_infos sum.case Let_def h demo_hosts
    by (simp add: demo_settings_def default_configurator_def)
  then obtain g configs where b: "build True demo_memory ?c demo_topology = Inr (Gpu_config g # configs)" by blast
  define l where "l = unat (gpu_reservation_limit g)"
  have "gpu_memory_capacity g = 1073741824 \<and> l * unat (2147483648 :: u64)
        \<le> unat (536870912 :: u64) * unat (1073741824 :: u64) + 3 * unat (2147483648 :: u64)
      \<and> unat (536870912 :: u64) * unat (1073741824 :: u64) < (l + 4) * unat (2147483648 :: u64)
      \<and> (unat (536870912 :: u64) * unat (1073741824 :: u64) + 3 * unat (2147483648 :: u64)
            < unat (536870912 :: u64) * unat (2147483648 :: u64) \<longrightarrow> gpu_reservation_limit g < 536870912)"
    unfolding l_def
    by (rule reservation_bytes_are_rescaled [OF b])
       (simp_all add: demo_settings_def default_configurator_def demo_memory_def)
  then have "l \<le> 268435459" "268435453 \<le> l" "gpu_reservation_limit g < 536870912" by simp_all
  with b show ?thesis unfolding l_def by fastforce
qed

end
