(* ===== verification/Manager_System.thy ===== *)
theory Manager_System
  imports Configuration Device_Accounting
begin

text \<open>
  The reservation system as a whole: clients request reservations from a
  \<open>memory_reservation_manager\<close> or from one of its spaces and destroy them again, in any order. Each
  client holds a ledger of what it was given; the theorem says that the books of every space agree
  with the ledgers, whatever the tier, and that no space is overcommitted. Allocations charge the
  same counters; what they do to them is in \<open>Device_Accounting\<close> and \<open>Host_Accounting\<close>.
\<close>

section \<open>The books of a space\<close>

fun space_books :: "('g, 'h) reserving_adaptor \<Rightarrow> bool" where
  "space_books (Disk_adaptor mr) = disk_inv mr"
| "space_books (Gpu_adaptor mr) = dev_books mr"
| "space_books (Host_adaptor mr) = host_books mr"

fun space_bytes_of :: "('g, 'h) reserving_adaptor \<Rightarrow> nat \<Rightarrow> nat option" where
  "space_bytes_of (Disk_adaptor mr) = disk_bytes_of mr"
| "space_bytes_of (Gpu_adaptor mr) = dev_bytes_of mr"
| "space_bytes_of (Host_adaptor mr) = host_bytes_of mr"

fun space_release :: "nat \<Rightarrow> ('g, 'h) reserving_adaptor \<Rightarrow> ('g, 'h) reserving_adaptor" where
  "space_release a (Disk_adaptor mr) = Disk_adaptor (disk_release_reservation a mr)"
| "space_release a (Gpu_adaptor mr) = Gpu_adaptor (dev_release_reservation a mr)"
| "space_release a (Host_adaptor mr) = Host_adaptor (snd (release_reservation a mr))"

interpretation space_books: releasing space_total space_limit "space_rounded env" "space_reserve env"
  "space_reserve_upto env" space_books space_bytes_of space_release for env :: "'h rmm"
proof
  fix ra ra' :: "('g, 'h) reserving_adaptor" and b :: u64 and a n :: nat
  show "unat (space_total ra) \<le> unat (space_limit ra)" if "space_books ra"
    using that disk_books.ok_within device_books.ok_within host_books.ok_within by (cases ra) auto
  show "space_books ra' \<and> space_bytes_of ra' = (space_bytes_of ra)(a \<mapsto>
      unat (space_total ra') - unat (space_total ra))"
    if ok: "space_books ra" and new: "space_bytes_of ra a = None"
      and run: "space_reserve env a b ra = (Some a, ra')"
  proof (cases ra)
    case (Gpu_adaptor mr)
    obtain mr' where "dev_reserve a b mr = (Some a, mr')" "ra' = Gpu_adaptor mr'"
      using run Gpu_adaptor by (auto simp: space_reserve_def map_prod_def split: prod.splits)
    with ok new Gpu_adaptor show ?thesis using device_books.reserve_registers [of mr a b mr'] by auto
  next
    case (Host_adaptor mr)
    obtain mr' where "host_reserve env a b mr = (Some a, mr')" "ra' = Host_adaptor mr'"
      using run Host_adaptor by (auto simp: space_reserve_def map_prod_def split: prod.splits)
    with ok new Host_adaptor show ?thesis using host_books.reserve_registers [of mr a env b mr'] by auto
  next
    case (Disk_adaptor mr)
    obtain mr' where "disk_reserve a b mr = (Some a, mr')" "ra' = Disk_adaptor mr'"
      using run Disk_adaptor by (auto simp: space_reserve_def map_prod_def split: prod.splits)
    with ok new Disk_adaptor show ?thesis using disk_books.reserve_registers [of mr a b mr'] by auto
  qed
  show "space_books ra' \<and> space_bytes_of ra' = (space_bytes_of ra)(a \<mapsto>
      unat (space_total ra') - unat (space_total ra))"
    if ok: "space_books ra" and new: "space_bytes_of ra a = None"
      and run: "space_reserve_upto env a b ra = (Some a, ra')"
  proof (cases ra)
    case (Gpu_adaptor mr)
    obtain mr' where "dev_reserve_upto a b mr = (Some a, mr')" "ra' = Gpu_adaptor mr'"
      using run Gpu_adaptor by (auto simp: space_reserve_upto_def map_prod_def split: prod.splits)
    with ok new Gpu_adaptor show ?thesis using device_books.reserve_upto_registers [of mr a b mr'] by auto
  next
    case (Host_adaptor mr)
    obtain mr' where "host_reserve_upto env a b mr = (Some a, mr')" "ra' = Host_adaptor mr'"
      using run Host_adaptor by (auto simp: space_reserve_upto_def map_prod_def split: prod.splits)
    with ok new Host_adaptor show ?thesis using host_books.reserve_upto_registers [of mr a env b mr'] by auto
  next
    case (Disk_adaptor mr)
    obtain mr' where "disk_reserve_upto a b mr = (Some a, mr')" "ra' = Disk_adaptor mr'"
      using run Disk_adaptor by (auto simp: space_reserve_upto_def map_prod_def split: prod.splits)
    with ok new Disk_adaptor show ?thesis using disk_books.reserve_upto_registers [of mr a b mr'] by auto
  qed
  show "space_books (space_release a ra)
      \<and> unat (space_total (space_release a ra)) + n = unat (space_total ra)
      \<and> space_limit (space_release a ra) = space_limit ra
      \<and> space_bytes_of (space_release a ra) = (space_bytes_of ra)(a := None)"
    if "space_books ra" and "space_bytes_of ra a = Some n"
    using that disk_books.release_gives_back device_books.release_gives_back host_books.release_gives_back
    by (cases ra) simp_all
qed

abbreviation in_agreement :: "('g, 'h) memory_space \<Rightarrow> ledger \<Rightarrow> bool" where
  "in_agreement ms l \<equiv> space_books.agrees (reservation_allocator ms) l"

section \<open>Spaces\<close>

text \<open>A constructed space has nothing reserved.\<close>

lemma new_gpu_space_in_agreement:
  assumes "new_gpu_memory_space factory c = Inr ms" and "gpu_reservation_limit c \<le> gpu_memory_capacity c"
    and "unat (gpu_memory_capacity c) < 2 ^ 62"
  shows "in_agreement ms []"
  using assms
  by (auto simp: new_gpu_memory_space_def space_books.agrees_def dev_books_def dev_bytes_of_def ledger_sum_def
      dev_inv_def dev_accounted_def new_device_adaptor_def Let_def fun_eq_iff split: option.splits)

lemma new_host_space_in_agreement:
  assumes "new_host_memory_space env factory c = Inr ms"
    and "host_reservation_limit c \<le> host_config_capacity c" and "unat (host_config_capacity c) < 2 ^ 62"
    and "power_of_two (align_up env (config_block_size c) 16)"
    and "unat (align_up env (config_block_size c) 16) < 2 ^ 61"
  shows "in_agreement ms []"
proof -
  obtain u r h where h: "new_host_resource env (numa_id c) u (host_reservation_limit c) (host_config_capacity c)
      (config_block_size c) (config_pool_size c) (initial_number_pools c) = (r, h)"
    and ms: "reservation_allocator ms = Host_adaptor h"
    using assms(1) by (auto simp: new_host_memory_space_def split: option.splits prod.splits sum.splits)
  note n = new_host_resource_state [OF h]
  then show ?thesis
    using assms(2-5)
    by (auto simp: ms space_books.agrees_def host_books_def host_inv_def host_bounds_def accounted_def
        host_bytes_of_def ledger_sum_def fun_eq_iff)
qed

lemma new_disk_space_in_agreement:
  assumes "new_disk_memory_space c = Inr ms" and "disk_reservation_limit c \<le> disk_config_capacity c"
    and "unat (disk_reservation_limit c) < 2 ^ 63"
  shows "in_agreement ms []"
  using assms
  by (auto simp: new_disk_memory_space_def space_books.agrees_def disk_inv_def disk_bytes_of_def ledger_sum_def
      new_disk_limiter_def Let_def fun_eq_iff split: if_splits)

section \<open>The system\<close>

record ('g, 'h) clients =
  the_manager :: "('g, 'h) memory_reservation_manager"
  holdings :: "nat \<Rightarrow> ledger"

text \<open>
  What a client writes into its ledger: for a reservation with an arena, the arena and the bytes by
  which the counter of the reservation's space has grown.
\<close>

definition credit ::
  "reservation option outcome \<Rightarrow> ('g, 'h) spaces \<Rightarrow> ('g, 'h) spaces \<Rightarrow> (nat \<Rightarrow> ledger) \<Rightarrow> nat \<Rightarrow> ledger" where
  "credit x before after hold i =
     (case x of
        Inr (Some r) \<Rightarrow>
          (case res_arena r of
             None \<Rightarrow> hold i
           | Some a \<Rightarrow>
               if i < length before \<and> ms_id (before ! i) = res_space r
               then alist_set a (unat (space_total (reservation_allocator (after ! i)))
                                 - unat (space_total (reservation_allocator (before ! i)))) (hold i)
               else hold i)
      | _ \<Rightarrow> hold i)"

definition unused_address :: "nat \<Rightarrow> ('g, 'h) spaces \<Rightarrow> bool" where
  "unused_address a sp = list_all (\<lambda>ms. space_bytes_of (reservation_allocator ms) a = None) sp"

inductive clients_step :: "'h rmm \<Rightarrow> bool \<Rightarrow> ('g, 'h) clients \<Rightarrow> ('g, 'h) clients \<Rightarrow> bool"
  for env :: "'h rmm" and asserts :: bool
where
  request: "unused_address a (memory_spaces (the_manager s)) \<Longrightarrow>
     request_reservation env asserts a request bytes waits [] (the_manager s) = Some (x, m') \<Longrightarrow>
     clients_step env asserts s
       \<lparr>the_manager = m',
        holdings = credit x (memory_spaces (the_manager s)) (memory_spaces m') (holdings s)\<rparr>"
| reserve_upto: "unused_address a (memory_spaces (the_manager s)) \<Longrightarrow>
     i < length (memory_spaces (the_manager s)) \<Longrightarrow>
     make_reservation_upto env asserts a bytes (memory_spaces (the_manager s) ! i) = (x, ms') \<Longrightarrow>
     sp' = (memory_spaces (the_manager s))[i := ms'] \<Longrightarrow>
     clients_step env asserts s
       \<lparr>the_manager = (the_manager s)\<lparr>memory_spaces := sp'\<rparr>,
        holdings = credit x (memory_spaces (the_manager s)) sp' (holdings s)\<rparr>"
| release: "i < length (memory_spaces (the_manager s)) \<Longrightarrow> map_of (holdings s i) a = Some n \<Longrightarrow>
     destroy_reservation \<lparr>res_space = ms_id (memory_spaces (the_manager s) ! i), res_arena = Some a\<rparr>
       (memory_spaces (the_manager s) ! i) = (y, ms') \<Longrightarrow>
     clients_step env asserts s
       \<lparr>the_manager = (the_manager s)\<lparr>memory_spaces := (memory_spaces (the_manager s))[i := ms']\<rparr>,
        holdings = (holdings s)(i := alist_erase a (holdings s i))\<rparr>"
| shutdown: "clients_step env asserts s (s\<lparr>the_manager := manager_shutdown (the_manager s)\<rparr>)"

definition tables_point_inside :: "('g, 'h) memory_reservation_manager \<Rightarrow> bool" where
  "tables_point_inside m \<longleftrightarrow>
     distinct (map ms_id (memory_spaces m))
     \<and> (\<forall>t. set (get_memory_spaces_for_tier t m) \<subseteq> {..<length (memory_spaces m)})
     \<and> (\<forall>t dev i. get_memory_space t dev m = Some i \<longrightarrow> i < length (memory_spaces m))"

definition clients_inv :: "('g, 'h) clients \<Rightarrow> bool" where
  "clients_inv s \<longleftrightarrow> tables_point_inside (the_manager s)
     \<and> (\<forall>i < length (memory_spaces (the_manager s)).
          in_agreement (memory_spaces (the_manager s) ! i) (holdings s i))"

lemma candidates_inside:
  assumes "tables_point_inside m"
  shows "set (get_candidates request m) \<subseteq> {..<length (memory_spaces m)}"
proof (cases request)
  case (any_memory_space_in_tier_with_preference t p)
  with assms show ?thesis
    by (auto simp: tables_point_inside_def stable_partition_def Let_def split: option.splits)
next
  case (specific_memory_space i)
  show ?thesis
  proof (cases "get_memory_space (tier i) (device_id i) m")
    case (Some j)
    with assms have "j < length (memory_spaces m)" unfolding tables_point_inside_def by blast
    with Some specific_memory_space show ?thesis by simp
  qed (simp add: specific_memory_space)
qed (use assms in \<open>auto simp: tables_point_inside_def\<close>)

text \<open>A change of one space that keeps its identifier and agrees with its new ledger.\<close>

lemma clients_inv_update:
  assumes inv: "clients_inv s" and i: "i < length (memory_spaces (the_manager s))"
    and same: "ms_id ms' = ms_id (memory_spaces (the_manager s) ! i)" and agr: "in_agreement ms' l"
  shows "clients_inv \<lparr>the_manager = (the_manager s)\<lparr>memory_spaces := (memory_spaces (the_manager s))[i := ms']\<rparr>,
                      holdings = (holdings s)(i := l)\<rparr>"
proof -
  have "map ms_id ((memory_spaces (the_manager s))[i := ms']) = map ms_id (memory_spaces (the_manager s))"
    using i same by (simp add: map_update list_update_same_conv)
  then show ?thesis
    using inv i agr
    by (auto simp: clients_inv_def tables_point_inside_def get_memory_spaces_for_tier_def get_memory_space_def
        nth_list_update simp del: map_update)
qed

text \<open>A reservation that a space makes, or fails to make, under an unused address.\<close>

lemma credit_self:
  assumes "distinct (map ms_id sp)" and "i < length sp"
  shows "credit (Inr (Some \<lparr>res_space = ms_id (sp ! i), res_arena = Some a\<rparr>)) sp (sp[i := ms']) hold
    = hold(i := alist_set a (unat (space_total (reservation_allocator ms'))
                             - unat (space_total (reservation_allocator (sp ! i)))) (hold i))"
  using assms by (auto simp: credit_def fun_eq_iff nth_eq_iff_index_eq distinct_map inj_on_eq_iff)

lemma with_notifier_outcome:
  assumes "with_notifier asserts (arena, ra) ms = (x, ms')"
  shows "ms_id ms' = ms_id ms" and "reservation_allocator ms' = ra"
    and "x = (if asserts \<and> arena = None then Inl assertion_failure
              else Inr (Some \<lparr>res_space = ms_id ms, res_arena = arena\<rparr>))"
  using assms by (auto simp: with_notifier_def reservation_create_def Let_def split: prod.splits if_splits)

lemma credit_none: "credit (Inl e) before after hold = hold"
  "credit (Inr (Some \<lparr>res_space = s, res_arena = None\<rparr>)) before after hold = hold"
  by (auto simp: credit_def fun_eq_iff)

lemma made_keeps_inv:
  assumes inv: "clients_inv s" and i: "i < length (memory_spaces (the_manager s))"
    and ms: "ms = memory_spaces (the_manager s) ! i"
    and run: "with_notifier asserts (arena, ra) ms = (x, ms')"
    and made: "arena = None \<and> ra = reservation_allocator ms
      \<or> arena = Some a \<and> space_books.agrees ra (alist_set a
           (unat (space_total ra) - unat (space_total (reservation_allocator ms))) (holdings s i))"
  shows "clients_inv
    \<lparr>the_manager = (the_manager s)\<lparr>memory_spaces := (memory_spaces (the_manager s))[i := ms']\<rparr>,
     holdings = credit x (memory_spaces (the_manager s)) ((memory_spaces (the_manager s))[i := ms']) (holdings s)\<rparr>"
proof -
  let ?sp = "memory_spaces (the_manager s)"
  have d: "distinct (map ms_id ?sp)" and agr: "in_agreement ms (holdings s i)"
    using inv i ms by (auto simp: clients_inv_def tables_point_inside_def)
  note o = with_notifier_outcome [OF run]
  from made show ?thesis
  proof
    assume none: "arena = None \<and> ra = reservation_allocator ms"
    then have "credit x ?sp (?sp[i := ms']) (holdings s) = (holdings s)(i := holdings s i)"
      using o(3) by (auto simp: credit_none)
    with clients_inv_update [OF inv i, of ms' "holdings s i"] none o agr ms show ?thesis by simp
  next
    assume some: "arena = Some a \<and> space_books.agrees ra (alist_set a
        (unat (space_total ra) - unat (space_total (reservation_allocator ms))) (holdings s i))"
    then have "x = Inr (Some \<lparr>res_space = ms_id (?sp ! i), res_arena = Some a\<rparr>)" using o(3) ms by simp
    with clients_inv_update [OF inv i, of ms'] some o credit_self [OF d i, of a ms' "holdings s"] ms
    show ?thesis by simp
  qed
qed

lemma destroy_is_release:
  assumes "space_bytes_of (reservation_allocator ms) a = Some n"
    and "destroy_reservation \<lparr>res_space = i, res_arena = Some a\<rparr> ms = (y, ms')"
  shows "y = Inr () \<and> ms_id ms' = ms_id ms
    \<and> reservation_allocator ms' = space_release a (reservation_allocator ms)"
proof (cases "reservation_allocator ms")
  case (Host_adaptor mr)
  with assms(1) have "fst (release_reservation a mr) = Inr ()"
    by (auto simp: host_bytes_of_def release_reservation_def Let_def)
  with Host_adaptor assms(2) show ?thesis
    by (cases "release_reservation a mr") (auto simp: destroy_reservation_def)
qed (use assms(2) in \<open>auto simp: destroy_reservation_def\<close>)

lemma clients_step_inv:
  assumes "clients_step env asserts s t" and "clients_inv s"
  shows "clients_inv t"
  using assms
proof (induction rule: clients_step.induct)
  case (request a s req bytes waits x m')
  let ?m = "the_manager s"
  show ?case
  proof (cases "get_candidates req ?m")
    case Nil
    then have "request_reservation env asserts a req bytes waits [] ?m = None"
      by (simp add: request_reservation_def select_memory_space_and_make_reservation_def Let_def)
    with request.hyps show ?thesis by simp
  next
    case (Cons i "is")
    with candidates_inside [of ?m req] request.prems have i: "i < length (memory_spaces ?m)"
      by (auto simp: clients_inv_def)
    let ?ms = "memory_spaces ?m ! i"
    obtain arena ra where r: "space_reserve env a bytes (reservation_allocator ?ms) = (arena, ra)" by fastforce
    obtain ms' where run: "with_notifier asserts (arena, ra) ?ms = (x, ms')"
      and m': "m' = ?m\<lparr>memory_spaces := (memory_spaces ?m)[i := ms']\<rparr>"
      using request_first_candidate [OF Cons, of env asserts a bytes waits "[]"] request.hyps(2) r
      by (auto simp: make_reservation_or_null_def split: prod.splits)
    have agr: "in_agreement ?ms (holdings s i)" using request.prems i by (simp add: clients_inv_def)
    have new: "space_bytes_of (reservation_allocator ?ms) a = None"
      using request.hyps(1) i by (simp add: unused_address_def list_all_length)
    have "arena = None \<or> arena = Some a"
      using space.reserve_result [of env a bytes "reservation_allocator ?ms"] r by simp
    then have "arena = None \<and> ra = reservation_allocator ?ms
      \<or> arena = Some a \<and> space_books.agrees ra (alist_set a
           (unat (space_total ra) - unat (space_total (reservation_allocator ?ms))) (holdings s i))"
    proof
      assume "arena = None"
      moreover from this r have "ra = reservation_allocator ?ms"
        using space.reserve_iff [of env a bytes "reservation_allocator ?ms"]
          space.reserve_refuses [of "reservation_allocator ?ms" env bytes a] by (auto simp: not_le)
      ultimately show ?thesis by blast
    next
      assume "arena = Some a"
      with r space_books.agrees_reserve [OF agr new] show ?thesis by blast
    qed
    from made_keeps_inv [OF request.prems i refl run this] show ?thesis by (simp add: m')
  qed
next
  case (reserve_upto a s i bytes x ms' sp')
  let ?ms = "memory_spaces (the_manager s) ! i"
  obtain arena ra where r: "space_reserve_upto env a bytes (reservation_allocator ?ms) = (arena, ra)" by fastforce
  then have arena: "arena = Some a"
    using space.reserve_upto_takes [of env a bytes "reservation_allocator ?ms"] by auto
  have run: "with_notifier asserts (arena, ra) ?ms = (x, ms')"
    using reserve_upto.hyps(3) r by (simp add: make_reservation_upto_def)
  have agr: "in_agreement ?ms (holdings s i)"
    using reserve_upto.prems reserve_upto.hyps(2) by (simp add: clients_inv_def)
  have new: "space_bytes_of (reservation_allocator ?ms) a = None"
    using reserve_upto.hyps(1,2) by (simp add: unused_address_def list_all_length)
  from space_books.agrees_reserve_upto [OF agr new r [unfolded arena]]
    made_keeps_inv [OF reserve_upto.prems reserve_upto.hyps(2) refl run] arena
  show ?case by (simp add: reserve_upto.hyps(4))
next
  case (release i s a n y ms')
  let ?ms = "memory_spaces (the_manager s) ! i"
  have agr: "in_agreement ?ms (holdings s i)"
    using release.prems release.hyps(1) by (simp add: clients_inv_def)
  then have "space_bytes_of (reservation_allocator ?ms) a = Some n"
    using release.hyps(2) by (simp add: space_books.agrees_def)
  from destroy_is_release [OF this release.hyps(3)] space_books.agrees_release [OF agr release.hyps(2)]
  show ?case by (intro clients_inv_update [OF release.prems release.hyps(1)]) simp_all
next
  case (shutdown s)
  have "map ms_id (map ms_shutdown sp) = map ms_id sp" for sp :: "('a, 'h) spaces"
    by (simp add: ms_shutdown_def comp_def)
  with shutdown show ?case
    by (simp add: clients_inv_def tables_point_inside_def manager_shutdown_def ms_shutdown_def
        get_memory_spaces_for_tier_def get_memory_space_def comp_def)
qed

section \<open>No space is overcommitted\<close>

text \<open>The configurations whose numbers the resources can work with.\<close>

fun sane_config :: "'h rmm \<Rightarrow> 'f memory_space_config \<Rightarrow> bool" where
  "sane_config env Monostate = False"
| "sane_config env (Gpu_config c) =
     (gpu_reservation_limit c \<le> gpu_memory_capacity c \<and> unat (gpu_memory_capacity c) < 2 ^ 62)"
| "sane_config env (Host_config c) =
     (host_reservation_limit c \<le> host_config_capacity c \<and> unat (host_config_capacity c) < 2 ^ 62
      \<and> power_of_two (align_up env (config_block_size c) 16)
      \<and> unat (align_up env (config_block_size c) 16) < 2 ^ 61)"
| "sane_config env (Disk_config c) =
     (disk_reservation_limit c \<le> disk_config_capacity c \<and> unat (disk_reservation_limit c) < 2 ^ 63)"

lemma sane_space:
  "construct_space env gf hf c = Inr ms \<Longrightarrow> sane_config env c \<Longrightarrow> in_agreement ms []"
  by (cases c)
     (auto intro: new_gpu_space_in_agreement new_host_space_in_agreement new_disk_space_in_agreement)

lemma sane_spaces:
  "construct_spaces (construct_space env gf hf) configs = Inr spaces \<Longrightarrow>
   \<forall>c \<in> set configs. sane_config env c \<Longrightarrow> \<forall>ms \<in> set spaces. in_agreement ms []"
proof (induction configs arbitrary: spaces)
  case (Cons c configs)
  then have "c \<noteq> Monostate" by auto
  with Cons.prems(1) obtain ms spaces' where ms: "construct_space env gf hf c = Inr ms"
    and "construct_spaces (construct_space env gf hf) configs = Inr spaces'" "spaces = ms # spaces'"
    by (cases c) (auto split: sum.split_asm)
  with Cons sane_space [OF ms] show ?case by simp
qed simp

abbreviation clients_reachable ::
  "'h rmm \<Rightarrow> bool \<Rightarrow> ('g, 'h) memory_reservation_manager \<Rightarrow> ('g, 'h) clients \<Rightarrow> bool" where
  "clients_reachable env asserts m s \<equiv>
     (clients_step env asserts)\<^sup>*\<^sup>* \<lparr>the_manager = m, holdings = (\<lambda>_. [])\<rparr> s"

lemma start_inv:
  assumes "new_memory_reservation_manager (construct_space env gf hf) configs = Inr m"
    and "\<forall>c \<in> set configs. sane_config env c" and "distinct (map config_id configs)"
  shows "clients_inv \<lparr>the_manager = m, holdings = (\<lambda>_. [])\<rparr>"
proof -
  obtain spaces where spaces: "construct_spaces (construct_space env gf hf) configs = Inr spaces"
    and m: "m = build_lookup_tables \<lparr>memory_spaces = spaces, memory_space_views = [],
               memory_space_lookup = [], tier_to_memory_spaces = []\<rparr>"
    using assms(1) by (auto simp: new_memory_reservation_manager_def split: if_split_asm sum.split_asm)
  have "distinct (map (Some \<circ> ms_id) spaces)"
    using assms(3) construct_spaces_ids [OF spaces] by simp
  then have d: "distinct (map ms_id spaces)" by (metis distinct_map map_map)
  note t = lookup_tables_correct [OF d m]
  have sp: "memory_spaces m = spaces" using t by blast
  have "tables_point_inside m"
    unfolding tables_point_inside_def sp using d t by auto
  with sane_spaces [OF spaces assms(2)] sp show ?thesis by (simp add: clients_inv_def)
qed

lemma reachable_clients_inv:
  assumes "clients_inv s0" and "(clients_step env asserts)\<^sup>*\<^sup>* s0 s"
  shows "clients_inv s"
  using assms(2) by induction (use assms(1) clients_step_inv in auto)

text \<open>
  Property C14. No space is overcommitted. In every run of requests through the manager or to a space,
  and of destructions of reservations, in any order: the counter of each space, of any tier, is the
  sum of the bytes that its clients hold and at most its reservation limit; and destroying a
  reservation that a client holds never throws.
\<close>

theorem spaces_never_overcommitted:
  assumes "new_memory_reservation_manager (construct_space env gf hf) configs = Inr m"
    and "\<forall>c \<in> set configs. sane_config env c" and "distinct (map config_id configs)"
    and "clients_reachable env asserts m s"
    and "i < length (memory_spaces (the_manager s))"
    and "ms = memory_spaces (the_manager s) ! i"
  shows "unat (space_total (reservation_allocator ms)) = ledger_sum (holdings s i)
    \<and> ledger_sum (holdings s i) \<le> unat (space_limit (reservation_allocator ms))
    \<and> (\<forall>a n. map_of (holdings s i) a = Some n \<longrightarrow>
         fst (destroy_reservation \<lparr>res_space = ms_id ms, res_arena = Some a\<rparr> ms) = Inr ())"
proof -
  have "clients_inv s" by (rule reachable_clients_inv [OF start_inv [OF assms(1-3)] assms(4)])
  then have agr: "in_agreement ms (holdings s i)" using assms(5,6) by (simp add: clients_inv_def)
  note d = space_books.agreesD [OF agr]
  have "fst (destroy_reservation \<lparr>res_space = ms_id ms, res_arena = Some a\<rparr> ms) = Inr ()"
    if "map_of (holdings s i) a = Some n" for a n
  proof -
    have "space_bytes_of (reservation_allocator ms) a = Some n" using that d(2) by simp
    from destroy_is_release [OF this prod.collapse [symmetric]] show ?thesis by blast
  qed
  with d show ?thesis by blast
qed

text \<open>A manager over one disk of 100 bytes, from which a client has reserved 30.\<close>

definition one_disk :: "nat memory_space_config" where
  "one_disk = Disk_config \<lparr>disk_id = 0, disk_config_capacity = 100, mount_paths = ''/tmp''\<rparr>"

abbreviation disk_manager :: "(nat, nat) memory_reservation_manager outcome" where
  "disk_manager \<equiv> new_memory_reservation_manager
     (construct_space bump_rmm (\<lambda>_ _ _. Some (0 :: nat)) (\<lambda>_ _ _. Some 0)) [one_disk]"

lemma disk_manager_runs:
  "\<exists>m m'. disk_manager = Inr m
     \<and> unused_address 1 (memory_spaces m) \<and> length (memory_spaces m) = 1
     \<and> request_reservation bump_rmm True 1 (specific_memory_space (memory_space_id DISK 0)) 30 [] [] m
        = Some (Inr (Some \<lparr>res_space = memory_space_id DISK 0, res_arena = Some 1\<rparr>), m')
     \<and> ms_id (memory_spaces m ! 0) = memory_space_id DISK 0 \<and> length (memory_spaces m') = 1
     \<and> unat (space_total (reservation_allocator (memory_spaces m ! 0))) = 0
     \<and> unat (space_total (reservation_allocator (memory_spaces m' ! 0))) = 30"
  by (simp add: one_disk_def new_memory_reservation_manager_def new_disk_memory_space_def Let_def
      build_lookup_tables_def add_space_to_tables_def push_tier_def ms_tier_def request_reservation_def
      select_memory_space_and_make_reservation_def get_memory_space_def make_reservation_def
      make_reservation_or_null_def space_reserve_def disk_reserve_def disk_do_reserve_def try_add_def
      new_disk_limiter_def disk_reservation_limit_def with_notifier_def reservation_create_def
      unused_address_def disk_bytes_of_def new_disk_arena_def)

theorem spaces_never_overcommitted_witness:
  "\<exists>m s. disk_manager = Inr m \<and> clients_reachable bump_rmm True m s \<and> map_of (holdings s 0) 1 = Some 30
     \<and> unat (space_total (reservation_allocator (memory_spaces (the_manager s) ! 0))) = 30
     \<and> fst (destroy_reservation \<lparr>res_space = memory_space_id DISK 0, res_arena = Some 1\<rparr>
            (memory_spaces (the_manager s) ! 0)) = Inr ()"
proof -
  obtain m m' where m: "disk_manager = Inr m" and un: "unused_address 1 (memory_spaces m)"
    and len: "length (memory_spaces m) = 1" "length (memory_spaces m') = 1"
    and req: "request_reservation bump_rmm True 1 (specific_memory_space (memory_space_id DISK 0)) 30 [] [] m
        = Some (Inr (Some \<lparr>res_space = memory_space_id DISK 0, res_arena = Some 1\<rparr>), m')"
    and at: "ms_id (memory_spaces m ! 0) = memory_space_id DISK 0"
      "unat (space_total (reservation_allocator (memory_spaces m ! 0))) = 0"
      "unat (space_total (reservation_allocator (memory_spaces m' ! 0))) = 30"
    using disk_manager_runs by blast
  let ?start = "\<lparr>the_manager = m, holdings = (\<lambda>_. [])\<rparr>"
  let ?x = "Inr (Some \<lparr>res_space = memory_space_id DISK 0, res_arena = Some 1\<rparr>)"
  let ?s = "\<lparr>the_manager = m', holdings = credit ?x (memory_spaces m) (memory_spaces m') (\<lambda>_. [])\<rparr>"
  have "clients_step bump_rmm True ?start ?s"
    using clients_step.request [where s = ?start and a = 1 and bytes = 30 and waits = "[]"
        and request = "specific_memory_space (memory_space_id DISK 0)" and asserts = True] un req by simp
  then have reach: "clients_reachable bump_rmm True m ?s" by (rule r_into_rtranclp)
  have sane: "\<forall>c \<in> set [one_disk]. sane_config bump_rmm c"
    by (simp add: one_disk_def disk_reservation_limit_def)
  have ids: "distinct (map config_id [one_disk])" by simp
  have hold: "holdings ?s 0 = [(1, 30)]" using len at by (simp add: credit_def)
  have i: "0 < length (memory_spaces (the_manager ?s))" using len by simp
  from spaces_never_overcommitted [OF m sane ids reach i refl] hold
  have "unat (space_total (reservation_allocator (memory_spaces m' ! 0))) = 30"
    and d: "fst (destroy_reservation \<lparr>res_space = ms_id (memory_spaces m' ! 0), res_arena = Some 1\<rparr>
            (memory_spaces m' ! 0)) = Inr ()"
    by (auto simp: ledger_sum_def)
  moreover have "destroy_reservation \<lparr>res_space = memory_space_id DISK 0, res_arena = Some 1\<rparr> (memory_spaces m' ! 0)
      = destroy_reservation \<lparr>res_space = ms_id (memory_spaces m' ! 0), res_arena = Some 1\<rparr> (memory_spaces m' ! 0)"
    by (simp add: destroy_reservation_def)
  ultimately show ?thesis using m reach hold by (intro exI [of _ m] exI [of _ ?s]) simp
qed

end
