(* ===== verification/Block_Copy.thy ===== *)
theory Block_Copy
  imports Host_Blocks
begin

text \<open>
  The copy loops of \<open>src/data/representation_converter.cpp\<close>: a contiguous buffer is spread over the
  fixed-size blocks of a host allocation, read back from them, and copied from the blocks of one
  allocation to the blocks of another whose block size may differ. Host memory is a map from
  addresses to bytes; offsets are 64-bit words. The memory copies themselves are taken to succeed
  (a failing CUDA call throws out of the converter).
\<close>

type_synonym byte = "8 word"
type_synonym memory = "u64 \<Rightarrow> byte"

section \<open>The loops\<close>

fun store_bytes :: "u64 \<Rightarrow> byte list \<Rightarrow> memory \<Rightarrow> memory" where
  "store_bytes p [] mem = mem"
| "store_bytes p (b # bs) mem = store_bytes (p + 1) bs (mem(p := b))"

definition load_bytes :: "memory \<Rightarrow> u64 \<Rightarrow> nat \<Rightarrow> byte list" where
  "load_bytes mem p n = map (\<lambda>j. mem (p + of_nat j)) [0..<n]"

definition write_at :: "byte list \<Rightarrow> nat \<Rightarrow> byte list \<Rightarrow> byte list" where
  "write_at dst off bytes = take off dst @ bytes @ drop (off + length bytes) dst"

text \<open>The end of an iteration: after \<open>n\<close> bytes, go to the next block when this one is full.\<close>

definition advance :: "u64 \<Rightarrow> nat \<times> u64 \<Rightarrow> u64 \<Rightarrow> nat \<times> u64" where
  "advance block_size pos n =
     (case pos of (block_index, block_offset) \<Rightarrow>
        if block_offset + n = block_size then (block_index + 1, 0) else (block_index, block_offset + n))"

function copy_to_blocks ::
  "byte list \<Rightarrow> u64 \<Rightarrow> multiple_blocks_allocation \<Rightarrow> nat \<times> u64 \<Rightarrow> u64 \<Rightarrow> memory \<Rightarrow> unit outcome \<times> memory"
where
  "copy_to_blocks data size_bytes al pos source_offset mem =
     (if source_offset < size_bytes
      then
        let remaining_bytes = size_bytes - source_offset;
            bytes_to_copy = min remaining_bytes (alloc_block_size al - snd pos)
        in case alloc_at al (fst pos) of
             Inl e \<Rightarrow> (Inl e, mem)
           | Inr (block, _) \<Rightarrow>
               copy_to_blocks data size_bytes al (advance (alloc_block_size al) pos bytes_to_copy)
                 (source_offset + bytes_to_copy)
                 (store_bytes (block + snd pos)
                    (take (unat bytes_to_copy) (drop (unat source_offset) data)) mem)
      else (Inr (), mem))"
  by pat_completeness auto

text \<open>
  An iteration moves bytes or leaves a block: when nothing is moved the block was full, so the index
  advances, and past the last block the access throws. The loops end for every input.
\<close>

lemma copied_less:
  assumes "(off :: u64) < n" and "0 < k" and "k \<le> n - off"
  shows "unat (n - (off + k)) < unat (n - off)"
proof -
  have "unat (n - off) = unat n - unat off" using assms(1) by (simp add: unat_sub_exact word_less_nat_alt)
  with assms have le: "unat off + unat k \<le> unat n"
    by (simp add: word_le_nat_alt word_less_nat_alt)
  then have "unat (off + k) = unat off + unat k"
    using unat_u64_less [of n] by (simp add: unat_add_exact)
  with le assms show ?thesis
    by (simp add: unat_sub_exact word_less_nat_alt)
qed

lemma copied_le:
  assumes "(off :: u64) < n" and "k \<le> n - off"
  shows "unat (n - (off + k)) \<le> unat (n - off)"
  using copied_less [OF assms(1) _ assms(2)] by (cases "k = 0") (auto simp: word_gt_0 less_imp_le)

lemma advance_progress:
  assumes "fst pos < m" and "k = 0 \<longrightarrow> snd pos = bs"
  shows "m - fst (advance bs pos k) < m - fst pos \<or> 0 < k \<and> fst (advance bs pos k) = fst pos"
  using assms by (auto simp: advance_def word_gt_0 split: prod.splits)

termination copy_to_blocks
proof (relation "measure (\<lambda>(data, n, al, pos, off, mem).
    unat (n - off) + (length (alloc_blocks al) - fst pos))", goal_cases)
  case (2 data n al pos off mem remaining k r block rest)
  have at: "fst pos < length (alloc_blocks al)"
    using 2 by (auto simp: alloc_at_def split: if_splits)
  have k: "k \<le> n - off" "k = 0 \<longrightarrow> snd pos = alloc_block_size al"
    using 2 by (auto simp: min_def split: if_splits)
  show ?case
    using advance_progress [OF at k(2)] copied_less [OF 2(1) _ k(1)] copied_le [OF 2(1) k(1)] by auto
qed simp

function copy_from_blocks ::
  "u64 \<Rightarrow> multiple_blocks_allocation \<Rightarrow> nat \<times> u64 \<Rightarrow> u64 \<Rightarrow> memory \<Rightarrow> byte list \<Rightarrow> byte list outcome"
where
  "copy_from_blocks size_bytes al pos dst_offset mem dst =
     (if dst_offset < size_bytes
      then
        let remaining_bytes = size_bytes - dst_offset;
            bytes_available_in_src_block = alloc_block_size al - snd pos;
            bytes_to_copy = min remaining_bytes bytes_available_in_src_block
        in case alloc_at al (fst pos) of
             Inl e \<Rightarrow> Inl e
           | Inr (src_block, _) \<Rightarrow>
               copy_from_blocks size_bytes al (advance (alloc_block_size al) pos bytes_to_copy)
                 (dst_offset + bytes_to_copy) mem
                 (write_at dst (unat dst_offset) (load_bytes mem (src_block + snd pos) (unat bytes_to_copy)))
      else Inr dst)"
  by pat_completeness auto

termination copy_from_blocks
proof (relation "measure (\<lambda>(n, al, pos, off, mem, dst).
    unat (n - off) + (length (alloc_blocks al) - fst pos))", goal_cases)
  case (2 n al pos off mem dst remaining available k r block rest)
  have at: "fst pos < length (alloc_blocks al)"
    using 2 by (auto simp: alloc_at_def split: if_splits)
  have k: "k \<le> n - off" "k = 0 \<longrightarrow> snd pos = alloc_block_size al"
    using 2 by (auto simp: min_def split: if_splits)
  show ?case
    using advance_progress [OF at k(2)] copied_less [OF 2(1) _ k(1)] copied_le [OF 2(1) k(1)] by auto
qed simp

function copy_between_blocks ::
  "u64 \<Rightarrow> multiple_blocks_allocation \<Rightarrow> multiple_blocks_allocation \<Rightarrow> nat \<times> u64 \<Rightarrow> nat \<times> u64 \<Rightarrow>
   u64 \<Rightarrow> memory \<Rightarrow> unit outcome \<times> memory"
where
  "copy_between_blocks data_size src dst src_pos dst_pos copied mem =
     (if copied < data_size
      then
        let remaining = data_size - copied;
            src_avail = alloc_block_size src - snd src_pos;
            dst_avail = alloc_block_size dst - snd dst_pos;
            bytes_to_copy = min remaining (min src_avail dst_avail)
        in case alloc_at src (fst src_pos) of
             Inl e \<Rightarrow> (Inl e, mem)
           | Inr (src_block, _) \<Rightarrow>
               (case alloc_at dst (fst dst_pos) of
                  Inl e \<Rightarrow> (Inl e, mem)
                | Inr (dst_block, _) \<Rightarrow>
                    copy_between_blocks data_size src dst
                      (advance (alloc_block_size src) src_pos bytes_to_copy)
                      (advance (alloc_block_size dst) dst_pos bytes_to_copy)
                      (copied + bytes_to_copy)
                      (store_bytes (dst_block + snd dst_pos)
                         (load_bytes mem (src_block + snd src_pos) (unat bytes_to_copy)) mem))
      else (Inr (), mem))"
  by pat_completeness auto

lemma advance_not_back: "m - fst (advance bs pos k) \<le> m - fst pos"
  by (auto simp: advance_def split: prod.splits)

termination copy_between_blocks
proof (relation "measure (\<lambda>(n, src, dst, sp, dp, off, mem).
    unat (n - off) + (length (alloc_blocks src) - fst sp) + (length (alloc_blocks dst) - fst dp))",
    goal_cases)
  case (2 n src dst sp dp off mem remaining sa da k r sb rest r' db rest')
  have at: "fst sp < length (alloc_blocks src)" "fst dp < length (alloc_blocks dst)"
    using 2 by (auto simp: alloc_at_def split: if_splits)
  have k: "k \<le> n - off" using 2 by (auto simp: min_def split: if_splits)
  have z: "k = 0 \<longrightarrow> snd sp = alloc_block_size src \<or> snd dp = alloc_block_size dst"
    using 2 by (auto simp: min_def split: if_splits)
  note kept = advance_not_back [of "length (alloc_blocks src)" "alloc_block_size src" sp k]
    advance_not_back [of "length (alloc_blocks dst)" "alloc_block_size dst" dp k]
  show ?case
  proof (cases "k = 0")
    case True
    with z consider "snd sp = alloc_block_size src" | "snd dp = alloc_block_size dst" by blast
    then show ?thesis
    proof cases
      case 1
      from advance_progress [OF at(1), of k] 1 True kept show ?thesis by fastforce
    next
      case 2
      from advance_progress [OF at(2), of k] 2 True kept show ?thesis by fastforce
    qed
  next
    case False
    then have "0 < k" by (simp add: word_gt_0)
    from copied_less [OF 2(1) this k] kept show ?thesis by simp
  qed
qed simp

declare copy_to_blocks.simps [simp del] and copy_from_blocks.simps [simp del]
  and copy_between_blocks.simps [simp del]

section \<open>The layout of a host allocation\<close>

text \<open>
  What the loops need of the blocks they copy to and from: logical byte \<open>i\<close> of an allocation has an
  address of its own, and the bytes of one chunk lie at consecutive addresses.
\<close>

locale block_layout =
  fixes addr :: "'a \<Rightarrow> nat \<Rightarrow> u64" and room chunk :: "'a \<Rightarrow> nat" and sound :: "'a \<Rightarrow> bool"
  assumes addr_inj: "sound a \<Longrightarrow> inj_on (addr a) {..<room a}"
    and addr_step: "sound a \<Longrightarrow> k mod chunk a + j < chunk a \<Longrightarrow> addr a (k + j) = addr a k + of_nat j"
begin

definition content :: "'a \<Rightarrow> nat \<Rightarrow> memory \<Rightarrow> byte list" where
  "content a n mem = map (\<lambda>i. mem (addr a i)) [0..<n]"

lemma content_0: "content a 0 mem = []"
  by (simp add: content_def)

lemma load_chunk:
  assumes "sound a" and "k mod chunk a + n \<le> chunk a"
  shows "load_bytes mem (addr a k) n = map (\<lambda>i. mem (addr a i)) [k..<k + n]"
proof -
  have "mem (addr a k + of_nat j) = mem (addr a (k + j))" if "j < n" for j
    using addr_step [OF assms(1), of k j] assms(2) that by simp
  then show ?thesis
    by (auto simp: load_bytes_def intro!: nth_equalityI)
qed

lemma store_outside:
  assumes "\<And>j. j < length xs \<Longrightarrow> q \<noteq> p + of_nat j"
  shows "store_bytes p xs mem q = mem q"
  using assms
proof (induction xs arbitrary: p mem)
  case (Cons b xs)
  have "q \<noteq> p" using Cons.prems [of 0] by simp
  moreover have "store_bytes (p + 1) xs (mem(p := b)) q = (mem(p := b)) q"
  proof (rule Cons.IH)
    fix j assume "j < length xs"
    then show "q \<noteq> p + 1 + of_nat j" using Cons.prems [of "Suc j"] by (simp add: ac_simps)
  qed
  ultimately show ?case by simp
qed simp

lemma store_inside:
  assumes "i < length xs" and "length xs < 2 ^ 64"
  shows "store_bytes p xs mem (p + of_nat i) = xs ! i"
  using assms
proof (induction xs arbitrary: p mem i)
  case (Cons b xs)
  show ?case
  proof (cases i)
    case 0
    have "p \<noteq> p + 1 + of_nat j" if "j < length xs" for j
    proof -
      have "unat (1 + of_nat j :: u64) = 1 + j"
        using that Cons.prems(2) by (simp add: unat_word_ariths unat_of_nat)
      then have "1 + of_nat j \<noteq> (0 :: u64)" by force
      then show ?thesis by (simp add: add.assoc)
    qed
    then have "store_bytes (p + 1) xs (mem(p := b)) p = (mem(p := b)) p" by (intro store_outside)
    with 0 show ?thesis by simp
  next
    case (Suc i')
    have "store_bytes (p + 1) xs (mem(p := b)) (p + 1 + of_nat i') = xs ! i'"
      using Cons Suc by simp
    with Suc show ?thesis by (simp add: ac_simps)
  qed
qed simp

lemma store_chunk:
  assumes "sound a" and "k mod chunk a + length xs \<le> chunk a" and "k + length xs \<le> room a"
    and "length xs < 2 ^ 64"
  shows "content a (k + length xs) (store_bytes (addr a k) xs mem) = content a k mem @ xs"
    and "q \<notin> addr a ` {k..<k + length xs} \<Longrightarrow> store_bytes (addr a k) xs mem q = mem q"
proof -
  have step: "addr a k + of_nat j = addr a (k + j)" if "j < length xs" for j
    using addr_step [OF assms(1), of k j] assms(2) that by simp
  have new: "store_bytes (addr a k) xs mem (addr a (k + j)) = xs ! j" if "j < length xs" for j
    using store_inside [OF that assms(4), of "addr a k" mem] step [OF that] by simp
  show outside: "store_bytes (addr a k) xs mem q = mem q" if "q \<notin> addr a ` {k..<k + length xs}" for q
  proof (rule store_outside)
    fix j assume "j < length xs"
    with that step show "q \<noteq> addr a k + of_nat j" by auto
  qed
  have old: "store_bytes (addr a k) xs mem (addr a i) = mem (addr a i)" if "i < k" for i
  proof (rule outside)
    show "addr a i \<notin> addr a ` {k..<k + length xs}"
      using inj_onD [OF addr_inj [OF assms(1)], of i] that assms(3) by fastforce
  qed
  show "content a (k + length xs) (store_bytes (addr a k) xs mem) = content a k mem @ xs"
  proof (rule nth_equalityI)
    fix i assume i: "i < length (content a (k + length xs) (store_bytes (addr a k) xs mem))"
    show "content a (k + length xs) (store_bytes (addr a k) xs mem) ! i = (content a k mem @ xs) ! i"
      using i old [of i] new [of "i - k"] by (cases "i < k") (auto simp: content_def nth_append)
  qed (simp add: content_def)
qed

lemma store_chunk_frame:
  assumes "sound a" and "k mod chunk a + length xs \<le> chunk a" and "k + length xs \<le> room a"
    and "length xs < 2 ^ 64" and "k + length xs \<le> n" and "q \<notin> addr a ` {..<n}"
  shows "store_bytes (addr a k) xs mem q = mem q"
  using assms(5,6) by (intro store_chunk(2) [OF assms(1-4)]) auto

end

section \<open>Host allocations have such a layout\<close>

definition byte_at :: "multiple_blocks_allocation \<Rightarrow> nat \<Rightarrow> u64" where
  "byte_at al i =
     alloc_blocks al ! (i div unat (alloc_block_size al)) + of_nat (i mod unat (alloc_block_size al))"

definition alloc_room :: "multiple_blocks_allocation \<Rightarrow> nat" where
  "alloc_room al = length (alloc_blocks al) * unat (alloc_block_size al)"

definition sound_allocation :: "multiple_blocks_allocation \<Rightarrow> bool" where
  "sound_allocation al \<longleftrightarrow>
     0 < unat (alloc_block_size al) \<and> distinct (alloc_blocks al)
     \<and> (\<forall>b \<in> set (alloc_blocks al). unat b + unat (alloc_block_size al) \<le> 2 ^ 64)
     \<and> (\<forall>b \<in> set (alloc_blocks al). \<forall>b' \<in> set (alloc_blocks al).
          b \<noteq> b' \<longrightarrow> apart (unat (alloc_block_size al)) b b')"

lemma in_block:
  assumes "unat (b :: u64) + unat (bs :: u64) \<le> 2 ^ 64" and "j < unat bs"
  shows "unat (b + of_nat j) = unat b + j"
proof -
  have "unat (of_nat j :: u64) = j" using assms(2) unat_u64_less [of bs] by (simp add: unat_of_nat)
  then have "unat b + unat (of_nat j :: u64) < 2 ^ LENGTH(64)" using assms by simp
  from unat_add_exact [OF this] \<open>unat (of_nat j :: u64) = j\<close> show ?thesis by simp
qed

lemma byte_at_inj:
  assumes s: "sound_allocation al"
  shows "inj_on (byte_at al) {..<alloc_room al}"
proof (rule inj_onI)
  let ?n = "unat (alloc_block_size al)"
  fix i j assume ij: "i \<in> {..<alloc_room al}" "j \<in> {..<alloc_room al}" and eq: "byte_at al i = byte_at al j"
  from s have n: "0 < ?n" by (simp add: sound_allocation_def)
  have idx: "x div ?n < length (alloc_blocks al)" if "x \<in> {..<alloc_room al}" for x
    using that by (simp add: alloc_room_def less_mult_imp_div_less)
  define b c where "b = alloc_blocks al ! (i div ?n)" and "c = alloc_blocks al ! (j div ?n)"
  have mem: "b \<in> set (alloc_blocks al)" "c \<in> set (alloc_blocks al)"
    using idx [OF ij(1)] idx [OF ij(2)] by (simp_all add: b_def c_def)
  have "unat (b + of_nat (i mod ?n)) = unat b + i mod ?n" "unat (c + of_nat (j mod ?n)) = unat c + j mod ?n"
    using s mem n by (auto simp: sound_allocation_def intro!: in_block [of _ "alloc_block_size al"])
  with eq have u: "unat b + i mod ?n = unat c + j mod ?n" by (simp add: byte_at_def b_def c_def)
  have "b = c"
  proof (rule ccontr)
    assume "b \<noteq> c"
    with s mem have "apart ?n b c" by (auto simp: sound_allocation_def)
    moreover have "i mod ?n < ?n" "j mod ?n < ?n" using n by simp_all
    ultimately show False using u by (auto simp: apart_def)
  qed
  then have "i div ?n = j div ?n"
    using s idx [OF ij(1)] idx [OF ij(2)] nth_eq_iff_index_eq by (auto simp: b_def c_def sound_allocation_def)
  moreover have "i mod ?n = j mod ?n" using u \<open>b = c\<close> by simp
  ultimately show "i = j" by (metis div_mult_mod_eq)
qed

lemma byte_at_step:
  assumes "k mod unat (alloc_block_size al) + j < unat (alloc_block_size al)"
  shows "byte_at al (k + j) = byte_at al k + of_nat j"
proof -
  let ?n = "unat (alloc_block_size al)"
  have mod: "(k + j) mod ?n = k mod ?n + j"
    using assms mod_add_left_eq [of k ?n j] by simp
  then have "(k + j) div ?n * ?n = k div ?n * ?n"
    using div_mult_mod_eq [of "k + j" ?n] div_mult_mod_eq [of k ?n] by linarith
  with assms mod have "(k + j) div ?n = k div ?n" "(k + j) mod ?n = k mod ?n + j" by auto
  then show ?thesis by (simp add: byte_at_def ac_simps)
qed

interpretation layout: block_layout byte_at alloc_room "\<lambda>al. unat (alloc_block_size al)" sound_allocation
  by unfold_locales (auto simp: byte_at_inj byte_at_step)

section \<open>The loops are right\<close>

definition at_byte :: "u64 \<Rightarrow> nat \<times> u64 \<Rightarrow> nat \<Rightarrow> bool" where
  "at_byte bs pos k \<longleftrightarrow> unat (snd pos) < unat bs \<and> k = fst pos * unat bs + unat (snd pos)"

lemma at_byte_start: "0 < unat bs \<Longrightarrow> at_byte bs (0, 0) 0"
  by (simp add: at_byte_def)

lemma at_byte_div_mod:
  assumes "at_byte bs pos k"
  shows "k div unat bs = fst pos" and "k mod unat bs = unat (snd pos)"
  using assms by (simp_all add: at_byte_def)

lemma advance_at_byte:
  assumes at: "at_byte bs pos k" and n: "n \<le> bs - snd pos"
  shows "at_byte bs (advance bs pos n) (k + unat n)" and "k mod unat bs + unat n \<le> unat bs"
proof -
  obtain i off where pos: "pos = (i, off)" by fastforce
  from at pos have off: "unat off < unat bs" "k = i * unat bs + unat off" by (simp_all add: at_byte_def)
  have sub: "unat (bs - off) = unat bs - unat off" using off(1) by (simp add: unat_sub_exact)
  with n pos off(1) have fits: "unat off + unat n \<le> unat bs" by (simp add: word_le_nat_alt)
  then have sum: "unat (off + n) = unat off + unat n" using unat_u64_less [of bs] by (simp add: unat_add_exact)
  show "k mod unat bs + unat n \<le> unat bs" using fits off by simp
  show "at_byte bs (advance bs pos n) (k + unat n)"
  proof (cases "off + n = bs")
    case True
    with sum have "unat off + unat n = unat bs" by simp
    with True off pos show ?thesis by (simp add: at_byte_def advance_def)
  next
    case False
    with sum have "unat off + unat n \<noteq> unat bs" by (metis word_unat_eq_iff)
    with False off pos fits sum show ?thesis by (simp add: at_byte_def advance_def)
  qed
qed

lemma block_found:
  assumes "at_byte (alloc_block_size al) pos k" and "k < alloc_room al"
  shows "alloc_at al (fst pos) = Inr (alloc_blocks al ! fst pos, alloc_block_size al)"
    and "alloc_blocks al ! fst pos + snd pos = byte_at al k"
proof -
  have "fst pos < length (alloc_blocks al)"
    using at_byte_div_mod(1) [OF assms(1)] assms(2)
    by (metis alloc_room_def less_mult_imp_div_less)
  then show "alloc_at al (fst pos) = Inr (alloc_blocks al ! fst pos, alloc_block_size al)"
    by (simp add: alloc_at_def)
  show "alloc_blocks al ! fst pos + snd pos = byte_at al k"
    using at_byte_div_mod [OF assms(1)] by (simp add: byte_at_def)
qed

text \<open>One iteration in numbers: how far the offset moves and that it stays within the data.\<close>

lemma moved:
  assumes "(off :: u64) < size_bytes" and "n \<le> size_bytes - off"
  shows "unat (off + n) = unat off + unat n" and "unat off + unat n \<le> unat size_bytes"
proof -
  have "unat (size_bytes - off) = unat size_bytes - unat off"
    using assms(1) by (simp add: unat_sub_exact word_less_nat_alt)
  with assms show le: "unat off + unat n \<le> unat size_bytes"
    by (simp add: word_le_nat_alt word_less_nat_alt)
  then show "unat (off + n) = unat off + unat n"
    using unat_u64_less [of size_bytes] by (simp add: unat_add_exact)
qed

lemma copy_to_blocks_spec:
  assumes "sound_allocation al" and "unat size_bytes = length data" and "length data \<le> alloc_room al"
    and "at_byte (alloc_block_size al) pos (unat off)" and "off \<le> size_bytes"
  shows "\<exists>mem'. copy_to_blocks data size_bytes al pos off mem = (Inr (), mem')
    \<and> layout.content al (length data) mem' = layout.content al (unat off) mem @ drop (unat off) data
    \<and> (\<forall>q. q \<notin> byte_at al ` {..<length data} \<longrightarrow> mem' q = mem q)"
  using assms
proof (induction data size_bytes al pos off mem rule: copy_to_blocks.induct)
  case (1 data size_bytes al pos off mem)
  show ?case
  proof (cases "off < size_bytes")
    case False
    with "1.prems"(5) have "off = size_bytes" by simp
    with "1.prems"(2) show ?thesis by (subst copy_to_blocks.simps) simp
  next
    case True
    define n where "n = min (size_bytes - off) (alloc_block_size al - snd pos)"
    define xs where "xs = take (unat n) (drop (unat off) data)"
    define mem1 where "mem1 = store_bytes (byte_at al (unat off)) xs mem"
    have le: "n \<le> size_bytes - off" "n \<le> alloc_block_size al - snd pos" by (simp_all add: n_def)
    note mv = moved [OF True le(1)]
    have len: "length xs = unat n" using mv(2) "1.prems"(2) by (simp add: xs_def)
    have "unat off < alloc_room al"
      using True "1.prems"(2,3) by (simp add: word_less_nat_alt)
    note found = block_found [OF "1.prems"(4) this]
    have unfold: "copy_to_blocks data size_bytes al pos off mem
        = copy_to_blocks data size_bytes al (advance (alloc_block_size al) pos n) (off + n) mem1"
      using True found by (subst copy_to_blocks.simps) (simp add: n_def xs_def mem1_def Let_def)
    note adv = advance_at_byte [OF "1.prems"(4) le(2)]
    have "\<exists>mem'. copy_to_blocks data size_bytes al (advance (alloc_block_size al) pos n) (off + n) mem1
          = (Inr (), mem')
      \<and> layout.content al (length data) mem'
          = layout.content al (unat (off + n)) mem1 @ drop (unat (off + n)) data
      \<and> (\<forall>q. q \<notin> byte_at al ` {..<length data} \<longrightarrow> mem' q = mem1 q)"
      using "1.IH" [OF True refl n_def found(1) refl "1.prems"(1,2,3)] adv(1) mv
        found(2) by (simp add: mem1_def xs_def word_le_nat_alt)
    moreover have "layout.content al (unat (off + n)) mem1 = layout.content al (unat off) mem @ xs"
      and "\<And>q. q \<notin> byte_at al ` {..<length data} \<Longrightarrow> mem1 q = mem q"
      unfolding mem1_def using adv(2) mv "1.prems"(1-3) len unat_u64_less [of n]
      by (auto simp: layout.store_chunk [where xs = xs, unfolded len]
          intro: layout.store_chunk_frame [where n = "length data"])
    moreover have "xs @ drop (unat (off + n)) data = drop (unat off) data"
      using mv by (simp add: xs_def) (metis add.commute append_take_drop_id drop_drop)
    ultimately show ?thesis unfolding unfold by fastforce
  qed
qed

lemma upt_split: "i \<le> j \<Longrightarrow> j \<le> k \<Longrightarrow> [i..<k] = [i..<j] @ [j..<k]"
  using upt_add_eq_append [of i j "k - j"] by simp

lemma write_at_append:
  assumes "k + length xs \<le> length dst"
  shows "take (k + length xs) (write_at dst k xs) = take k dst @ xs"
    and "length (write_at dst k xs) = length dst"
  using assms by (simp_all add: write_at_def)

lemma copy_from_blocks_spec:
  assumes "sound_allocation al" and "unat size_bytes = length dst" and "length dst \<le> alloc_room al"
    and "at_byte (alloc_block_size al) pos (unat off)" and "off \<le> size_bytes"
  shows "copy_from_blocks size_bytes al pos off mem dst
    = Inr (take (unat off) dst @ map (\<lambda>i. mem (byte_at al i)) [unat off..<length dst])"
  using assms
proof (induction size_bytes al pos off mem dst rule: copy_from_blocks.induct)
  case (1 size_bytes al pos off mem dst)
  show ?case
  proof (cases "off < size_bytes")
    case False
    with "1.prems"(5) have "off = size_bytes" by simp
    with "1.prems"(2) show ?thesis by (subst copy_from_blocks.simps) simp
  next
    case True
    define n where "n = min (size_bytes - off) (alloc_block_size al - snd pos)"
    define xs where "xs = load_bytes mem (byte_at al (unat off)) (unat n)"
    have le: "n \<le> size_bytes - off" "n \<le> alloc_block_size al - snd pos" by (simp_all add: n_def)
    note mv = moved [OF True le(1)]
    have "unat off < alloc_room al"
      using True "1.prems"(2,3) by (simp add: word_less_nat_alt)
    note found = block_found [OF "1.prems"(4) this]
    have unfold: "copy_from_blocks size_bytes al pos off mem dst
        = copy_from_blocks size_bytes al (advance (alloc_block_size al) pos n) (off + n) mem
            (write_at dst (unat off) xs)"
      using True found by (subst copy_from_blocks.simps) (simp add: n_def xs_def Let_def)
    note adv = advance_at_byte [OF "1.prems"(4) le(2)]
    have xs: "xs = map (\<lambda>i. mem (byte_at al i)) [unat off..<unat off + unat n]"
      using layout.load_chunk [OF "1.prems"(1) adv(2)] by (simp add: xs_def)
    have wr: "take (unat (off + n)) (write_at dst (unat off) xs) = take (unat off) dst @ xs"
        "length (write_at dst (unat off) xs) = length dst"
      using write_at_append [of "unat off" xs dst] mv "1.prems"(2) by (simp_all add: xs)
    have "copy_from_blocks size_bytes al (advance (alloc_block_size al) pos n) (off + n) mem
            (write_at dst (unat off) xs)
        = Inr (take (unat (off + n)) (write_at dst (unat off) xs)
               @ map (\<lambda>i. mem (byte_at al i)) [unat (off + n)..<length dst])"
      using "1.IH" [OF True refl refl n_def found(1) refl] "1.prems"(1,2,3) adv(1) mv wr(2) found(2)
      by (simp add: xs_def word_le_nat_alt)
    moreover have "[unat off..<length dst]
        = [unat off..<unat off + unat n] @ [unat off + unat n..<length dst]"
      using mv(2) "1.prems"(2) by (intro upt_split) simp_all
    ultimately show ?thesis unfolding unfold wr(1) by (simp add: mv(1) xs)
  qed
qed

lemma copy_between_blocks_spec:
  assumes "sound_allocation src" and "sound_allocation dst"
    and "unat size_bytes \<le> alloc_room src" and "unat size_bytes \<le> alloc_room dst"
    and "byte_at src ` {..<unat size_bytes} \<inter> byte_at dst ` {..<unat size_bytes} = {}"
    and "at_byte (alloc_block_size src) src_pos (unat off)"
    and "at_byte (alloc_block_size dst) dst_pos (unat off)" and "off \<le> size_bytes"
  shows "\<exists>mem'. copy_between_blocks size_bytes src dst src_pos dst_pos off mem = (Inr (), mem')
    \<and> layout.content dst (unat size_bytes) mem'
        = layout.content dst (unat off) mem @ drop (unat off) (layout.content src (unat size_bytes) mem)
    \<and> (\<forall>q. q \<notin> byte_at dst ` {..<unat size_bytes} \<longrightarrow> mem' q = mem q)"
  using assms
proof (induction size_bytes src dst src_pos dst_pos off mem rule: copy_between_blocks.induct)
  case (1 size_bytes src dst sp dp off mem)
  show ?case
  proof (cases "off < size_bytes")
    case False
    with "1.prems"(8) have "off = size_bytes" by simp
    then show ?thesis by (subst copy_between_blocks.simps) (simp add: layout.content_def)
  next
    case True
    define n where "n = min (size_bytes - off)
      (min (alloc_block_size src - snd sp) (alloc_block_size dst - snd dp))"
    define xs where "xs = load_bytes mem (byte_at src (unat off)) (unat n)"
    define mem1 where "mem1 = store_bytes (byte_at dst (unat off)) xs mem"
    have le: "n \<le> size_bytes - off" "n \<le> alloc_block_size src - snd sp" "n \<le> alloc_block_size dst - snd dp"
      by (simp_all add: n_def min_le_iff_disj)
    note mv = moved [OF True le(1)]
    have lt: "unat off < unat size_bytes" using True by (simp add: word_less_nat_alt)
    note src_at = block_found [OF "1.prems"(6) less_le_trans [OF lt "1.prems"(3)]]
      and dst_at = block_found [OF "1.prems"(7) less_le_trans [OF lt "1.prems"(4)]]
    have unfold: "copy_between_blocks size_bytes src dst sp dp off mem
        = copy_between_blocks size_bytes src dst (advance (alloc_block_size src) sp n)
            (advance (alloc_block_size dst) dp n) (off + n) mem1"
      using True src_at dst_at
      by (subst copy_between_blocks.simps) (simp add: n_def xs_def mem1_def Let_def)
    note sa = advance_at_byte [OF "1.prems"(6) le(2)] and da = advance_at_byte [OF "1.prems"(7) le(3)]
    have xs: "xs = map (\<lambda>i. mem (byte_at src i)) [unat off..<unat off + unat n]"
      using layout.load_chunk [OF "1.prems"(1) sa(2)] by (simp add: xs_def)
    then have len: "length xs = unat n" by simp
    have stored: "layout.content dst (unat (off + n)) mem1 = layout.content dst (unat off) mem @ xs"
      and frame: "\<And>q. q \<notin> byte_at dst ` {..<unat size_bytes} \<Longrightarrow> mem1 q = mem q"
      unfolding mem1_def using da(2) mv "1.prems"(2,4) len unat_u64_less [of n]
      by (auto simp: layout.store_chunk [where xs = xs, unfolded len]
          intro: layout.store_chunk_frame [where n = "unat size_bytes"])
    have src_kept: "layout.content src (unat size_bytes) mem1 = layout.content src (unat size_bytes) mem"
    proof -
      have "byte_at src i \<notin> byte_at dst ` {..<unat size_bytes}" if "i < unat size_bytes" for i
        using "1.prems"(5) that by (meson disjoint_iff imageI lessThan_iff)
      then show ?thesis by (simp add: layout.content_def frame)
    qed
    have "\<exists>mem'. copy_between_blocks size_bytes src dst (advance (alloc_block_size src) sp n)
            (advance (alloc_block_size dst) dp n) (off + n) mem1 = (Inr (), mem')
      \<and> layout.content dst (unat size_bytes) mem' = layout.content dst (unat (off + n)) mem1
          @ drop (unat (off + n)) (layout.content src (unat size_bytes) mem1)
      \<and> (\<forall>q. q \<notin> byte_at dst ` {..<unat size_bytes} \<longrightarrow> mem' q = mem1 q)"
      using "1.IH" [OF True refl refl refl n_def src_at(1) refl dst_at(1) refl "1.prems"(1-5)]
        sa(1) da(1) mv src_at(2) dst_at(2)
      by (simp add: mem1_def xs_def word_le_nat_alt)
    moreover have "xs @ drop (unat (off + n)) (layout.content src (unat size_bytes) mem)
        = drop (unat off) (layout.content src (unat size_bytes) mem)"
    proof -
      have "[unat off..<unat size_bytes]
          = [unat off..<unat off + unat n] @ [unat off + unat n..<unat size_bytes]"
        using mv(2) by (intro upt_split) simp_all
      then show ?thesis by (simp add: layout.content_def drop_map mv(1) xs)
    qed
    ultimately show ?thesis unfolding unfold using stored src_kept frame by fastforce
  qed
qed

end
