(* ===== verification/Converter.thy ===== *)
theory Converter
  imports Block_Copy Memory_Space Data_Batch
begin

text \<open>
  The table representations (\<open>host_table.hpp\<close>, \<open>cpu_data_representation\<close>, \<open>gpu_data_representation\<close>),
  the registry of converters and the four built-in converters of \<open>representation_converter\<close>.

  cuDF and RMM are parameters. A table is a value of an unspecified type \<open>'t\<close>. The record
  \<open>cudf\<close> has \<open>cudf::pack\<close> (metadata and contiguous data), the construction of an owning table from
  unpacked data with a memory resource, the columns of a table (number of rows and bytes per
  element), and the life of an \<open>rmm::device_buffer\<close> with a memory resource. CUDA calls are taken to
  succeed: a failing one throws out of the converter before a representation exists. Host memory is
  the \<open>memory\<close> of the copy loops; the space that is the target of a conversion is threaded through.
\<close>

section \<open>Representations\<close>

record host_table_allocation =
  ht_allocation :: multiple_blocks_allocation
  ht_metadata :: "byte list"
  ht_data_size :: u64

datatype 't table_data = gpu_table_representation 't | host_table_representation host_table_allocation

type_synonym 't table_rep = "'t table_data idata_representation"

record ('t, 'g, 'h) cudf =
  cudf_pack :: "'t \<Rightarrow> byte list \<times> byte list"
  cudf_table :: "byte list \<Rightarrow> byte list \<Rightarrow> ('g, 'h) reserving_adaptor \<Rightarrow>
                 't outcome \<times> ('g, 'h) reserving_adaptor"
  cudf_columns :: "'t \<Rightarrow> (i32 \<times> u64) list"
  device_buffer :: "u64 \<Rightarrow> ('g, 'h) reserving_adaptor \<Rightarrow> byte list outcome \<times> ('g, 'h) reserving_adaptor"
  drop_buffer :: "byte list \<Rightarrow> ('g, 'h) reserving_adaptor \<Rightarrow> ('g, 'h) reserving_adaptor"

definition get_size_in_bytes :: "('t, 'g, 'h) cudf \<Rightarrow> 't table_rep \<Rightarrow> u64" where
  "get_size_in_bytes c r =
     (case payload r of
        host_table_representation ht \<Rightarrow> ht_data_size ht
      | gpu_table_representation t \<Rightarrow>
          foldl (\<lambda>total_size (rows, bytes). total_size + scast rows * bytes) 0 (cudf_columns c t))"

text \<open>\<open>std::type_index\<close> of the dynamic type, by its name.\<close>

type_synonym type_index = string

fun typeid :: "'t table_data \<Rightarrow> type_index" where
  "typeid (gpu_table_representation _) = ''gpu_table_representation''"
| "typeid (host_table_representation _) = ''host_table_representation''"

section \<open>The converters\<close>

type_synonym ('t, 'g, 'h) converter_fn =
  "'t table_rep \<Rightarrow> ('g, 'h) memory_space \<Rightarrow> memory \<Rightarrow>
   't table_rep outcome \<times> ('g, 'h) memory_space \<times> memory"

definition put_adaptor ::
  "('g, 'h) reserving_adaptor \<Rightarrow> ('g, 'h) memory_space \<Rightarrow> ('g, 'h) memory_space" where
  "put_adaptor ra ms = ms\<lparr>reservation_allocator := ra\<rparr>"

text \<open>
  The end of both conversions to a GPU: the buffer has been filled, a table of its own memory is
  built from it, and the buffer is destroyed, also when building the table throws.
\<close>

definition build_gpu_table ::
  "('t, 'g, 'h) cudf \<Rightarrow> byte list \<Rightarrow> byte list \<Rightarrow> ('g, 'h) reserving_adaptor \<Rightarrow> ('g, 'h) memory_space \<Rightarrow>
   't table_rep outcome \<times> ('g, 'h) memory_space"
where
  "build_gpu_table c metadata buffer ra ms =
     (case cudf_table c metadata buffer ra of
        (Inl e, ra') \<Rightarrow> (Inl e, put_adaptor (drop_buffer c buffer ra') ms)
      | (Inr t, ra') \<Rightarrow>
          (Inr \<lparr>rep_memory_space = ms_id ms, payload = gpu_table_representation t\<rparr>,
           put_adaptor (drop_buffer c buffer ra') ms))"

definition convert_gpu_to_gpu ::
  "('t, 'g, 'h) cudf \<Rightarrow> bool \<Rightarrow> ('t, 'g, 'h) converter_fn" where
  "convert_gpu_to_gpu c asserts source target mem =
     (case payload source of
        host_table_representation _ \<Rightarrow> (Inl invalid_dereference, target, mem)
      | gpu_table_representation t \<Rightarrow>
          (case cudf_pack c t of
             (metadata, gpu_data) \<Rightarrow>
               if asserts \<and> rep_device_id source = ms_device_id target
               then (Inl assertion_failure, target, mem)
               else
                 (case acquire_stream target of
                    Inl e \<Rightarrow> (Inl e, target, mem)
                  | Inr _ \<Rightarrow>
                      (case device_buffer c (of_nat (length gpu_data)) (reservation_allocator target) of
                         (Inl e, ra) \<Rightarrow> (Inl e, put_adaptor ra target, mem)
                       | (Inr buffer, ra) \<Rightarrow>
                           (case build_gpu_table c metadata (write_at buffer 0 gpu_data) ra target of
                              (r, target') \<Rightarrow> (r, target', mem))))))"

definition convert_gpu_to_host ::
  "('t, 'g, 'h) cudf \<Rightarrow> 'h rmm \<Rightarrow> ('t, 'g, 'h) converter_fn" where
  "convert_gpu_to_host c env source target mem =
     (case payload source of
        host_table_representation _ \<Rightarrow> (Inl invalid_dereference, target, mem)
      | gpu_table_representation t \<Rightarrow>
          (case cudf_pack c t of
             (metadata, gpu_data) \<Rightarrow>
               (case reservation_allocator target of
                  Host_adaptor h \<Rightarrow>
                    (case allocate_multiple_blocks env (of_nat (length gpu_data)) None h of
                       (Inl e, h') \<Rightarrow> (Inl e, put_adaptor (Host_adaptor h') target, mem)
                     | (Inr None, h') \<Rightarrow>
                         (Inl invalid_dereference, put_adaptor (Host_adaptor h') target, mem)
                     | (Inr (Some al), h') \<Rightarrow>
                         (case copy_to_blocks gpu_data (of_nat (length gpu_data)) al (0, 0) 0 mem of
                            (Inl e, mem') \<Rightarrow>
                              (Inl e, put_adaptor (Host_adaptor (destroy_allocation al h')) target, mem')
                          | (Inr _, mem') \<Rightarrow>
                              (Inr \<lparr>rep_memory_space = ms_id target,
                                    payload = host_table_representation
                                      \<lparr>ht_allocation = al, ht_metadata = metadata,
                                       ht_data_size = of_nat (length gpu_data)\<rparr>\<rparr>,
                               put_adaptor (Host_adaptor h') target, mem')))
                | _ \<Rightarrow> (Inl invalid_dereference, target, mem))))"

definition convert_host_to_gpu :: "('t, 'g, 'h) cudf \<Rightarrow> ('t, 'g, 'h) converter_fn" where
  "convert_host_to_gpu c source target mem =
     (case payload source of
        gpu_table_representation _ \<Rightarrow> (Inl invalid_dereference, target, mem)
      | host_table_representation ht \<Rightarrow>
          (case device_buffer c (ht_data_size ht) (reservation_allocator target) of
             (Inl e, ra) \<Rightarrow> (Inl e, put_adaptor ra target, mem)
           | (Inr dst_buffer, ra) \<Rightarrow>
               (case copy_from_blocks (ht_data_size ht) (ht_allocation ht) (0, 0) 0 mem dst_buffer of
                  Inl e \<Rightarrow> (Inl e, put_adaptor (drop_buffer c dst_buffer ra) target, mem)
                | Inr buffer \<Rightarrow>
                    (case build_gpu_table c (ht_metadata ht) buffer ra target of
                       (r, target') \<Rightarrow> (r, target', mem)))))"

definition convert_host_to_host ::
  "'h rmm \<Rightarrow> bool \<Rightarrow> ('t, 'g, 'h) converter_fn" where
  "convert_host_to_host env asserts source target mem =
     (case payload source of
        gpu_table_representation _ \<Rightarrow> (Inl invalid_dereference, target, mem)
      | host_table_representation ht \<Rightarrow>
          if asserts \<and> rep_device_id source = ms_device_id target
          then (Inl assertion_failure, target, mem)
          else
            (case reservation_allocator target of
               Host_adaptor h \<Rightarrow>
                 (case allocate_multiple_blocks env (ht_data_size ht) None h of
                    (Inl e, h') \<Rightarrow> (Inl e, put_adaptor (Host_adaptor h') target, mem)
                  | (Inr None, h') \<Rightarrow>
                      (Inl invalid_dereference, put_adaptor (Host_adaptor h') target, mem)
                  | (Inr (Some al), h') \<Rightarrow>
                      (case copy_between_blocks (ht_data_size ht) (ht_allocation ht) al (0, 0) (0, 0) 0 mem of
                         (Inl e, mem') \<Rightarrow>
                           (Inl e, put_adaptor (Host_adaptor (destroy_allocation al h')) target, mem')
                       | (Inr _, mem') \<Rightarrow>
                           (Inr \<lparr>rep_memory_space = ms_id target,
                                 payload = host_table_representation
                                   \<lparr>ht_allocation = al, ht_metadata = ht_metadata ht,
                                    ht_data_size = ht_data_size ht\<rparr>\<rparr>,
                            put_adaptor (Host_adaptor h') target, mem')))
             | _ \<Rightarrow>
                 (Inl (runtime_error ''Target HOST memory_space does not have a fixed_size_host_memory_resource''),
                  target, mem)))"

section \<open>The registry\<close>

record converter_key =
  source_type :: type_index
  target_type :: type_index

type_synonym 'c registry = "(converter_key \<times> 'c) list"

definition quoted :: "string \<Rightarrow> string" where
  "quoted s = CHR 0x27 # s @ [CHR 0x27]"

definition register_converter_impl :: "converter_key \<Rightarrow> 'c \<Rightarrow> 'c registry \<Rightarrow> unit outcome \<times> 'c registry" where
  "register_converter_impl key converter reg =
     (if map_of reg key \<noteq> None
      then (Inl (runtime_error (''Converter already registered for source type '' @ quoted (source_type key)
                                @ '' to target type '' @ quoted (target_type key))), reg)
      else (Inr (), alist_set key converter reg))"

definition has_converter_impl :: "converter_key \<Rightarrow> 'c registry \<Rightarrow> bool" where
  "has_converter_impl key reg = (map_of reg key \<noteq> None)"

definition convert_impl ::
  "converter_key \<Rightarrow> ('t, 'g, 'h) converter_fn registry \<Rightarrow> ('t, 'g, 'h) converter_fn" where
  "convert_impl key reg source target mem =
     (case map_of reg key of
        None \<Rightarrow>
          (Inl (runtime_error (''No converter registered for source type '' @ quoted (source_type key)
                               @ '' to target type '' @ quoted (target_type key))), target, mem)
      | Some converter \<Rightarrow> converter source target mem)"

definition registry_convert ::
  "type_index \<Rightarrow> ('t, 'g, 'h) converter_fn registry \<Rightarrow> ('t, 'g, 'h) converter_fn" where
  "registry_convert target_ty reg source target mem =
     convert_impl \<lparr>source_type = typeid (payload source), target_type = target_ty\<rparr> reg source target mem"

definition has_converter_for :: "type_index \<Rightarrow> 't table_rep \<Rightarrow> 'c registry \<Rightarrow> bool" where
  "has_converter_for target_ty source reg =
     has_converter_impl \<lparr>source_type = typeid (payload source), target_type = target_ty\<rparr> reg"

definition unregister_converter_impl :: "converter_key \<Rightarrow> 'c registry \<Rightarrow> bool \<times> 'c registry" where
  "unregister_converter_impl key reg = (map_of reg key \<noteq> None, alist_erase key reg)"

definition registry_clear :: "'c registry \<Rightarrow> 'c registry" where
  "registry_clear reg = []"

text \<open>The member templates build the key from the static types.\<close>

definition register_converter ::
  "type_index \<Rightarrow> type_index \<Rightarrow> 'c \<Rightarrow> 'c registry \<Rightarrow> unit outcome \<times> 'c registry" where
  "register_converter source_ty target_ty converter reg =
     register_converter_impl \<lparr>source_type = source_ty, target_type = target_ty\<rparr> converter reg"

definition has_converter :: "type_index \<Rightarrow> type_index \<Rightarrow> 'c registry \<Rightarrow> bool" where
  "has_converter source_ty target_ty reg =
     has_converter_impl \<lparr>source_type = source_ty, target_type = target_ty\<rparr> reg"

definition unregister_converter :: "type_index \<Rightarrow> type_index \<Rightarrow> 'c registry \<Rightarrow> bool \<times> 'c registry" where
  "unregister_converter source_ty target_ty reg =
     unregister_converter_impl \<lparr>source_type = source_ty, target_type = target_ty\<rparr> reg"

text \<open>\<open>register_builtin_converters\<close>: four registrations in order, the first that throws ends it.\<close>

fun register_all :: "(converter_key \<times> 'c) list \<Rightarrow> 'c registry \<Rightarrow> unit outcome \<times> 'c registry" where
  "register_all [] reg = (Inr (), reg)"
| "register_all ((key, converter) # rest) reg =
     (case register_converter_impl key converter reg of
        (Inl e, reg') \<Rightarrow> (Inl e, reg')
      | (Inr _, reg') \<Rightarrow> register_all rest reg')"

definition builtin_converters ::
  "('t, 'g, 'h) cudf \<Rightarrow> 'h rmm \<Rightarrow> bool \<Rightarrow> (converter_key \<times> ('t, 'g, 'h) converter_fn) list" where
  "builtin_converters c env asserts =
     (let gpu = ''gpu_table_representation''; host = ''host_table_representation''
      in [(\<lparr>source_type = gpu, target_type = gpu\<rparr>, convert_gpu_to_gpu c asserts),
          (\<lparr>source_type = gpu, target_type = host\<rparr>, convert_gpu_to_host c env),
          (\<lparr>source_type = host, target_type = gpu\<rparr>, convert_host_to_gpu c),
          (\<lparr>source_type = host, target_type = host\<rparr>, convert_host_to_host env asserts)])"

definition register_builtin_converters ::
  "('t, 'g, 'h) cudf \<Rightarrow> 'h rmm \<Rightarrow> bool \<Rightarrow> ('t, 'g, 'h) converter_fn registry \<Rightarrow>
   unit outcome \<times> ('t, 'g, 'h) converter_fn registry"
where
  "register_builtin_converters c env asserts reg = register_all (builtin_converters c env asserts) reg"

end
