(* ===== verification/Conversion.thy ===== *)
theory Conversion
  imports Converter
begin

text \<open>
  The built-in converters keep the table: whichever converter the registry picks, the representation
  it returns stands for the same table as its source, and the host tables that live beside it in
  host memory are not disturbed.
\<close>

section \<open>What is relied on\<close>

text \<open>
  cuDF gives back the table it packed, and a device buffer has the size that was asked for. Upstream
  memory lies in the address space; \<open>home\<close> are all addresses that an upstream may ever hand out.
\<close>

definition cudf_law :: "('t, 'g, 'h) cudf \<Rightarrow> bool" where
  "cudf_law c \<longleftrightarrow>
     (\<forall>t ra t' ra'. cudf_table c (fst (cudf_pack c t)) (snd (cudf_pack c t)) ra = (Inr t', ra') \<longrightarrow> t' = t)
     \<and> (\<forall>n ra buffer ra'. device_buffer c n ra = (Inr buffer, ra') \<longrightarrow> length buffer = unat n)
     \<and> (\<forall>t. length (snd (cudf_pack c t)) < 2 ^ 61)"

lemma cudf_lawD:
  "cudf_law c \<Longrightarrow> cudf_table c (fst (cudf_pack c t)) (snd (cudf_pack c t)) ra = (Inr t', ra') \<Longrightarrow> t' = t"
  "cudf_law c \<Longrightarrow> device_buffer c n ra = (Inr buffer, ra') \<Longrightarrow> length buffer = unat n"
  "cudf_law c \<Longrightarrow> length (snd (cudf_pack c t)) < 2 ^ 61"
  unfolding cudf_law_def by blast+

definition home :: "('u \<Rightarrow> (nat \<times> nat) set) \<Rightarrow> nat set" where
  "home owned = {a. \<exists>u. \<exists>(q, m) \<in> owned u. q \<le> a \<and> a < q + m}"

definition pool_ready ::
  "'u rmm \<Rightarrow> ('u \<Rightarrow> (nat \<times> nat) set) \<Rightarrow> u64 list \<Rightarrow> ('g, 'u) memory_space \<Rightarrow> bool" where
  "pool_ready env owned rest ms \<longleftrightarrow>
     align_law env \<and> fresh_upstream env owned \<and> home owned \<subseteq> {..<2 ^ 64}
     \<and> (\<forall>h. reservation_allocator ms = Host_adaptor h \<longrightarrow> host_bounds h \<and> blocks_inv owned h rest)"

section \<open>What a representation stands for\<close>

definition stores :: "host_table_allocation \<Rightarrow> memory \<Rightarrow> byte list \<Rightarrow> bool" where
  "stores ht mem data \<longleftrightarrow>
     unat (ht_data_size ht) = length data
     \<and> (data = [] \<or> sound_allocation (ht_allocation ht) \<and> length data \<le> alloc_room (ht_allocation ht))
     \<and> layout.content (ht_allocation ht) (length data) mem = data"

definition represents :: "('t, 'g, 'h) cudf \<Rightarrow> memory \<Rightarrow> 't table_rep \<Rightarrow> 't \<Rightarrow> bool" where
  "represents c mem r t \<longleftrightarrow>
     (case payload r of
        gpu_table_representation t' \<Rightarrow> t' = t
      | host_table_representation ht \<Rightarrow>
          ht_metadata ht = fst (cudf_pack c t) \<and> stores ht mem (snd (cudf_pack c t)))"

text \<open>The addresses a representation occupies in host memory, and those a pool does not reach.\<close>

definition host_bytes :: "'t table_rep \<Rightarrow> u64 set" where
  "host_bytes r =
     (case payload r of
        gpu_table_representation _ \<Rightarrow> {}
      | host_table_representation ht \<Rightarrow> byte_at (ht_allocation ht) ` {..<unat (ht_data_size ht)})"

definition foreign :: "('u \<Rightarrow> (nat \<times> nat) set) \<Rightarrow> 't table_rep \<Rightarrow> bool" where
  "foreign owned r \<longleftrightarrow> unat ` host_bytes r \<inter> home owned = {}"

lemma represents_frame:
  assumes "represents c mem r t" and "\<And>q. q \<in> host_bytes r \<Longrightarrow> mem' q = mem q"
  shows "represents c mem' r t"
proof (cases "payload r")
  case (host_table_representation ht)
  with assms(1) have st: "stores ht mem (snd (cudf_pack c t))" by (simp add: represents_def)
  then have n: "unat (ht_data_size ht) = length (snd (cudf_pack c t))" by (simp add: stores_def)
  have "layout.content (ht_allocation ht) (length (snd (cudf_pack c t))) mem'
      = layout.content (ht_allocation ht) (length (snd (cudf_pack c t))) mem"
    using assms(2) host_table_representation n by (auto simp: layout.content_def host_bytes_def)
  with assms(1) host_table_representation show ?thesis by (simp add: represents_def stores_def)
qed (use assms(1) in \<open>simp add: represents_def\<close>)

section \<open>Fresh host allocations\<close>

lemma allocate_blocks_of:
  assumes "allocate_multiple_blocks env n res h = (Inr (Some al), h')" and "n \<noteq> 0"
  shows "alloc_block_size al = host_block_size h" and "host_block_size h' = host_block_size h"
    and "length (alloc_blocks al) = unat (align_up env n (host_block_size h) div host_block_size h)"
proof -
  let ?n = "align_up env n (host_block_size h)"
  obtain tracked h1 where c: "charge res ?n h = Inr (tracked, h1)"
    using assms by (auto simp: allocate_multiple_blocks_def Let_def split: sum.splits)
  have h1: "host_block_size h1 = host_block_size h"
    using pool_kept_charge [OF c] by (simp add: pool_kept_def)
  obtain post where p: "try_add (host_allocated_bytes h1) tracked (host_memory_capacity h1) = (True, post)"
    using assms c by (auto simp: allocate_multiple_blocks_def Let_def split: prod.splits bool.splits)
  obtain run h2 where t: "take_blocks env (unat (?n div host_block_size h)) []
      (h1\<lparr>host_allocated_bytes := post\<rparr>) = (run, h2)" by fastforce
  with assms c p obtain blocks where run: "run = Got blocks"
    by (cases run) (auto simp: allocate_multiple_blocks_def Let_def)
  have f: "pool_frame (h1\<lparr>host_allocated_bytes := post\<rparr>) h2"
      "length blocks = unat (?n div host_block_size h)"
    using take_blocks_frame [OF t] run by auto
  from assms c p t run have "al = \<lparr>alloc_blocks = blocks, alloc_has_mr = True,
        alloc_block_size = host_block_size h, alloc_arena = arena_of res\<rparr>"
      "host_block_size h' = host_block_size h2"
    by (auto simp: allocate_multiple_blocks_def Let_def)
  with f h1 show "alloc_block_size al = host_block_size h" "host_block_size h' = host_block_size h"
    "length (alloc_blocks al) = unat (?n div host_block_size h)"
    by (auto simp: pool_frame_def same_config_def)
qed

lemma separate_home:
  assumes "separate bs (owned u) bl" and "b \<in> set bl" and "j < bs"
  shows "unat b + j \<in> home owned"
proof -
  from assms(1,2) obtain q m where "(q, m) \<in> owned u" and "q \<le> unat b" and "unat b + bs \<le> q + m"
    unfolding separate_def by blast
  with assms(3) show ?thesis
    unfolding home_def by (intro CollectI exI [of _ u] bexI [of _ "(q, m)"]) auto
qed

lemma separate_apart:
  assumes "separate bs own (xs @ ys)" and "b \<in> set xs" and "b' \<in> set ys"
  shows "apart bs b b'"
proof -
  have "b \<noteq> b'" using assms by (auto simp: separate_def)
  moreover have "\<forall>b \<in> set (xs @ ys). \<forall>b' \<in> set (xs @ ys). b \<noteq> b' \<longrightarrow> apart bs b b'"
    using assms(1) unfolding separate_def by blast
  ultimately show ?thesis using assms(2,3) by simp
qed

lemma allocation_ready:
  assumes ready: "pool_ready env owned rest ms" and h: "reservation_allocator ms = Host_adaptor h"
    and small: "unat n < 2 ^ 61" and n: "n \<noteq> 0"
    and al: "allocate_multiple_blocks env n None h = (Inr (Some al), h')"
  shows "sound_allocation al" and "unat n \<le> alloc_room al"
    and "separate (unat (host_block_size h)) (owned (upstream h')) (alloc_blocks al @ rest)"
    and "alloc_block_size al = host_block_size h"
proof -
  let ?bs = "host_block_size h"
  from ready h have law: "align_law env" and up: "fresh_upstream env owned" and b: "host_bounds h"
    and inv: "blocks_inv owned h rest" and bound: "home owned \<subseteq> {..<2 ^ 64}"
    by (auto simp: pool_ready_def)
  note of = allocate_blocks_of [OF al n]
  show bs: "alloc_block_size al = ?bs" by (rule of(1))
  have pos: "0 < unat ?bs" using inv by (simp add: blocks_inv_def sane_pool_def)
  have "blocks_inv owned h' (live_blocks (handed_out (Inr (Some al))) @ rest)"
    by (rule allocate_blocks_inv [OF up inv al])
  then have all: "sep owned h' (free_blocks h' @ alloc_blocks al @ rest)"
    by (simp add: blocks_inv_def live_blocks_def handed_out_def)
  show sep: "separate (unat ?bs) (owned (upstream h')) (alloc_blocks al @ rest)"
    using separate_drop [of "unat (host_block_size h')" _ "[]" "free_blocks h'"] all of(2) by simp
  have "unat b + unat ?bs \<le> 2 ^ 64" if "b \<in> set (alloc_blocks al)" for b
  proof -
    have "unat b + (unat ?bs - 1) \<in> home owned"
      using separate_home [where owned = owned and u = "upstream h'", OF sep, of b "unat ?bs - 1"]
        that pos by simp
    with bound have "unat b + (unat ?bs - 1) < 2 ^ 64" by blast
    with pos show ?thesis by linarith
  qed
  with sep pos bs show "sound_allocation al"
    by (auto simp: sound_allocation_def separate_def)
  have al': "unat ?bs dvd unat (align_up env n ?bs)" "unat n \<le> unat (align_up env n ?bs)"
    using aligned [OF law _ _ small, of ?bs] b by (simp_all add: host_bounds_def)
  then have "length (alloc_blocks al) * unat ?bs = unat (align_up env n ?bs)"
    using of(3) by (simp add: unat_div)
  with al'(2) bs show "unat n \<le> alloc_room al" by (simp add: alloc_room_def)
qed

text \<open>Where the bytes of an allocation lie.\<close>

lemma byte_in_block:
  assumes "sound_allocation al" and "i < alloc_room al"
  shows "\<exists>b \<in> set (alloc_blocks al). \<exists>j < unat (alloc_block_size al). unat (byte_at al i) = unat b + j"
proof -
  let ?n = "unat (alloc_block_size al)"
  from assms(1) have n: "0 < ?n" by (simp add: sound_allocation_def)
  define b where "b = alloc_blocks al ! (i div ?n)"
  have b: "b \<in> set (alloc_blocks al)"
    using assms(2) by (simp add: b_def alloc_room_def less_mult_imp_div_less)
  with assms(1) n have "unat (b + of_nat (i mod ?n)) = unat b + i mod ?n"
    by (auto simp: sound_allocation_def intro!: in_block [of _ "alloc_block_size al"])
  with b n show ?thesis by (intro bexI [of _ b] exI [of _ "i mod ?n"]) (auto simp: byte_at_def b_def)
qed

definition in_blocks :: "nat \<Rightarrow> u64 list \<Rightarrow> u64 \<Rightarrow> bool" where
  "in_blocks bs bl q \<longleftrightarrow> (\<exists>b \<in> set bl. unat b \<le> unat q \<and> unat q < unat b + bs)"

lemma byte_in_blocks:
  "sound_allocation al \<Longrightarrow> i < alloc_room al \<Longrightarrow>
     in_blocks (unat (alloc_block_size al)) (alloc_blocks al) (byte_at al i)"
  using byte_in_block [of al i] unfolding in_blocks_def by (metis le_add1 nat_add_left_cancel_less)

text \<open>A representation kept in live blocks of the pool that a conversion allocates from.\<close>

definition beside :: "u64 list \<Rightarrow> ('g, 'u) memory_space \<Rightarrow> 't table_rep \<Rightarrow> bool" where
  "beside rest ms r \<longleftrightarrow>
     (\<exists>h ht. reservation_allocator ms = Host_adaptor h \<and> payload r = host_table_representation ht
        \<and> alloc_block_size (ht_allocation ht) = host_block_size h
        \<and> set (alloc_blocks (ht_allocation ht)) \<subseteq> set rest)"

lemma represents_bytes:
  assumes "represents c mem r t" and "payload r = host_table_representation ht" and "q \<in> host_bytes r"
  shows "sound_allocation (ht_allocation ht)"
    and "in_blocks (unat (alloc_block_size (ht_allocation ht))) (alloc_blocks (ht_allocation ht)) q"
proof -
  from assms obtain i where i: "i < unat (ht_data_size ht)" "q = byte_at (ht_allocation ht) i"
    by (auto simp: host_bytes_def)
  with assms(1,2) have "sound_allocation (ht_allocation ht)" "i < alloc_room (ht_allocation ht)"
    by (auto simp: represents_def stores_def)
  with i(2) byte_in_blocks show "sound_allocation (ht_allocation ht)"
    "in_blocks (unat (alloc_block_size (ht_allocation ht))) (alloc_blocks (ht_allocation ht)) q"
    by auto
qed

text \<open>What a conversion into a space may find beside the memory it writes to.\<close>

definition clear_of ::
  "('u \<Rightarrow> (nat \<times> nat) set) \<Rightarrow> u64 list \<Rightarrow> ('g, 'u) memory_space \<Rightarrow> 't table_rep \<Rightarrow> bool" where
  "clear_of owned rest ms r \<longleftrightarrow> foreign owned r \<or> beside rest ms r"

lemma clear_bytes:
  assumes "clear_of owned rest ms r" and "represents c mem r t" and "q \<in> host_bytes r"
    and "unat q \<in> home owned"
  shows "\<exists>h. reservation_allocator ms = Host_adaptor h \<and> in_blocks (unat (host_block_size h)) rest q"
proof -
  have "\<not> foreign owned r" using assms(3,4) by (auto simp: foreign_def)
  with assms(1) obtain h ht where h: "reservation_allocator ms = Host_adaptor h"
      "payload r = host_table_representation ht"
      "alloc_block_size (ht_allocation ht) = host_block_size h"
      "set (alloc_blocks (ht_allocation ht)) \<subseteq> set rest"
    by (auto simp: clear_of_def beside_def)
  with represents_bytes(2) [OF assms(2) h(2) assms(3)] show ?thesis by (auto simp: in_blocks_def)
qed

lemma allocation_bytes:
  assumes ready: "pool_ready env owned rest ms" and h: "reservation_allocator ms = Host_adaptor h"
    and small: "unat n < 2 ^ 61" and n: "n \<noteq> 0"
    and al: "allocate_multiple_blocks env n None h = (Inr (Some al), h')" and i: "i < unat n"
  shows "unat (byte_at al i) \<in> home owned" and "\<not> in_blocks (unat (host_block_size h)) rest (byte_at al i)"
proof -
  let ?bs = "unat (host_block_size h)"
  note r = allocation_ready [OF ready h small n al]
  from i r(2) have "i < alloc_room al" by simp
  from byte_in_block [OF r(1) this] r(4) obtain b j
    where b: "b \<in> set (alloc_blocks al)" "j < ?bs" "unat (byte_at al i) = unat b + j" by auto
  then show "unat (byte_at al i) \<in> home owned"
    using separate_home [where owned = owned and u = "upstream h'", OF r(3), of b j] by simp
  from b(2,3) separate_apart [OF r(3) b(1)] show "\<not> in_blocks ?bs rest (byte_at al i)"
    by (fastforce simp: in_blocks_def apart_def)
qed

section \<open>The converters one by one\<close>

lemma gpu_table_built:
  assumes "cudf_law c" and "build_gpu_table c (fst (cudf_pack c t)) (snd (cudf_pack c t)) ra ms = (Inr r, ms')"
  shows "represents c mem r t" and "host_bytes r = {}"
  using assms(2) cudf_lawD(1) [OF assms(1)]
  by (auto simp: build_gpu_table_def represents_def host_bytes_def split: prod.splits sum.splits)

lemma write_all: "length dst = length data \<Longrightarrow> write_at dst 0 data = data"
  by (simp add: write_at_def)

lemma data_size:
  assumes "cudf_law c"
  shows "unat (of_nat (length (snd (cudf_pack c t))) :: u64) = length (snd (cudf_pack c t))"
  using cudf_lawD(3) [OF assms, of t] by (simp add: unat_of_nat)

lemma gpu_to_gpu:
  assumes law: "cudf_law c" and src: "represents c mem source t"
    and conv: "convert_gpu_to_gpu c asserts source ms mem = (Inr r, ms', mem')"
  shows "represents c mem' r t \<and> mem' = mem \<and> host_bytes r = {}"
proof -
  obtain t0 where p: "payload source = gpu_table_representation t0"
    using conv by (auto simp: convert_gpu_to_gpu_def split: table_data.splits)
  with src have [simp]: "t0 = t" by (simp add: represents_def)
  obtain buffer ra where b: "device_buffer c (of_nat (length (snd (cudf_pack c t)))) (reservation_allocator ms)
      = (Inr buffer, ra)"
    using conv p by (auto simp: convert_gpu_to_gpu_def split: prod.splits if_splits sum.splits)
  have "length buffer = length (snd (cudf_pack c t))"
    using cudf_lawD(2) [OF law b] data_size [OF law, of t] by simp
  then have "build_gpu_table c (fst (cudf_pack c t)) (snd (cudf_pack c t)) ra ms = (Inr r, ms') \<and> mem' = mem"
    using conv p b write_all [of buffer]
    by (auto simp: convert_gpu_to_gpu_def split: prod.splits if_splits sum.splits)
  with gpu_table_built [OF law] show ?thesis by blast
qed

lemma stores_read:
  assumes "stores ht mem data" and "length dst = length data"
  shows "copy_from_blocks (ht_data_size ht) (ht_allocation ht) (0, 0) 0 mem dst = Inr data"
proof (cases "data = []")
  case True
  with assms have "ht_data_size ht = 0" "dst = []" by (auto simp: stores_def unat_eq_0)
  with True show ?thesis by (subst copy_from_blocks.simps) simp
next
  case False
  with assms(1) have s: "sound_allocation (ht_allocation ht)" "length data \<le> alloc_room (ht_allocation ht)"
    and n: "unat (ht_data_size ht) = length data"
    and d: "layout.content (ht_allocation ht) (length data) mem = data"
    by (auto simp: stores_def)
  have "at_byte (alloc_block_size (ht_allocation ht)) (0, 0) (unat (0 :: u64))"
    using s(1) by (simp add: sound_allocation_def at_byte_start)
  from copy_from_blocks_spec [OF s(1) _ _ this, of "ht_data_size ht" dst mem] s(2) n d assms(2)
  show ?thesis by (simp add: layout.content_def)
qed

lemma host_to_gpu:
  assumes law: "cudf_law c" and src: "represents c mem source t"
    and conv: "convert_host_to_gpu c source ms mem = (Inr r, ms', mem')"
  shows "represents c mem' r t \<and> mem' = mem \<and> host_bytes r = {}"
proof -
  obtain ht where p: "payload source = host_table_representation ht"
    using conv by (auto simp: convert_host_to_gpu_def split: table_data.splits)
  with src have meta: "ht_metadata ht = fst (cudf_pack c t)" and st: "stores ht mem (snd (cudf_pack c t))"
    by (simp_all add: represents_def)
  obtain dst ra where b: "device_buffer c (ht_data_size ht) (reservation_allocator ms) = (Inr dst, ra)"
    using conv p by (auto simp: convert_host_to_gpu_def split: prod.splits sum.splits)
  have "length dst = length (snd (cudf_pack c t))"
    using cudf_lawD(2) [OF law b] st by (simp add: stores_def)
  from stores_read [OF st this] conv p b meta
  have "build_gpu_table c (fst (cudf_pack c t)) (snd (cudf_pack c t)) ra ms = (Inr r, ms') \<and> mem' = mem"
    by (auto simp: convert_host_to_gpu_def split: prod.splits)
  with gpu_table_built [OF law] show ?thesis by blast
qed

text \<open>
  A host table written by a conversion: it stands for the table, only its own bytes have changed, and
  these lie in memory of the target's upstream, outside the live blocks of the target.
\<close>

definition written ::
  "('t, 'g, 'u) cudf \<Rightarrow> ('u \<Rightarrow> (nat \<times> nat) set) \<Rightarrow> u64 list \<Rightarrow> ('g, 'u) memory_space \<Rightarrow> memory \<Rightarrow>
   't table_rep \<Rightarrow> memory \<Rightarrow> 't \<Rightarrow> bool"
where
  "written c owned rest ms mem r mem' t \<longleftrightarrow>
     represents c mem' r t \<and> (\<forall>q. q \<notin> host_bytes r \<longrightarrow> mem' q = mem q)
     \<and> (\<forall>q \<in> host_bytes r. unat q \<in> home owned
          \<and> (\<forall>h. reservation_allocator ms = Host_adaptor h \<longrightarrow>
                \<not> in_blocks (unat (host_block_size h)) rest q))"

lemma written_unchanged:
  "represents c mem r t \<Longrightarrow> host_bytes r = {} \<Longrightarrow> written c owned rest ms mem r mem t"
  by (simp add: written_def)

lemma written_keeps:
  assumes "written c owned rest ms mem r mem' t" and "clear_of owned rest ms other"
    and "represents c mem other t2"
  shows "represents c mem' other t2" and "\<And>q. q \<in> host_bytes other \<Longrightarrow> mem' q = mem q"
proof -
  show same: "mem' q = mem q" if q: "q \<in> host_bytes other" for q
  proof (cases "q \<in> host_bytes r")
    case True
    with assms(1) have "unat q \<in> home owned"
      and "\<And>h. reservation_allocator ms = Host_adaptor h \<Longrightarrow> \<not> in_blocks (unat (host_block_size h)) rest q"
      by (auto simp: written_def)
    with clear_bytes [OF assms(2,3) q] show ?thesis by blast
  next
    case False
    with assms(1) show ?thesis by (simp add: written_def)
  qed
  show "represents c mem' other t2" by (rule represents_frame [OF assms(3) same])
qed

lemma allocation_written:
  assumes "pool_ready env owned rest ms" and "reservation_allocator ms = Host_adaptor h"
    and n: "unat n = length (snd (cudf_pack c t))" "unat n < 2 ^ 61"
    and al: "allocate_multiple_blocks env n None h = (Inr (Some al), h')"
    and meta: "ht_metadata ht = fst (cudf_pack c t)" "ht_allocation ht = al" "ht_data_size ht = n"
    and copied: "n \<noteq> 0 \<Longrightarrow> layout.content al (unat n) mem' = snd (cudf_pack c t)"
    and frame: "\<And>q. q \<notin> byte_at al ` {..<unat n} \<Longrightarrow> mem' q = mem q"
    and r: "payload r = host_table_representation ht"
  shows "written c owned rest ms mem r mem' t"
proof -
  have bytes: "host_bytes r = byte_at al ` {..<unat n}" using r meta by (simp add: host_bytes_def)
  have "represents c mem' r t"
  proof (cases "n = 0")
    case True
    with n meta r show ?thesis by (simp add: represents_def stores_def layout.content_def)
  next
    case False
    from allocation_ready(1,2) [OF assms(1,2) n(2) False al] copied [OF False] n meta r
    show ?thesis by (simp add: represents_def stores_def)
  qed
  moreover have "unat q \<in> home owned \<and> \<not> in_blocks (unat (host_block_size h)) rest q"
    if "q \<in> host_bytes r" for q
  proof -
    from that bytes obtain i where i: "i < unat n" "q = byte_at al i" by auto
    then have "n \<noteq> 0" by auto
    from allocation_bytes [OF assms(1,2) n(2) this al i(1)] i(2) show ?thesis by simp
  qed
  ultimately show ?thesis
    using frame bytes assms(2) by (simp add: written_def)
qed

lemma gpu_to_host:
  assumes law: "cudf_law c" and ready: "pool_ready env owned rest ms"
    and src: "represents c mem source t"
    and conv: "convert_gpu_to_host c env source ms mem = (Inr r, ms', mem')"
  shows "written c owned rest ms mem r mem' t"
proof -
  let ?data = "snd (cudf_pack c t)" and ?n = "of_nat (length (snd (cudf_pack c t))) :: u64"
  obtain t0 h where p: "payload source = gpu_table_representation t0"
      "reservation_allocator ms = Host_adaptor h"
    using conv by (auto simp: convert_gpu_to_host_def split: table_data.splits prod.splits reserving_adaptor.splits)
  with src have [simp]: "t0 = t" by (simp add: represents_def)
  obtain al h' where al: "allocate_multiple_blocks env ?n None h = (Inr (Some al), h')"
    using conv p by (auto simp: convert_gpu_to_host_def split: prod.splits sum.splits option.splits)
  obtain x where x: "copy_to_blocks ?data ?n al (0, 0) 0 mem = (Inr x, mem')"
      and r: "payload r = host_table_representation
        \<lparr>ht_allocation = al, ht_metadata = fst (cudf_pack c t), ht_data_size = ?n\<rparr>"
    using conv p al by (auto simp: convert_gpu_to_host_def split: prod.splits sum.splits)
  have n: "unat ?n = length ?data" by (rule data_size [OF law])
  then have small: "unat ?n < 2 ^ 61" using cudf_lawD(3) [OF law, of t] by simp
  show ?thesis
  proof (cases "?n = 0")
    case True
    then have "mem' = mem" using x by (subst (asm) copy_to_blocks.simps) simp
    then show ?thesis
      using True by (intro allocation_written [OF ready p(2) n small al _ _ _ _ _ r]) simp_all
  next
    case False
    note ok = allocation_ready [OF ready p(2) small False al]
    have "at_byte (alloc_block_size al) (0, 0) (unat (0 :: u64))"
      using ok(1) by (simp add: sound_allocation_def at_byte_start)
    from copy_to_blocks_spec [OF ok(1) n _ this, of mem] ok(2) n x
    have "layout.content al (length ?data) mem' = ?data"
      and "\<And>q. q \<notin> byte_at al ` {..<length ?data} \<Longrightarrow> mem' q = mem q"
      by (auto simp: layout.content_def)
    then show ?thesis
      using n by (intro allocation_written [OF ready p(2) n small al _ _ _ _ _ r]) simp_all
  qed
qed

text \<open>The copy between host tables cannot fail once the target has its blocks.\<close>

lemma host_to_host_copies:
  assumes law: "cudf_law c" and ready: "pool_ready env owned rest ms"
    and src: "represents c mem source t" and away: "clear_of owned rest ms source"
    and p: "payload source = host_table_representation ht" "reservation_allocator ms = Host_adaptor h"
    and al: "allocate_multiple_blocks env (ht_data_size ht) None h = (Inr (Some al), h')"
  shows "\<exists>mem'. copy_between_blocks (ht_data_size ht) (ht_allocation ht) al (0, 0) (0, 0) 0 mem = (Inr (), mem')
    \<and> (ht_data_size ht \<noteq> 0 \<longrightarrow> layout.content al (unat (ht_data_size ht)) mem' = snd (cudf_pack c t))
    \<and> (\<forall>q. q \<notin> byte_at al ` {..<unat (ht_data_size ht)} \<longrightarrow> mem' q = mem q)"
proof -
  let ?data = "snd (cudf_pack c t)"
  let ?n = "ht_data_size ht" and ?src = "ht_allocation ht"
  from src p have st: "stores ht mem ?data" by (simp add: represents_def)
  then have n: "unat ?n = length ?data" by (simp add: stores_def)
  then have small: "unat ?n < 2 ^ 61" using cudf_lawD(3) [OF law, of t] by simp
  show ?thesis
  proof (cases "?n = 0")
    case True
    then show ?thesis by (subst copy_between_blocks.simps) simp
  next
    case False
    note ok = allocation_ready [OF ready p(2) small False al]
    from False n have "?data \<noteq> []" by (auto simp: unat_eq_0)
    with st have src_ok: "sound_allocation ?src" "unat ?n \<le> alloc_room ?src"
      "layout.content ?src (unat ?n) mem = ?data"
      by (auto simp: stores_def n)
    have disj: "byte_at ?src ` {..<unat ?n} \<inter> byte_at al ` {..<unat ?n} = {}"
    proof -
      have "q \<notin> byte_at ?src ` {..<unat ?n}" if q: "q \<in> byte_at al ` {..<unat ?n}" for q
      proof -
        from q obtain i where "i < unat ?n" "q = byte_at al i" by auto
        then have "unat q \<in> home owned" "\<not> in_blocks (unat (host_block_size h)) rest q"
          using allocation_bytes [OF ready p(2) small False al] by simp_all
        with clear_bytes [OF away src] p show ?thesis by (auto simp: host_bytes_def)
      qed
      then show ?thesis by blast
    qed
    have at: "at_byte (alloc_block_size a) (0, 0) (unat (0 :: u64))" if "sound_allocation a" for a
      using that by (simp add: sound_allocation_def at_byte_start)
    from copy_between_blocks_spec [OF src_ok(1) ok(1) src_ok(2) ok(2) disj at [OF src_ok(1)] at [OF ok(1)],
        of mem] src_ok(3)
    show ?thesis by (auto simp: layout.content_0)
  qed
qed

lemma host_to_host:
  assumes law: "cudf_law c" and ready: "pool_ready env owned rest ms"
    and src: "represents c mem source t" and away: "clear_of owned rest ms source"
    and conv: "convert_host_to_host env asserts source ms mem = (Inr r, ms', mem')"
  shows "written c owned rest ms mem r mem' t"
proof -
  let ?data = "snd (cudf_pack c t)"
  obtain ht h where p: "payload source = host_table_representation ht"
      "reservation_allocator ms = Host_adaptor h"
    using conv by (auto simp: convert_host_to_host_def
        split: table_data.splits if_splits reserving_adaptor.splits)
  let ?n = "ht_data_size ht"
  from src p have meta: "ht_metadata ht = fst (cudf_pack c t)" and n: "unat ?n = length ?data"
    by (simp_all add: represents_def stores_def)
  then have small: "unat ?n < 2 ^ 61" using cudf_lawD(3) [OF law, of t] by simp
  obtain al h' where al: "allocate_multiple_blocks env ?n None h = (Inr (Some al), h')"
    using conv p by (auto simp: convert_host_to_host_def split: if_splits prod.splits sum.splits option.splits)
  obtain m where m: "copy_between_blocks ?n (ht_allocation ht) al (0, 0) (0, 0) 0 mem = (Inr (), m)"
    "?n \<noteq> 0 \<longrightarrow> layout.content al (unat ?n) m = ?data"
    "\<forall>q. q \<notin> byte_at al ` {..<unat ?n} \<longrightarrow> m q = mem q"
    using host_to_host_copies [OF law ready src away p al] by blast
  have "mem' = m" and r: "payload r = host_table_representation
        \<lparr>ht_allocation = al, ht_metadata = ht_metadata ht, ht_data_size = ?n\<rparr>"
    using conv p al m(1) by (auto simp: convert_host_to_host_def split: if_splits)
  with m(2,3) meta show ?thesis
    by (intro allocation_written [OF ready p(2) n small al _ _ _ _ _ r]) simp_all
qed

section \<open>The registry\<close>

lemma register_all_lookup:
  assumes "distinct (map fst cs)" and "\<forall>k \<in> fst ` set cs. map_of reg k = None"
  shows "\<exists>reg'. register_all cs reg = (Inr (), reg') \<and> map_of reg' = map_of reg ++ map_of cs"
  using assms
proof (induction cs arbitrary: reg)
  case (Cons p cs)
  obtain k f where p: "p = (k, f)" by fastforce
  have "\<exists>reg'. register_all cs (alist_set k f reg) = (Inr (), reg')
      \<and> map_of reg' = map_of (alist_set k f reg) ++ map_of cs"
    using Cons.prems p by (intro Cons.IH) auto
  moreover have "map_of (alist_set k f reg) ++ map_of cs = map_of reg ++ map_of (p # cs)"
    using Cons.prems(1) p by (simp add: map_add_upd_left dom_map_of_conv_image_fst)
  moreover have "register_all (p # cs) reg = register_all cs (alist_set k f reg)"
    using Cons.prems(2) p by (simp add: register_converter_impl_def)
  ultimately show ?case by metis
qed simp

lemma builtin_registered:
  "\<exists>reg. register_builtin_converters c env asserts [] = (Inr (), reg)
     \<and> map_of reg = map_of (builtin_converters c env asserts)"
  using register_all_lookup [of "builtin_converters c env asserts" "[]"]
  by (auto simp: register_builtin_converters_def builtin_converters_def Let_def)

lemma registry_cases:
  assumes "register_builtin_converters c env asserts [] = (Inr (), reg)"
    and "registry_convert ty reg source ms mem = (x, ms', mem')"
  obtains (none) e where "x = Inl e" "ms' = ms" "mem' = mem"
    | (gpu_gpu) "ty = ''gpu_table_representation''"
      "convert_gpu_to_gpu c asserts source ms mem = (x, ms', mem')"
    | (gpu_host) "ty = ''host_table_representation''"
      "convert_gpu_to_host c env source ms mem = (x, ms', mem')"
    | (host_gpu) "ty = ''gpu_table_representation''"
      "convert_host_to_gpu c source ms mem = (x, ms', mem')"
    | (host_host) "ty = ''host_table_representation''"
      "convert_host_to_host env asserts source ms mem = (x, ms', mem')"
proof -
  let ?key = "\<lparr>source_type = typeid (payload source), target_type = ty\<rparr>"
  have m: "map_of reg = map_of (builtin_converters c env asserts)"
    using builtin_registered [of c env asserts] assms(1) by auto
  show thesis
  proof (cases "map_of reg ?key")
    case None
    with assms(2) none show thesis by (auto simp: registry_convert_def convert_impl_def)
  next
    case (Some f)
    with assms(2) have f: "f source ms mem = (x, ms', mem')"
      by (simp add: registry_convert_def convert_impl_def)
    from Some m have "(?key, f) \<in> set (builtin_converters c env asserts)" by (simp add: map_of_SomeD)
    with f gpu_gpu gpu_host host_gpu host_host show thesis by (auto simp: builtin_converters_def Let_def)
  qed
qed

lemma conversion_written:
  assumes "cudf_law c" and "pool_ready env owned rest ms" and "represents c mem source t"
    and "clear_of owned rest ms source" and "register_builtin_converters c env asserts [] = (Inr (), reg)"
    and "registry_convert ty reg source ms mem = (Inr r, ms', mem')"
  shows "written c owned rest ms mem r mem' t"
  using assms(5,6)
proof (cases rule: registry_cases)
  case gpu_gpu
  from gpu_to_gpu [OF assms(1,3) this(2)] show ?thesis by (auto intro: written_unchanged)
next
  case gpu_host
  from gpu_to_host [OF assms(1,2,3) this(2)] show ?thesis .
next
  case host_gpu
  from host_to_gpu [OF assms(1,3) this(2)] show ?thesis by (auto intro: written_unchanged)
next
  case host_host
  from host_to_host [OF assms(1,2,3,4) this(2)] show ?thesis .
qed simp

lemma converted_type:
  assumes "register_builtin_converters c env asserts [] = (Inr (), reg)"
    and "registry_convert ty reg source ms mem = (Inr r, ms', mem')"
  shows "typeid (payload r) = ty \<and> rep_memory_space r = ms_id ms"
  using assms
proof (cases rule: registry_cases)
  case gpu_gpu
  then show ?thesis
    by (auto simp: convert_gpu_to_gpu_def build_gpu_table_def split: table_data.splits prod.splits sum.splits if_splits)
next
  case gpu_host
  then show ?thesis
    by (auto simp: convert_gpu_to_host_def
        split: table_data.splits prod.splits sum.splits option.splits reserving_adaptor.splits)
next
  case host_gpu
  then show ?thesis
    by (auto simp: convert_host_to_gpu_def build_gpu_table_def split: table_data.splits prod.splits sum.splits)
next
  case host_host
  then show ?thesis
    by (auto simp: convert_host_to_host_def
        split: table_data.splits prod.splits sum.splits option.splits reserving_adaptor.splits if_splits)
qed simp

text \<open>Once the blocks are there, a conversion to the host returns: the copy cannot fail.\<close>

lemma gpu_to_host_returns:
  assumes law: "cudf_law c" and ready: "pool_ready env owned rest ms"
    and p: "payload source = gpu_table_representation t" "reservation_allocator ms = Host_adaptor h"
    and al: "allocate_multiple_blocks env (of_nat (length (snd (cudf_pack c t)))) None h = (Inr (Some al), h')"
  shows "\<exists>mem'. convert_gpu_to_host c env source ms mem
    = (Inr \<lparr>rep_memory_space = ms_id ms,
            payload = host_table_representation
              \<lparr>ht_allocation = al, ht_metadata = fst (cudf_pack c t),
               ht_data_size = of_nat (length (snd (cudf_pack c t)))\<rparr>\<rparr>,
       put_adaptor (Host_adaptor h') ms, mem')"
proof -
  let ?data = "snd (cudf_pack c t)" and ?n = "of_nat (length (snd (cudf_pack c t))) :: u64"
  have n: "unat ?n = length ?data" by (rule data_size [OF law])
  then have small: "unat ?n < 2 ^ 61" using cudf_lawD(3) [OF law, of t] by simp
  have "\<exists>mem'. copy_to_blocks ?data ?n al (0, 0) 0 mem = (Inr (), mem')"
  proof (cases "?n = 0")
    case True
    then show ?thesis by (subst copy_to_blocks.simps) simp
  next
    case False
    note ok = allocation_ready [OF ready p(2) small False al]
    have "at_byte (alloc_block_size al) (0, 0) (unat (0 :: u64))"
      using ok(1) by (simp add: sound_allocation_def at_byte_start)
    from copy_to_blocks_spec [OF ok(1) n _ this, of mem] ok(2) n show ?thesis by auto
  qed
  with p al show ?thesis by (auto simp: convert_gpu_to_host_def split: prod.splits)
qed

section \<open>Properties\<close>

text \<open>
  Property C12. A conversion keeps the table. For every pair of table types, what the registry's
  built-in converter returns stands for the same table as its source: for a host table, the bytes
  spread over its blocks, read in order, are the packed data of the table, whatever the block sizes
  of source and target. It has the type that was asked for and names the target as its memory space.
  (A host table that is converted lies outside the target's pool or in live blocks of it.)
\<close>

theorem conversion_keeps_table:
  assumes "cudf_law c" and "pool_ready env owned rest ms" and "represents c mem source t"
    and "clear_of owned rest ms source" and "register_builtin_converters c env asserts [] = (Inr (), reg)"
    and "registry_convert ty reg source ms mem = (Inr r, ms', mem')"
  shows "represents c mem' r t \<and> typeid (payload r) = ty \<and> rep_memory_space r = ms_id ms"
  using conversion_written [OF assms] converted_type [OF assms(5,6)] by (simp add: written_def)

text \<open>
  Property C30. A conversion by a built-in converter returns what was asked for: the result of the
  registry's built-in converters has the requested type and lives in the target memory space, so the unchecked
  \<open>static_cast\<close> of \<open>convert\<close> is right; and a type without a converter is refused with an exception
  that leaves the target and the memory alone.
\<close>

theorem conversion_result_type:
  assumes "register_builtin_converters c env asserts [] = (Inr (), reg)"
    and "registry_convert ty reg source ms mem = (x, ms', mem')"
  shows "case x of
      Inr r \<Rightarrow> typeid (payload r) = ty \<and> rep_memory_space r = ms_id ms
    | Inl e \<Rightarrow> has_converter_for ty source reg \<or> ms' = ms \<and> mem' = mem
        \<and> e = runtime_error (''No converter registered for source type '' @ quoted (typeid (payload source))
                             @ '' to target type '' @ quoted ty)"
proof (cases x)
  case (Inl e)
  with assms(2) show ?thesis
    by (auto simp: registry_convert_def convert_impl_def has_converter_for_def has_converter_impl_def
        split: option.splits)
next
  case (Inr r)
  with converted_type [OF assms(1) assms(2) [unfolded Inr]] show ?thesis by simp
qed

text \<open>
  A conversion disturbs no other table: every table represented in host memory outside
  the target's pool, the source included, or in live blocks of that pool, is still represented
  afterwards.
\<close>

theorem conversion_keeps_others:
  assumes "cudf_law c" and "pool_ready env owned rest ms" and "represents c mem source t"
    and "clear_of owned rest ms source" and "register_builtin_converters c env asserts [] = (Inr (), reg)"
    and "registry_convert ty reg source ms mem = (Inr r, ms', mem')"
    and "represents c mem other t2" and "clear_of owned rest ms other"
  shows "represents c mem' other t2"
  by (rule written_keeps(1) [OF conversion_written [OF assms(1-6)] assms(8,7)])

text \<open>
  Property C16. Round trip between GPU and host. A table that is moved to a host space and back to any
  GPU space by the converters is the table it was.
\<close>

theorem gpu_host_round_trip:
  assumes "cudf_law c" and "pool_ready env owned rest ms"
    and "payload source = gpu_table_representation t"
    and "convert_gpu_to_host c env source ms mem = (Inr r, ms', mem')"
    and "convert_host_to_gpu c r ms2 mem' = (Inr r', ms2', mem'')"
  shows "payload r' = gpu_table_representation t"
proof -
  have "represents c mem source t" using assms(3) by (simp add: represents_def)
  from gpu_to_host [OF assms(1,2) this assms(4)] have "represents c mem' r t" by (simp add: written_def)
  note again = host_to_gpu [OF assms(1) this assms(5)]
  have "\<exists>t'. payload r' = gpu_table_representation t'"
    using assms(5) by (auto simp: convert_host_to_gpu_def build_gpu_table_def
        split: table_data.splits prod.splits sum.splits)
  with again show ?thesis by (auto simp: represents_def)
qed

text \<open>The allocation without a reservation is refused with a null pointer exactly for lack of capacity.\<close>

definition over_capacity :: "'u rmm \<Rightarrow> u64 \<Rightarrow> 'u host_resource \<Rightarrow> bool" where
  "over_capacity env n h \<longleftrightarrow> n \<noteq> 0 \<and>
     unat (host_memory_capacity h) < unat (host_allocated_bytes h) + unat (align_up env n (host_block_size h))"

lemma allocation_refused:
  assumes "allocate_multiple_blocks env n None h = (x, h')"
  shows "x = Inr None \<longleftrightarrow> over_capacity env n h"
proof (cases "n = 0")
  case True
  with assms show ?thesis by (auto simp: allocate_multiple_blocks_def over_capacity_def)
next
  case False
  let ?k = "align_up env n (host_block_size h)"
  obtain ok post where acc: "try_add (host_allocated_bytes h) ?k (host_memory_capacity h) = (ok, post)"
    by fastforce
  with try_add_u64(1) [of "host_allocated_bytes h" ?k "host_memory_capacity h"] False
  have ok: "\<not> ok \<longleftrightarrow> over_capacity env n h" by (auto simp: over_capacity_def)
  obtain run h2 where run: "take_blocks env (unat (?k div host_block_size h)) []
      (h\<lparr>host_allocated_bytes := post\<rparr>) = (run, h2)" by fastforce
  show ?thesis
    using assms False acc run ok
    by (cases ok; cases run) (auto simp: allocate_multiple_blocks_def charge_def Let_def)
qed

text \<open>
  Property C31. A conversion to the host always ends, in one of three ways that the allocation of the
  blocks decides. When the rounded size of the packed table is more than the capacity has left, the
  allocation is a null pointer and the converter dereferences it. Otherwise the allocation throws,
  which it does when the upstream cannot deliver the blocks, and the converter throws the same
  exception; or it has the blocks, and the converter returns a host table that owns them, in the
  target space.
\<close>

theorem gpu_to_host_outcome:
  assumes "cudf_law c" and "pool_ready env owned rest ms"
    and "payload source = gpu_table_representation t" and "reservation_allocator ms = Host_adaptor h"
    and "n = of_nat (length (snd (cudf_pack c t)))"
    and "allocate_multiple_blocks env n None h = (x, h')"
  shows "(x = Inr None \<longleftrightarrow> over_capacity env n h) \<and>
    (case fst (convert_gpu_to_host c env source ms mem) of
      Inl e \<Rightarrow> (if over_capacity env n h then e = invalid_dereference else x = Inl e)
    | Inr r \<Rightarrow> \<exists>al ht. x = Inr (Some al) \<and> payload r = host_table_representation ht
        \<and> ht_allocation ht = al \<and> ht_data_size ht = n \<and> rep_memory_space r = ms_id ms)"
proof (cases "\<exists>al. x = Inr (Some al)")
  case True
  with assms(5,6) obtain al where al: "x = Inr (Some al)"
      "allocate_multiple_blocks env (of_nat (length (snd (cudf_pack c t)))) None h = (Inr (Some al), h')"
    by auto
  from gpu_to_host_returns [OF assms(1-4) al(2), of mem] al(1) allocation_refused [OF assms(6)] assms(5)
  show ?thesis by auto
next
  case False
  with assms(3-6) allocation_refused [OF assms(6)] show ?thesis
    by (auto simp: convert_gpu_to_host_def split: prod.splits sum.splits option.splits)
qed

section \<open>A concrete conversion\<close>

text \<open>Tables of twenty equal bytes, moved to a host space with blocks of sixteen bytes.\<close>

definition byte_tables :: "(byte, nat, nat) cudf" where
  "byte_tables =
     \<lparr>cudf_pack = (\<lambda>b. ([], replicate 20 b)), cudf_table = (\<lambda>_ data ra. (Inr (hd data), ra)),
      cudf_columns = (\<lambda>_. [(20, 1)]), device_buffer = (\<lambda>n ra. (Inr (replicate (unat n) 0), ra)),
      drop_buffer = (\<lambda>_ ra. ra)\<rparr>"

definition host_space :: "(nat, nat) memory_space" where
  "host_space =
     \<lparr>ms_id = memory_space_id HOST 0, ms_capacity = 128, ms_memory_limit = 64,
      start_downgrading_memory_threshold = 96, stop_downgrading_memory_threshold = 64,
      ms_channel = new_channel, reservation_allocator = Host_adaptor small_host, has_stream_pool = False\<rparr>"

definition capped :: "nat \<Rightarrow> (nat \<times> nat) set" where
  "capped u = {(q, m). q + m \<le> u \<and> q + m \<le> 2 ^ 62}"

definition sevens :: "byte table_rep" where
  "sevens = \<lparr>rep_memory_space = memory_space_id GPU 0, payload = gpu_table_representation 7\<rparr>"

lemma byte_tables_law: "cudf_law byte_tables"
  by (simp add: cudf_law_def byte_tables_def)

lemma host_space_ready: "pool_ready bump_rmm capped [] host_space"
proof -
  have small: "unat (of_nat u :: u64) = u" if "u \<le> 2 ^ 62" for u
    using that by (simp add: unat_of_nat)
  have "fresh_upstream bump_rmm capped"
    by (auto simp: fresh_upstream_def bump_rmm_def capped_def small split: if_splits)
  moreover have "home capped \<subseteq> {..<2 ^ 64}" by (auto simp: home_def capped_def)
  moreover have "host_bounds small_host" using small_host_new by (simp add: new_state_def)
  moreover have "blocks_inv capped small_host []"
    by (simp add: blocks_inv_def sane_pool_def separate_def small_defs)
  ultimately show ?thesis by (simp add: pool_ready_def bump_align host_space_def)
qed

lemma sevens_allocates:
  "\<exists>al h'. allocate_multiple_blocks bump_rmm
     (of_nat (length (snd (cudf_pack byte_tables 7)))) None small_host = (Inr (Some al), h')"
proof -
  have n: "align_up bump_rmm 20 16 = 32" by (simp add: bump_rmm_def)
  have b: "host_block_size small_host = 16" "free_blocks small_host = []"
    "host_allocated_bytes small_host = 0" "host_memory_capacity small_host = 128"
    by (simp_all add: small_defs)
  have e: "expand_pool bump_rmm (small_host\<lparr>host_allocated_bytes := x\<rparr>)
      = (Inr (), small_host\<lparr>host_allocated_bytes := x, upstream := 64, allocated_blocks := [0],
           free_blocks := [0, 16, 32, 48]\<rparr>)" for x
    by (simp add: expand_pool_def small_defs bump_rmm_def upt_rec)
  have t: "take_blocks bump_rmm 2 [] (small_host\<lparr>host_allocated_bytes := x\<rparr>)
      = (Got [48, 32], small_host\<lparr>host_allocated_bytes := x, upstream := 64, allocated_blocks := [0],
           free_blocks := [0, 16]\<rparr>)" for x
    by (simp add: numeral_2_eq_2 b e)
  show ?thesis
    by (simp add: byte_tables_def allocate_multiple_blocks_def n b t charge_def try_add_def)
qed

lemma sevens_to_host:
  "\<exists>r ms' mem'. convert_gpu_to_host byte_tables bump_rmm sevens host_space (\<lambda>_. 0) = (Inr r, ms', mem')"
proof -
  obtain al h' where "allocate_multiple_blocks bump_rmm
     (of_nat (length (snd (cudf_pack byte_tables 7)))) None small_host = (Inr (Some al), h')"
    using sevens_allocates by blast
  from gpu_to_host_returns [OF byte_tables_law host_space_ready _ _ this, of sevens "\<lambda>_. 0"] show ?thesis
    by (auto simp: sevens_def host_space_def)
qed

lemma sevens_represented: "represents byte_tables mem sevens 7" "clear_of owned rest ms sevens"
  by (simp_all add: represents_def clear_of_def foreign_def host_bytes_def sevens_def)

lemma sevens_converted:
  assumes "register_builtin_converters byte_tables bump_rmm False [] = (Inr (), reg)"
  shows "\<exists>r ms' mem'. registry_convert ''host_table_representation'' reg sevens host_space (\<lambda>_. 0)
    = (Inr r, ms', mem')"
proof -
  have "map_of reg = map_of (builtin_converters byte_tables bump_rmm False)"
    using builtin_registered [of byte_tables bump_rmm False] assms by auto
  then have "registry_convert ''host_table_representation'' reg sevens host_space (\<lambda>_. 0)
      = convert_gpu_to_host byte_tables bump_rmm sevens host_space (\<lambda>_. 0)"
    by (simp add: registry_convert_def convert_impl_def builtin_converters_def sevens_def Let_def)
  with sevens_to_host show ?thesis by simp
qed

theorem conversion_keeps_table_witness:
  "\<exists>reg r ms' mem'. register_builtin_converters byte_tables bump_rmm False [] = (Inr (), reg)
     \<and> registry_convert ''host_table_representation'' reg sevens host_space (\<lambda>_. 0) = (Inr r, ms', mem')
     \<and> represents byte_tables mem' r 7 \<and> rep_memory_space r = memory_space_id HOST 0"
proof -
  obtain reg where reg: "register_builtin_converters byte_tables bump_rmm False [] = (Inr (), reg)"
    using builtin_registered by blast
  obtain r ms' mem' where r: "registry_convert ''host_table_representation'' reg sevens host_space (\<lambda>_. 0)
      = (Inr r, ms', mem')"
    using sevens_converted [OF reg] by blast
  have "ms_id host_space = memory_space_id HOST 0" by (simp add: host_space_def)
  with conversion_keeps_table [OF byte_tables_law host_space_ready sevens_represented reg r] reg r
  show ?thesis by auto
qed

theorem conversion_keeps_others_witness:
  "\<exists>reg r ms' mem'. register_builtin_converters byte_tables bump_rmm False [] = (Inr (), reg)
     \<and> registry_convert ''host_table_representation'' reg sevens host_space (\<lambda>_. 0) = (Inr r, ms', mem')
     \<and> represents byte_tables mem' sevens 7"
proof -
  obtain reg where reg: "register_builtin_converters byte_tables bump_rmm False [] = (Inr (), reg)"
    using builtin_registered by blast
  obtain r ms' mem' where r: "registry_convert ''host_table_representation'' reg sevens host_space (\<lambda>_. 0)
      = (Inr r, ms', mem')"
    using sevens_converted [OF reg] by blast
  from conversion_keeps_others [OF byte_tables_law host_space_ready sevens_represented reg r
      sevens_represented(1)] sevens_represented(2) reg r
  show ?thesis by blast
qed

theorem gpu_host_round_trip_witness:
  "\<exists>r ms' mem' r' ms2' mem''. convert_gpu_to_host byte_tables bump_rmm sevens host_space (\<lambda>_. 0)
       = (Inr r, ms', mem')
     \<and> convert_host_to_gpu byte_tables r host_space mem' = (Inr r', ms2', mem'')
     \<and> payload r' = gpu_table_representation 7"
proof -
  obtain r ms' mem' where r: "convert_gpu_to_host byte_tables bump_rmm sevens host_space (\<lambda>_. 0)
      = (Inr r, ms', mem')"
    using sevens_to_host by blast
  have rep: "represents byte_tables mem' r 7"
    using gpu_to_host [OF byte_tables_law host_space_ready sevens_represented(1) r] by (simp add: written_def)
  obtain ht where ht: "payload r = host_table_representation ht"
    using r by (auto simp: convert_gpu_to_host_def split: table_data.splits prod.splits sum.splits
        option.splits reserving_adaptor.splits)
  with rep have st: "stores ht mem' (snd (cudf_pack byte_tables 7))" by (simp add: represents_def)
  have "length (replicate (unat (ht_data_size ht)) (0 :: byte)) = length (snd (cudf_pack byte_tables 7))"
    using st by (simp add: stores_def)
  from stores_read [OF st this]
  have "\<exists>r' ms2' mem''. convert_host_to_gpu byte_tables r host_space mem' = (Inr r', ms2', mem'')"
    using ht by (auto simp: convert_host_to_gpu_def build_gpu_table_def byte_tables_def split: prod.splits)
  then obtain r' ms2' mem'' where b: "convert_host_to_gpu byte_tables r host_space mem' = (Inr r', ms2', mem'')"
    by blast
  have "payload sevens = gpu_table_representation 7" by (simp add: sevens_def)
  from gpu_host_round_trip [OF byte_tables_law host_space_ready this r b] r b show ?thesis by blast
qed

theorem gpu_to_host_outcome_witness:
  "\<not> over_capacity bump_rmm 20 small_host \<and>
   (\<exists>r al ht. fst (convert_gpu_to_host byte_tables bump_rmm sevens host_space (\<lambda>_. 0)) = Inr r
      \<and> fst (allocate_multiple_blocks bump_rmm 20 None small_host) = Inr (Some al)
      \<and> payload r = host_table_representation ht \<and> ht_allocation ht = al \<and> ht_data_size ht = 20
      \<and> rep_memory_space r = ms_id host_space)"
proof -
  have p: "payload sevens = gpu_table_representation 7" "reservation_allocator host_space = Host_adaptor small_host"
    by (simp_all add: sevens_def host_space_def)
  have n: "20 = (of_nat (length (snd (cudf_pack byte_tables 7))) :: u64)" by (simp add: byte_tables_def)
  obtain al h' where al: "allocate_multiple_blocks bump_rmm 20 None small_host = (Inr (Some al), h')"
    using sevens_allocates unfolding n [symmetric] by blast
  obtain r where r: "fst (convert_gpu_to_host byte_tables bump_rmm sevens host_space (\<lambda>_. 0)) = Inr r"
    using sevens_to_host by force
  from gpu_to_host_outcome [OF byte_tables_law host_space_ready p n al, of "\<lambda>_. 0"] r al show ?thesis
    by auto
qed

theorem conversion_result_type_witness:
  "\<exists>reg r ms' mem'. registry_convert ''host_table_representation'' reg sevens host_space (\<lambda>_. 0)
       = (Inr r, ms', mem')
     \<and> typeid (payload r) = ''host_table_representation'' \<and> rep_memory_space r = memory_space_id HOST 0"
proof -
  obtain reg where reg: "register_builtin_converters byte_tables bump_rmm False [] = (Inr (), reg)"
    using builtin_registered by blast
  obtain r ms' mem' where r: "registry_convert ''host_table_representation'' reg sevens host_space (\<lambda>_. 0)
      = (Inr r, ms', mem')"
    using sevens_converted [OF reg] by blast
  from conversion_result_type [OF reg r] r show ?thesis by (auto simp: host_space_def)
qed

end
