(* ===== verification/Batch_Conversion.thy ===== *)
theory Batch_Conversion
  imports Conversion Batch_Lifecycle
begin

text \<open>
  \<open>data_batch::convert_to\<close> with the registry it calls (\<open>include/data/data_batch.hpp\<close>): under the
  batch's mutex the registry converts the current data into the target space, and only then the batch
  takes the new representation and destroys the old one, which returns its host blocks to the pool of
  the space it was in. That space, \<open>src\<close>, is another one than the target.
\<close>

section \<open>Converting a batch\<close>

definition drop_representation ::
  "'t table_rep \<Rightarrow> ('g, 'h) memory_space \<Rightarrow> ('g, 'h) memory_space" where
  "drop_representation r src =
     (case (payload r, reservation_allocator src) of
        (host_table_representation ht, Host_adaptor h) \<Rightarrow>
          put_adaptor (Host_adaptor (destroy_allocation (ht_allocation ht) h)) src
      | _ \<Rightarrow> src)"

definition batch_convert_to ::
  "type_index \<Rightarrow> ('t, 'g, 'h) converter_fn registry \<Rightarrow> 't table_data data_batch \<Rightarrow>
   ('g, 'h) memory_space \<Rightarrow> ('g, 'h) memory_space \<Rightarrow> memory \<Rightarrow>
   unit outcome \<times> 't table_data data_batch \<times> ('g, 'h) memory_space \<times> ('g, 'h) memory_space \<times> memory"
where
  "batch_convert_to ty reg b src target mem =
     (let answer = (\<lambda>d. registry_convert ty reg d target mem);
          called = convert_to (\<lambda>d. fst (answer d)) b
      in case batch_data b of
           None \<Rightarrow> (fst called, fst (snd called), src, target, mem)
         | Some d \<Rightarrow>
             if processing_count b \<noteq> 0 then (fst called, fst (snd called), src, target, mem)
             else (fst called, fst (snd called),
                   if returns (fst called) then drop_representation d src else src,
                   fst (snd (answer d)), snd (snd (answer d))))"

section \<open>A conversion that throws\<close>

lemma gpu_to_host_throws:
  assumes "cudf_law c" and "pool_ready env owned rest ms"
    and "convert_gpu_to_host c env source ms mem = (Inl e, ms', mem')"
  shows "mem' = mem"
proof (cases "\<exists>t h al h'. payload source = gpu_table_representation t \<and> reservation_allocator ms = Host_adaptor h
    \<and> allocate_multiple_blocks env (of_nat (length (snd (cudf_pack c t)))) None h = (Inr (Some al), h')")
  case True
  then obtain t h al h' where "payload source = gpu_table_representation t" "reservation_allocator ms = Host_adaptor h"
    "allocate_multiple_blocks env (of_nat (length (snd (cudf_pack c t)))) None h = (Inr (Some al), h')" by blast
  from gpu_to_host_returns [OF assms(1,2) this, of mem] assms(3) show ?thesis by auto
next
  case False
  with assms(3) show ?thesis
    by (fastforce simp: convert_gpu_to_host_def
        split: table_data.splits prod.splits reserving_adaptor.splits sum.splits option.splits)
qed

lemma host_to_host_throws:
  assumes "cudf_law c" and "pool_ready env owned rest ms"
    and "represents c mem source t" and "clear_of owned rest ms source"
    and "convert_host_to_host env asserts source ms mem = (Inl e, ms', mem')"
  shows "mem' = mem"
proof (cases "\<exists>ht h al h'. payload source = host_table_representation ht \<and> reservation_allocator ms = Host_adaptor h
    \<and> allocate_multiple_blocks env (ht_data_size ht) None h = (Inr (Some al), h')")
  case True
  then obtain ht h al h' where p: "payload source = host_table_representation ht"
    "reservation_allocator ms = Host_adaptor h"
    "allocate_multiple_blocks env (ht_data_size ht) None h = (Inr (Some al), h')" by blast
  obtain m where "copy_between_blocks (ht_data_size ht) (ht_allocation ht) al (0, 0) (0, 0) 0 mem = (Inr (), m)"
    using host_to_host_copies [OF assms(1-4) p] by blast
  with p assms(5) show ?thesis by (auto simp: convert_host_to_host_def split: if_splits)
next
  case False
  with assms(5) show ?thesis
    by (fastforce simp: convert_host_to_host_def
        split: table_data.splits prod.splits reserving_adaptor.splits sum.splits option.splits if_splits)
qed

lemma to_gpu_keeps_memory:
  "convert_gpu_to_gpu c asserts source ms mem = (x, ms', mem') \<Longrightarrow> mem' = mem"
  "convert_host_to_gpu c source ms mem = (x, ms', mem') \<Longrightarrow> mem' = mem"
  by (auto simp: convert_gpu_to_gpu_def convert_host_to_gpu_def
      split: table_data.splits prod.splits sum.splits if_splits)

text \<open>Whatever makes a conversion throw, host memory is as it was.\<close>

lemma failed_conversion_keeps_memory:
  assumes "cudf_law c" and "pool_ready env owned rest ms" and "represents c mem source t"
    and "clear_of owned rest ms source" and "register_builtin_converters c env asserts [] = (Inr (), reg)"
    and "registry_convert ty reg source ms mem = (Inl e, ms', mem')"
  shows "mem' = mem"
  using assms(5,6)
proof (cases rule: registry_cases)
  case gpu_gpu
  from to_gpu_keeps_memory(1) [OF this(2)] show ?thesis .
next
  case gpu_host
  from gpu_to_host_throws [OF assms(1,2) this(2)] show ?thesis .
next
  case host_gpu
  from to_gpu_keeps_memory(2) [OF this(2)] show ?thesis .
next
  case host_host
  from host_to_host_throws [OF assms(1-4) this(2)] show ?thesis .
qed

section \<open>The batch keeps its table\<close>

text \<open>
  Property C13. Converting a batch is all or nothing. A batch with live handles is refused and
  nothing changes. Otherwise, when \<open>convert_to\<close> returns, the batch holds the same table in the type and
  the memory space asked for, and nothing else of it has changed; when it throws, for whatever
  reason, the batch is as it was and its old data still stands for the table.
\<close>

theorem batch_conversion_all_or_nothing:
  assumes "cudf_law c" and "pool_ready env owned rest ms"
    and "register_builtin_converters c env asserts [] = (Inr (), reg)"
    and "batch_data b = Some d" and "represents c mem d t" and "clear_of owned rest ms d"
    and "batch_convert_to ty reg b src ms mem = (x, b', src', ms', mem')"
  shows "(processing_count b \<noteq> 0 \<longrightarrow> \<not> returns x \<and> ms' = ms \<and> mem' = mem) \<and>
    (case x of
       Inr _ \<Rightarrow> \<exists>d'. b' = b\<lparr>batch_data := Some d'\<rparr> \<and> represents c mem' d' t
                 \<and> typeid (payload d') = ty \<and> get_memory_space b' = Some (ms_id ms)
     | Inl e \<Rightarrow> b' = b \<and> src' = src \<and> represents c mem' d t)"
proof (cases "processing_count b = 0")
  case False
  with assms(4,5,7) show ?thesis by (auto simp: batch_convert_to_def convert_to_def Let_def)
next
  case True
  obtain y ms1 mem1 where r: "registry_convert ty reg d ms mem = (y, ms1, mem1)" by (rule prod_cases3)
  show ?thesis
  proof (cases y)
    case (Inl e)
    with assms(4,7) True r have "x = Inl e" "b' = b" "src' = src" "mem' = mem1"
      by (auto simp: batch_convert_to_def convert_to_def Let_def)
    with failed_conversion_keeps_memory [OF assms(1,2,5,6,3) r [unfolded Inl]] True assms(5)
    show ?thesis by simp
  next
    case (Inr d')
    with assms(4,7) True r have "x = Inr ()" "b' = b\<lparr>batch_data := Some d'\<rparr>" "mem' = mem1"
      by (auto simp: batch_convert_to_def convert_to_def Let_def)
    moreover have "represents c mem1 d' t"
      using conversion_written [OF assms(1,2,5,6,3) r [unfolded Inr]] by (simp add: written_def)
    moreover have "typeid (payload d') = ty \<and> rep_memory_space d' = ms_id ms"
      by (rule converted_type [OF assms(3) r [unfolded Inr]])
    ultimately show ?thesis using True by (auto simp: get_memory_space_def intro!: exI [of _ d'])
  qed
qed

definition sevens_batch :: "byte table_data data_batch" where
  "sevens_batch = new_data_batch 3 (Some sevens)"

theorem batch_conversion_all_or_nothing_witness:
  "\<exists>reg b' src' ms' mem' d'.
     register_builtin_converters byte_tables bump_rmm False [] = (Inr (), reg)
     \<and> batch_convert_to ''host_table_representation'' reg sevens_batch host_space host_space (\<lambda>_. 0)
         = (Inr (), b', src', ms', mem')
     \<and> batch_data b' = Some d' \<and> represents byte_tables mem' d' 7
     \<and> get_memory_space b' = Some (memory_space_id HOST 0)"
proof -
  obtain reg where reg: "register_builtin_converters byte_tables bump_rmm False [] = (Inr (), reg)"
    using builtin_registered by blast
  obtain r ms' mem' where r: "registry_convert ''host_table_representation'' reg sevens host_space (\<lambda>_. 0)
      = (Inr r, ms', mem')"
    using sevens_converted [OF reg] by blast
  have d: "batch_data sevens_batch = Some sevens" by (simp add: sevens_batch_def new_data_batch_def)
  have run: "\<exists>b' src'. batch_convert_to ''host_table_representation'' reg sevens_batch host_space host_space (\<lambda>_. 0)
      = (Inr (), b', src', ms', mem')"
    using r by (simp add: batch_convert_to_def sevens_batch_def new_data_batch_def convert_to_def Let_def)
  then obtain b' src' where run: "batch_convert_to ''host_table_representation'' reg sevens_batch host_space host_space
      (\<lambda>_. 0) = (Inr (), b', src', ms', mem')" by blast
  from batch_conversion_all_or_nothing [OF byte_tables_law host_space_ready reg d sevens_represented run]
  obtain d' where "b' = sevens_batch\<lparr>batch_data := Some d'\<rparr>" "represents byte_tables mem' d' 7"
    "get_memory_space b' = Some (memory_space_id HOST 0)"
    by (auto simp: host_space_def)
  with reg run show ?thesis by auto
qed

end
