(* ===== verification/Table_System.thy ===== *)
theory Table_System
  imports Batch_Conversion
begin

text \<open>
  Batches at work over their memory: any number of batches with tables in any number of memory
  spaces, converted between the spaces, given new data and destroyed by any number of threads, next
  to other clients of the host resources who allocate, free, reserve and write to what they hold.
  Each step is a call under the mutex of its batch or of a host resource. Whatever happens, and
  whatever fails, every batch keeps the table it was created with or was last given.
\<close>

section \<open>What a conversion does to its target\<close>

definition rep_allocations :: "'t table_rep \<Rightarrow> multiple_blocks_allocation list" where
  "rep_allocations r =
     (case payload r of
        gpu_table_representation _ \<Rightarrow> []
      | host_table_representation ht \<Rightarrow> [ht_allocation ht])"

definition allocations_of :: "'t table_rep outcome \<Rightarrow> multiple_blocks_allocation list" where
  "allocations_of x = (case x of Inr r \<Rightarrow> rep_allocations r | Inl _ \<Rightarrow> [])"

fun is_host :: "('g, 'h) reserving_adaptor \<Rightarrow> bool" where
  "is_host (Host_adaptor _) = True"
| "is_host _ = False"

text \<open>Device memory comes from the allocator that is asked, which stays the kind of allocator it is.\<close>

definition device_law :: "('t, 'g, 'h) cudf \<Rightarrow> bool" where
  "device_law c \<longleftrightarrow>
     (\<forall>n ra. is_host (snd (device_buffer c n ra)) = is_host ra)
     \<and> (\<forall>metadata data ra. is_host (snd (cudf_table c metadata data ra)) = is_host ra)
     \<and> (\<forall>buffer ra. is_host (drop_buffer c buffer ra) = is_host ra)"

lemma device_lawD:
  "device_law c \<Longrightarrow> device_buffer c n ra = (x, ra') \<Longrightarrow> is_host ra' = is_host ra"
  "device_law c \<Longrightarrow> cudf_table c metadata data ra = (y, ra') \<Longrightarrow> is_host ra' = is_host ra"
  "device_law c \<Longrightarrow> is_host (drop_buffer c buffer ra) = is_host ra"
  unfolding device_law_def by (metis snd_conv)+

lemma put_adaptor_simps [simp]:
  "put_adaptor (reservation_allocator ms) ms = ms"
  "reservation_allocator (put_adaptor ra ms) = ra"
  "ms_id (put_adaptor ra ms) = ms_id ms"
  "put_adaptor ra (put_adaptor rb ms) = put_adaptor ra ms"
  by (simp_all add: put_adaptor_def)

definition fits :: "'u host_resource \<Rightarrow> 't table_rep \<Rightarrow> bool" where
  "fits h r \<longleftrightarrow>
     host_bytes r = {} \<or> (\<forall>al \<in> set (rep_allocations r). alloc_block_size al = host_block_size h)"

lemma fits_config: "same_config h h' \<Longrightarrow> fits h r \<Longrightarrow> fits h' r"
  by (simp add: fits_def same_config_def)

definition pool_extended ::
  "('u \<Rightarrow> (nat \<times> nat) set) \<Rightarrow> u64 list \<Rightarrow> 'u host_resource \<Rightarrow> 't table_rep outcome \<Rightarrow>
   'u host_resource \<Rightarrow> bool"
where
  "pool_extended owned rest h x h' \<longleftrightarrow>
     same_config h h' \<and> blocks_inv owned h' (live_blocks (allocations_of x) @ rest)
     \<and> (\<forall>r. x = Inr r \<longrightarrow> fits h r)"

text \<open>Both conversions to the host allocate, copy, and give the blocks back when the copy fails.\<close>

lemma copied_target:
  assumes up: "fresh_upstream env owned" and inv: "blocks_inv owned h rest"
    and run: "(x, ms', mem') =
      (case allocate_multiple_blocks env n None h of
         (Inl e, h') \<Rightarrow> (Inl e, put_adaptor (Host_adaptor h') ms, mem)
       | (Inr None, h') \<Rightarrow> (Inl err, put_adaptor (Host_adaptor h') ms, mem)
       | (Inr (Some al), h') \<Rightarrow>
           (case copied al of
              (Inl e, mem') \<Rightarrow> (Inl e, put_adaptor (Host_adaptor (destroy_allocation al h')) ms, mem')
            | (Inr (_ :: unit), mem') \<Rightarrow> (Inr (rep al), put_adaptor (Host_adaptor h') ms, mem')))"
    and rep: "\<And>al. \<exists>ht. payload (rep al) = host_table_representation ht
      \<and> ht_allocation ht = al \<and> ht_data_size ht = n"
  shows "\<exists>h'. ms' = put_adaptor (Host_adaptor h') ms \<and> pool_extended owned rest h x h'"
proof -
  obtain y h1 where al: "allocate_multiple_blocks env n None h = (y, h1)" by fastforce
  have got: "blocks_inv owned h1 (live_blocks (handed_out y) @ rest)"
    by (rule allocate_blocks_inv [OF up inv al])
  have cfg: "same_config h h1" by (rule allocate_same_config [OF al])
  show ?thesis
  proof (cases "\<exists>a. y = Inr (Some a)")
    case False
    then have "handed_out y = []" by (auto simp: handed_out_def split: sum.split option.split)
    with got cfg False run al show ?thesis
      by (cases y) (auto simp: pool_extended_def allocations_of_def live_blocks_def split: option.splits)
  next
    case True
    then obtain a where y: "y = Inr (Some a)" by blast
    obtain ht where ht: "payload (rep a) = host_table_representation ht" "ht_allocation ht = a"
      "ht_data_size ht = n" using rep by blast
    have "fits h (rep a)"
      using ht allocate_blocks_of(1) [of env n None h a h1] al y
      by (cases "n = 0") (auto simp: fits_def host_bytes_def rep_allocations_def)
    moreover have "blocks_inv owned (destroy_allocation a h1) rest"
      using blocks_inv_kept [OF pool_kept_destroy blocks_inv_drop [OF got]] .
    moreover obtain z m where "copied a = (z, m)" by fastforce
    ultimately show ?thesis
      using got cfg destroy_same_config [of h1 a] run al y ht
      by (cases z) (auto simp: pool_extended_def allocations_of_def rep_allocations_def live_blocks_def
          handed_out_def same_config_def)
  qed
qed

lemma unchanged_target:
  "blocks_inv owned h rest \<Longrightarrow> reservation_allocator ms = Host_adaptor h \<Longrightarrow>
     \<exists>h'. ms = put_adaptor (Host_adaptor h') ms \<and> pool_extended owned rest h (Inl e) h'"
  by (intro exI [of _ h])
     (simp add: pool_extended_def allocations_of_def live_blocks_def same_config_def put_adaptor_def)

lemma to_host_target:
  assumes up: "fresh_upstream env owned" and inv: "blocks_inv owned h rest"
    and h: "reservation_allocator ms = Host_adaptor h"
  shows "convert_gpu_to_host c env source ms mem = (x, ms', mem') \<Longrightarrow>
      \<exists>h'. ms' = put_adaptor (Host_adaptor h') ms \<and> pool_extended owned rest h x h'"
    and "convert_host_to_host env asserts source ms mem = (x, ms', mem') \<Longrightarrow>
      \<exists>h'. ms' = put_adaptor (Host_adaptor h') ms \<and> pool_extended owned rest h x h'"
proof -
  assume r: "convert_gpu_to_host c env source ms mem = (x, ms', mem')"
  show "\<exists>h'. ms' = put_adaptor (Host_adaptor h') ms \<and> pool_extended owned rest h x h'"
  proof (cases "payload source")
    case (host_table_representation ht)
    with r unchanged_target [OF inv h] show ?thesis by (auto simp: convert_gpu_to_host_def)
  next
    case (gpu_table_representation t)
    obtain metadata gpu_data where "cudf_pack c t = (metadata, gpu_data)" by fastforce
    with r gpu_table_representation h show ?thesis
      by (intro copied_target [OF up inv, where n = "of_nat (length gpu_data)" and mem = mem and mem' = mem'
            and err = invalid_dereference
            and copied = "\<lambda>al. copy_to_blocks gpu_data (of_nat (length gpu_data)) al (0, 0) 0 mem"
            and rep = "\<lambda>al. \<lparr>rep_memory_space = ms_id ms, payload = host_table_representation
              \<lparr>ht_allocation = al, ht_metadata = metadata, ht_data_size = of_nat (length gpu_data)\<rparr>\<rparr>"])
         (simp_all add: convert_gpu_to_host_def)
  qed
next
  assume r: "convert_host_to_host env asserts source ms mem = (x, ms', mem')"
  show "\<exists>h'. ms' = put_adaptor (Host_adaptor h') ms \<and> pool_extended owned rest h x h'"
  proof (cases "\<exists>ht. payload source = host_table_representation ht
      \<and> \<not> (asserts \<and> rep_device_id source = ms_device_id ms)")
    case False
    with r unchanged_target [OF inv h] show ?thesis
      by (auto simp: convert_host_to_host_def split: table_data.splits if_splits)
  next
    case True
    then obtain ht where "payload source = host_table_representation ht"
      "\<not> (asserts \<and> rep_device_id source = ms_device_id ms)" by blast
    with r h show ?thesis
      by (intro copied_target [OF up inv, where n = "ht_data_size ht" and mem = mem and mem' = mem'
            and err = invalid_dereference
            and copied = "\<lambda>al. copy_between_blocks (ht_data_size ht) (ht_allocation ht) al (0, 0) (0, 0) 0 mem"
            and rep = "\<lambda>al. \<lparr>rep_memory_space = ms_id ms, payload = host_table_representation
              \<lparr>ht_allocation = al, ht_metadata = ht_metadata ht, ht_data_size = ht_data_size ht\<rparr>\<rparr>"])
         (simp_all add: convert_host_to_host_def)
  qed
qed

text \<open>The built-in converters to a GPU, on a target that is not host memory.\<close>

lemma built_gpu_table:
  assumes "device_law c" and "build_gpu_table c metadata buffer ra ms = (x, ms')"
  shows "ms_id ms' = ms_id ms" and "is_host (reservation_allocator ms') = is_host ra"
    and "allocations_of x = []"
  using assms(2) device_lawD(2,3) [OF assms(1)]
  by (auto simp: build_gpu_table_def allocations_of_def rep_allocations_def split: prod.splits sum.splits)

lemma to_gpu_target:
  assumes dev: "device_law c"
  shows "convert_gpu_to_gpu c asserts source ms mem = (x, ms', mem') \<Longrightarrow>
      ms_id ms' = ms_id ms \<and> is_host (reservation_allocator ms') = is_host (reservation_allocator ms)
      \<and> allocations_of x = []"
    and "convert_host_to_gpu c source ms mem = (x, ms', mem') \<Longrightarrow>
      ms_id ms' = ms_id ms \<and> is_host (reservation_allocator ms') = is_host (reservation_allocator ms)
      \<and> allocations_of x = []"
proof -
  note keeps = built_gpu_table [OF dev] device_lawD [OF dev]
  have throws: "allocations_of (Inl e :: 'a table_rep outcome) = []" for e by (simp add: allocations_of_def)
  show "convert_gpu_to_gpu c asserts source ms mem = (x, ms', mem') \<Longrightarrow>
      ms_id ms' = ms_id ms \<and> is_host (reservation_allocator ms') = is_host (reservation_allocator ms)
      \<and> allocations_of x = []"
    by (auto simp: convert_gpu_to_gpu_def throws keeps(4,5,6)
        split: table_data.splits prod.splits if_splits sum.splits dest: keeps(1,2,3))
  show "convert_host_to_gpu c source ms mem = (x, ms', mem') \<Longrightarrow>
      ms_id ms' = ms_id ms \<and> is_host (reservation_allocator ms') = is_host (reservation_allocator ms)
      \<and> allocations_of x = []"
    by (auto simp: convert_host_to_gpu_def throws keeps(4,5,6)
        split: table_data.splits prod.splits if_splits sum.splits dest: keeps(1,2,3))
qed

lemma to_host_refused:
  assumes "\<not> is_host (reservation_allocator ms)"
  shows "convert_gpu_to_host c env source ms mem = (x, ms', mem') \<Longrightarrow> ms' = ms \<and> allocations_of x = []"
    and "convert_host_to_host env asserts source ms mem = (x, ms', mem') \<Longrightarrow> ms' = ms \<and> allocations_of x = []"
  using assms
  by (auto simp: convert_gpu_to_host_def convert_host_to_host_def allocations_of_def
      split: table_data.splits prod.splits if_splits reserving_adaptor.splits)

lemma conversion_on_host:
  assumes "fresh_upstream env owned" and "blocks_inv owned h rest"
    and "reservation_allocator ms = Host_adaptor h" and "ty \<noteq> ''gpu_table_representation''"
    and "register_builtin_converters c env asserts [] = (Inr (), reg)"
    and "registry_convert ty reg source ms mem = (x, ms', mem')"
  shows "\<exists>h'. ms' = put_adaptor (Host_adaptor h') ms \<and> pool_extended owned rest h x h'"
  using assms(5,6)
proof (cases rule: registry_cases)
  case none
  with unchanged_target [OF assms(2,3)] show ?thesis by simp
next
  case gpu_host
  from to_host_target(1) [OF assms(1-3) this(2)] show ?thesis .
next
  case host_host
  from to_host_target(2) [OF assms(1-3) this(2)] show ?thesis .
qed (use assms(4) in simp_all)

lemma conversion_on_device:
  assumes "device_law c" and "\<not> is_host (reservation_allocator ms)"
    and "register_builtin_converters c env asserts [] = (Inr (), reg)"
    and "registry_convert ty reg source ms mem = (x, ms', mem')"
  shows "ms_id ms' = ms_id ms \<and> \<not> is_host (reservation_allocator ms') \<and> allocations_of x = []"
  using assms(3,4)
proof (cases rule: registry_cases)
  case none
  with assms(2) show ?thesis by (simp add: allocations_of_def)
next
  case gpu_gpu
  from to_gpu_target(1) [OF assms(1) this(2)] assms(2) show ?thesis by simp
next
  case gpu_host
  from to_host_refused(1) [OF assms(2) this(2)] assms(2) show ?thesis by simp
next
  case host_gpu
  from to_gpu_target(2) [OF assms(1) this(2)] assms(2) show ?thesis by simp
next
  case host_host
  from to_host_refused(2) [OF assms(2) this(2)] assms(2) show ?thesis by simp
qed

section \<open>The system\<close>

text \<open>
  A state has the memory spaces, the batches each with the table it should have, what the other
  clients of each host space hold, and host memory.
\<close>

type_synonym ('g, 'h) spaces = "memory_space_id \<Rightarrow> ('g, 'h) memory_space option"

type_synonym ('t, 'g, 'h) table_state =
  "('g, 'h) spaces \<times> ('t table_data data_batch \<times> 't) list
   \<times> (memory_space_id \<Rightarrow> multiple_blocks_allocation list) \<times> memory"

definition gpu_data_of :: "memory_space_id \<Rightarrow> 't \<Rightarrow> 't table_rep" where
  "gpu_data_of k t = \<lparr>rep_memory_space = k, payload = gpu_table_representation t\<rparr>"

text \<open>The calls on a batch that concern its state and not its data.\<close>

fun leaves_data :: "'r batch_call \<Rightarrow> bool" where
  "leaves_data (Set_data _) = False"
| "leaves_data (Convert_to _) = False"
| "leaves_data Move_from = False"
| "leaves_data (Move_into _) = False"
| "leaves_data _ = True"

inductive table_step ::
  "('t, 'g, 'h) cudf \<Rightarrow> (memory_space_id \<Rightarrow> 'h rmm) \<Rightarrow> bool \<Rightarrow>
   ('t, 'g, 'h) table_state \<Rightarrow> ('t, 'g, 'h) table_state \<Rightarrow> bool"
  for c :: "('t, 'g, 'h) cudf" and env :: "memory_space_id \<Rightarrow> 'h rmm" and asserts :: bool
where
  create: "sp k = Some ms \<Longrightarrow>
     table_step c env asserts (sp, bs, ls, mem)
       (sp, (new_data_batch i (Some (gpu_data_of k t)), t) # bs, ls, mem)"
| call: "leaves_data m \<Longrightarrow>
     table_step c env asserts (sp, xs @ (b, t) # ys, ls, mem) (sp, xs @ (batch_after m b, t) # ys, ls, mem)"
| convert: "register_builtin_converters c (env k) asserts [] = (Inr (), reg) \<Longrightarrow>
     batch_data b = Some d \<Longrightarrow> rep_memory_space d \<noteq> k \<Longrightarrow>
     sp (rep_memory_space d) = Some src \<Longrightarrow> sp k = Some ms \<Longrightarrow>
     ty = ''gpu_table_representation'' \<longrightarrow> \<not> is_host (reservation_allocator ms) \<Longrightarrow>
     batch_convert_to ty reg b src ms mem = (x, b', src', ms', mem') \<Longrightarrow>
     table_step c env asserts (sp, xs @ (b, t) # ys, ls, mem)
       (sp(rep_memory_space d \<mapsto> src', k \<mapsto> ms'), xs @ (b', t) # ys, ls, mem')"
| convert_within: "register_builtin_converters c (env k) asserts [] = (Inr (), reg) \<Longrightarrow>
     batch_data b = Some d \<Longrightarrow> rep_memory_space d = k \<Longrightarrow> sp k = Some ms \<Longrightarrow>
     ty = ''gpu_table_representation'' \<longrightarrow> \<not> is_host (reservation_allocator ms) \<Longrightarrow>
     batch_convert_to ty reg b src ms mem = (x, b', src', ms', mem') \<Longrightarrow>
     table_step c env asserts (sp, xs @ (b, t) # ys, ls, mem)
       (sp(k \<mapsto> if returns x then drop_representation d ms' else ms'), xs @ (b', t) # ys, ls, mem')"
| replace: "batch_data b = Some d \<Longrightarrow> sp (rep_memory_space d) = Some src \<Longrightarrow> sp k = Some ms \<Longrightarrow>
     set_data (Some (gpu_data_of k t')) b = (x, b', cv) \<Longrightarrow>
     table_step c env asserts (sp, xs @ (b, t) # ys, ls, mem)
       (if returns x
        then (sp(rep_memory_space d \<mapsto> drop_representation d src), xs @ (b', t') # ys, ls, mem)
        else (sp, xs @ (b', t) # ys, ls, mem))"
| destroy: "batch_data b = Some d \<Longrightarrow> sp (rep_memory_space d) = Some src \<Longrightarrow>
     table_step c env asserts (sp, xs @ (b, t) # ys, ls, mem)
       (sp(rep_memory_space d \<mapsto> drop_representation d src), xs @ ys, ls, mem)"
| other_client: "sp k = Some ms \<Longrightarrow> reservation_allocator ms = Host_adaptor h \<Longrightarrow>
     host_step (env k) False (h, ls k) (h', held) \<Longrightarrow>
     table_step c env asserts (sp, bs, ls, mem)
       (sp(k \<mapsto> put_adaptor (Host_adaptor h') ms), bs, ls(k := held), mem)"
| other_write: "sp k = Some ms \<Longrightarrow> reservation_allocator ms = Host_adaptor h \<Longrightarrow>
     \<forall>q. \<not> in_blocks (unat (host_block_size h)) (live_blocks (ls k)) q \<longrightarrow> mem' q = mem q \<Longrightarrow>
     table_step c env asserts (sp, bs, ls, mem) (sp, bs, ls, mem')"
| device: "sp k = Some ms \<Longrightarrow> \<not> is_host (reservation_allocator ms) \<Longrightarrow> \<not> is_host ra \<Longrightarrow>
     table_step c env asserts (sp, bs, ls, mem) (sp(k \<mapsto> put_adaptor ra ms), bs, ls, mem)"

section \<open>The invariant\<close>

text \<open>All allocations that live in a space: those of the batches' data and those of the others.\<close>

definition held_by :: "memory_space_id \<Rightarrow> 't table_data data_batch \<Rightarrow> multiple_blocks_allocation list" where
  "held_by k b =
     (case batch_data b of
        None \<Rightarrow> []
      | Some d \<Rightarrow> if rep_memory_space d = k then rep_allocations d else [])"

definition in_space ::
  "memory_space_id \<Rightarrow> ('t table_data data_batch \<times> 't) list \<Rightarrow>
   (memory_space_id \<Rightarrow> multiple_blocks_allocation list) \<Rightarrow> multiple_blocks_allocation list"
where
  "in_space k bs ls = concat (map (\<lambda>p. held_by k (fst p)) bs) @ ls k"

definition spaces_inv ::
  "(memory_space_id \<Rightarrow> 'h \<Rightarrow> (nat \<times> nat) set) \<Rightarrow> ('g, 'h) spaces \<Rightarrow>
   ('t table_data data_batch \<times> 't) list \<Rightarrow> (memory_space_id \<Rightarrow> multiple_blocks_allocation list) \<Rightarrow> bool"
where
  "spaces_inv owned sp bs ls \<longleftrightarrow>
     (\<forall>k ms. sp k = Some ms \<longrightarrow> ms_id ms = k
        \<and> (\<forall>h. reservation_allocator ms = Host_adaptor h \<longrightarrow>
             host_bounds h \<and> blocks_inv (owned k) h (live_blocks (in_space k bs ls))))"

definition keeps_table ::
  "('t, 'g, 'h) cudf \<Rightarrow> ('g, 'h) spaces \<Rightarrow> memory \<Rightarrow> 't table_data data_batch \<times> 't \<Rightarrow> bool" where
  "keeps_table c sp mem p \<longleftrightarrow>
     (\<exists>d ms. batch_data (fst p) = Some d \<and> represents c mem d (snd p)
        \<and> sp (rep_memory_space d) = Some ms
        \<and> (host_bytes d = {} \<or> (\<exists>h. reservation_allocator ms = Host_adaptor h \<and> fits h d)))"

definition tables_inv ::
  "('t, 'g, 'h) cudf \<Rightarrow> (memory_space_id \<Rightarrow> 'h \<Rightarrow> (nat \<times> nat) set) \<Rightarrow> ('t, 'g, 'h) table_state \<Rightarrow> bool" where
  "tables_inv c owned s \<longleftrightarrow>
     (case s of (sp, bs, ls, mem) \<Rightarrow> spaces_inv owned sp bs ls \<and> (\<forall>p \<in> set bs. keeps_table c sp mem p))"

text \<open>
  Every space has an upstream of its own: it behaves as RMM documents, and no two upstreams ever hand
  out the same address.
\<close>

definition upstreams_apart ::
  "(memory_space_id \<Rightarrow> 'h rmm) \<Rightarrow> (memory_space_id \<Rightarrow> 'h \<Rightarrow> (nat \<times> nat) set) \<Rightarrow> bool" where
  "upstreams_apart env owned \<longleftrightarrow>
     (\<forall>k. align_law (env k) \<and> fresh_upstream (env k) (owned k) \<and> home (owned k) \<subseteq> {..<2 ^ 64})
     \<and> (\<forall>k l. k \<noteq> l \<longrightarrow> home (owned k) \<inter> home (owned l) = {})"

lemma home_apart:
  assumes "upstreams_apart env owned" and "x \<in> home (owned k)" and "x \<in> home (owned l)"
  shows "k = l"
proof (rule ccontr)
  assume "k \<noteq> l"
  with assms(1) have "home (owned k) \<inter> home (owned l) = {}" by (simp add: upstreams_apart_def)
  with assms(2,3) show False by blast
qed

lemma live_in_space:
  "p \<in> set bs \<Longrightarrow> batch_data (fst p) = Some d \<Longrightarrow> al \<in> set (rep_allocations d) \<Longrightarrow> b \<in> set (alloc_blocks al) \<Longrightarrow>
   b \<in> set (live_blocks (in_space (rep_memory_space d) bs ls))"
  by (force simp: live_blocks_def in_space_def held_by_def)

lemma space_ready:
  assumes "upstreams_apart env owned" and "spaces_inv owned sp bs ls" and "sp k = Some ms"
  shows "pool_ready (env k) (owned k) (live_blocks (in_space k bs ls)) ms"
  using assms by (simp add: pool_ready_def upstreams_apart_def spaces_inv_def)

text \<open>The bytes of a batch's data in host memory lie in its blocks, and those in the space's upstream.\<close>

lemma in_live_home:
  assumes "spaces_inv owned sp bs ls" and "sp k = Some ms" and "reservation_allocator ms = Host_adaptor h"
    and "in_blocks (unat (host_block_size h)) (live_blocks (in_space k bs ls)) q"
  shows "unat q \<in> home (owned k)"
proof -
  have sp: "sep (owned k) h (free_blocks h @ live_blocks (in_space k bs ls))"
    using assms(1-3) by (auto simp: spaces_inv_def blocks_inv_def)
  from assms(4) obtain b where b: "b \<in> set (live_blocks (in_space k bs ls))" "unat b \<le> unat q"
    "unat q < unat b + unat (host_block_size h)" by (auto simp: in_blocks_def)
  then have "unat q - unat b < unat (host_block_size h)" by linarith
  with separate_home [where owned = "owned k" and u = "upstream h", OF sp, of b "unat q - unat b"] b(1,2)
  show ?thesis by simp
qed

lemma table_bytes:
  assumes inv: "tables_inv c owned (sp, bs, ls, mem)"
    and p: "p \<in> set bs" "batch_data (fst p) = Some d" and q: "q \<in> host_bytes d"
  shows "\<exists>ms h. sp (rep_memory_space d) = Some ms \<and> reservation_allocator ms = Host_adaptor h
    \<and> in_blocks (unat (host_block_size h))
         (live_blocks (concat (map (\<lambda>p. held_by (rep_memory_space d) (fst p)) bs))) q
    \<and> unat q \<in> home (owned (rep_memory_space d))"
proof -
  let ?l = "rep_memory_space d"
  have keeps: "keeps_table c sp mem p" and sinv: "spaces_inv owned sp bs ls"
    using inv p(1) by (simp_all add: tables_inv_def)
  from keeps p(2) q obtain ms h where rep: "represents c mem d (snd p)" and l: "sp ?l = Some ms"
    "reservation_allocator ms = Host_adaptor h" "fits h d"
    by (auto simp: keeps_table_def)
  from q obtain ht where ht: "payload d = host_table_representation ht"
    by (auto simp: host_bytes_def split: table_data.splits)
  then have al: "rep_allocations d = [ht_allocation ht]" by (simp add: rep_allocations_def)
  with l(3) q have bs: "alloc_block_size (ht_allocation ht) = host_block_size h" by (auto simp: fits_def)
  have "held_by ?l (fst p) = [ht_allocation ht]" using p(2) al by (simp add: held_by_def)
  with p(1) have "ht_allocation ht \<in> set (concat (map (\<lambda>p. held_by ?l (fst p)) bs))"
    by (auto intro!: bexI [of _ p])
  then have "set (alloc_blocks (ht_allocation ht))
      \<subseteq> set (live_blocks (concat (map (\<lambda>p. held_by ?l (fst p)) bs)))"
    by (auto simp: live_blocks_def)
  with represents_bytes(2) [OF rep ht q] bs
  have mine: "in_blocks (unat (host_block_size h)) (live_blocks (concat (map (\<lambda>p. held_by ?l (fst p)) bs))) q"
    by (auto simp: in_blocks_def)
  then have "in_blocks (unat (host_block_size h)) (live_blocks (in_space ?l bs ls)) q"
    by (auto simp: in_blocks_def in_space_def live_blocks_def)
  from in_live_home [OF sinv l(1,2) this] mine l(1,2) show ?thesis by blast
qed

lemma table_clear:
  assumes apart: "upstreams_apart env owned" and inv: "tables_inv c owned (sp, bs, ls, mem)"
    and p: "p \<in> set bs" "batch_data (fst p) = Some d" and k: "sp k = Some ms"
  shows "clear_of (owned k) (live_blocks (in_space k bs ls)) ms d"
proof (cases "foreign (owned k) d")
  case True
  then show ?thesis by (simp add: clear_of_def)
next
  case False
  then obtain q where q: "q \<in> host_bytes d" "unat q \<in> home (owned k)" by (auto simp: foreign_def)
  note bytes = table_bytes [OF inv p q(1)]
  then have "unat q \<in> home (owned (rep_memory_space d))" by blast
  from home_apart [OF apart this q(2)] have kd: "rep_memory_space d = k" .
  from q(1) obtain ht where ht: "payload d = host_table_representation ht"
    by (auto simp: host_bytes_def split: table_data.splits)
  then have al: "ht_allocation ht \<in> set (rep_allocations d)" by (simp add: rep_allocations_def)
  have "keeps_table c sp mem p" using inv p(1) by (simp add: tables_inv_def)
  with p(2) q(1) k kd al obtain h where "reservation_allocator ms = Host_adaptor h"
    "alloc_block_size (ht_allocation ht) = host_block_size h"
    by (auto simp: keeps_table_def fits_def)
  with live_in_space [OF p al] ht kd have "beside (live_blocks (in_space k bs ls)) ms d"
    by (auto simp: beside_def)
  then show ?thesis by (simp add: clear_of_def)
qed

section \<open>Frames\<close>

definition evolves :: "('g, 'h) spaces \<Rightarrow> ('g, 'h) spaces \<Rightarrow> bool" where
  "evolves sp sp' \<longleftrightarrow>
     (\<forall>k ms. sp k = Some ms \<longrightarrow>
        (\<exists>ms'. sp' k = Some ms'
           \<and> (\<forall>h. reservation_allocator ms = Host_adaptor h \<longrightarrow>
                (\<exists>h'. reservation_allocator ms' = Host_adaptor h' \<and> same_config h h'))))"

lemma evolves_refl [simp]: "evolves sp sp"
  by (simp add: evolves_def same_config_def)

lemma evolves_update:
  assumes "sp k = Some ms"
    and "\<And>h. reservation_allocator ms = Host_adaptor h \<Longrightarrow>
      \<exists>h'. reservation_allocator ms' = Host_adaptor h' \<and> same_config h h'"
  shows "evolves sp (sp(k \<mapsto> ms'))"
  using assms by (auto simp: evolves_def same_config_def)

lemma keeps_table_frame:
  assumes "keeps_table c sp mem p" and "evolves sp sp'"
    and "\<And>d q. batch_data (fst p) = Some d \<Longrightarrow> q \<in> host_bytes d \<Longrightarrow> mem' q = mem q"
  shows "keeps_table c sp' mem' p"
proof -
  from assms(1) obtain d ms where d: "batch_data (fst p) = Some d" "represents c mem d (snd p)"
      "sp (rep_memory_space d) = Some ms"
      "host_bytes d = {} \<or> (\<exists>h. reservation_allocator ms = Host_adaptor h \<and> fits h d)"
    by (auto simp: keeps_table_def)
  have "represents c mem' d (snd p)" by (rule represents_frame [OF d(2) assms(3) [OF d(1)]])
  moreover from assms(2) d(3) obtain ms' where "sp' (rep_memory_space d) = Some ms'"
    "\<forall>h. reservation_allocator ms = Host_adaptor h \<longrightarrow>
       (\<exists>h'. reservation_allocator ms' = Host_adaptor h' \<and> same_config h h')"
    by (fastforce simp: evolves_def)
  ultimately show ?thesis using d(1,4) fits_config by (fastforce simp: keeps_table_def)
qed

lemma live_blocks_mset: "mset as = mset bs \<Longrightarrow> mset (live_blocks as) = mset (live_blocks bs)"
  by (simp add: live_blocks_def mset_concat flip: sum_mset_sum_list)

lemma spaces_inv_update:
  assumes inv: "spaces_inv owned sp bs ls" and k: "sp k = Some ms" "ms_id ms' = ms_id ms"
    and here: "\<And>h. reservation_allocator ms' = Host_adaptor h \<Longrightarrow>
      host_bounds h \<and> blocks_inv (owned k) h (live_blocks (in_space k bs' ls'))"
    and others: "\<And>l. l \<noteq> k \<Longrightarrow> mset (in_space l bs' ls') = mset (in_space l bs ls)"
  shows "spaces_inv owned (sp(k \<mapsto> ms')) bs' ls'"
  unfolding spaces_inv_def
proof (intro allI impI)
  fix l msl assume l: "(sp(k \<mapsto> ms')) l = Some msl"
  show "ms_id msl = l \<and> (\<forall>h. reservation_allocator msl = Host_adaptor h \<longrightarrow>
      host_bounds h \<and> blocks_inv (owned l) h (live_blocks (in_space l bs' ls')))"
  proof (cases "l = k")
    case True
    with l inv k here show ?thesis by (auto simp: spaces_inv_def)
  next
    case False
    from live_blocks_mset [OF others [OF False]]
    have "blocks_inv (owned l) h (live_blocks (in_space l bs ls)) \<Longrightarrow>
        blocks_inv (owned l) h (live_blocks (in_space l bs' ls'))" for h
      by (rule blocks_inv_perm [OF sym])
    with l False inv show ?thesis by (auto simp: spaces_inv_def)
  qed
qed

lemma spaces_inv_mset:
  assumes "spaces_inv owned sp bs ls" and "\<And>k. mset (in_space k bs' ls') = mset (in_space k bs ls)"
  shows "spaces_inv owned sp bs' ls'"
  using assms(1) blocks_inv_perm [OF sym [OF live_blocks_mset [OF assms(2)]]]
  by (fastforce simp: spaces_inv_def)

section \<open>The data changes hands\<close>

text \<open>
  A batch takes another representation, which somebody has held in the space it lives in, and its old
  one is left to somebody; and a representation that nobody needs any more is dropped.
\<close>

lemma data_swapped:
  assumes inv: "tables_inv c owned (sp, xs @ (b, t) # ys, ls(k := rep_allocations r @ ls k), mem)"
    and d: "batch_data b = Some d" and r: "batch_data b' = Some r" "rep_memory_space r = k"
    and keeps: "keeps_table c sp mem (b', t')"
  shows "tables_inv c owned (sp, xs @ (b', t') # ys,
      ls(rep_memory_space d := rep_allocations d @ ls (rep_memory_space d)), mem)"
proof -
  let ?l = "rep_memory_space d"
  have "spaces_inv owned sp (xs @ (b', t') # ys) (ls(?l := rep_allocations d @ ls ?l))"
    by (rule spaces_inv_mset [of owned sp "xs @ (b, t) # ys" "ls(k := rep_allocations r @ ls k)"])
       (use inv d r in \<open>auto simp: tables_inv_def in_space_def held_by_def\<close>)
  with inv keeps show ?thesis by (auto simp: tables_inv_def)
qed

lemma batch_removed:
  assumes inv: "tables_inv c owned (sp, xs @ (b, t) # ys, ls, mem)" and d: "batch_data b = Some d"
  shows "tables_inv c owned (sp, xs @ ys,
      ls(rep_memory_space d := rep_allocations d @ ls (rep_memory_space d)), mem)"
proof -
  let ?l = "rep_memory_space d"
  have "spaces_inv owned sp (xs @ ys) (ls(?l := rep_allocations d @ ls ?l))"
    by (rule spaces_inv_mset [of owned sp "xs @ (b, t) # ys" ls])
       (use inv d in \<open>auto simp: tables_inv_def in_space_def held_by_def\<close>)
  with inv show ?thesis by (auto simp: tables_inv_def)
qed

lemma data_dropped:
  assumes inv: "tables_inv c owned (sp, bs, ls(l := rep_allocations d @ ls l), mem)"
    and l: "sp l = Some src"
  shows "tables_inv c owned (sp(l \<mapsto> drop_representation d src), bs, ls, mem)"
proof -
  let ?ls = "ls(l := rep_allocations d @ ls l)" and ?src = "drop_representation d src"
  have sinv: "spaces_inv owned sp bs ?ls" using inv by (simp add: tables_inv_def)
  have evo: "\<exists>h'. reservation_allocator ?src = Host_adaptor h' \<and> same_config h h'"
    if "reservation_allocator src = Host_adaptor h" for h
    using that destroy_same_config [of h]
    by (auto simp: drop_representation_def same_config_def split: table_data.splits)
  have "spaces_inv owned (sp(l \<mapsto> ?src)) bs ls"
  proof (rule spaces_inv_update [OF sinv l])
    show "ms_id ?src = ms_id src"
      by (simp add: drop_representation_def split: table_data.splits reserving_adaptor.splits)
    fix h' assume h': "reservation_allocator ?src = Host_adaptor h'"
    then obtain h where h: "reservation_allocator src = Host_adaptor h" and "pool_kept h h'" "same_config h h'"
      using pool_kept_destroy destroy_same_config
      by (fastforce simp: drop_representation_def pool_kept_def same_config_def
          split: table_data.splits reserving_adaptor.splits)
    have pool: "host_bounds h" "blocks_inv (owned l) h (live_blocks (in_space l bs ?ls))"
      using sinv l h by (auto simp: spaces_inv_def)
    have "mset (live_blocks (in_space l bs ?ls))
        = mset (live_blocks (rep_allocations d) @ live_blocks (in_space l bs ls))"
      by (simp add: in_space_def live_blocks_def)
    from blocks_inv_perm [OF this pool(2)] have "blocks_inv (owned l) h (live_blocks (in_space l bs ls))"
      by (rule blocks_inv_drop)
    with blocks_inv_kept [OF \<open>pool_kept h h'\<close>] pool(1) \<open>same_config h h'\<close>
    show "host_bounds h' \<and> blocks_inv (owned l) h' (live_blocks (in_space l bs ls))"
      by (simp add: host_bounds_def same_config_def)
  qed (simp add: in_space_def)
  moreover have "keeps_table c (sp(l \<mapsto> ?src)) mem p" if "p \<in> set bs" for p
    using inv that evolves_update [of sp l src ?src, OF l evo]
    by (auto simp: tables_inv_def intro: keeps_table_frame)
  ultimately show ?thesis by (simp add: tables_inv_def)
qed

section \<open>A conversion in the system\<close>

lemma converted_spaces:
  assumes apart: "upstreams_apart env owned" and dev: "device_law c"
    and inv: "tables_inv c owned (sp, bs, ls, mem)" and k: "sp k = Some ms"
    and ty: "ty = ''gpu_table_representation'' \<longrightarrow> \<not> is_host (reservation_allocator ms)"
    and reg: "register_builtin_converters c (env k) asserts [] = (Inr (), reg)"
    and run: "registry_convert ty reg d ms mem = (x, ms', mem')"
  shows "spaces_inv owned (sp(k \<mapsto> ms')) bs (ls(k := allocations_of x @ ls k))" (is ?inv)
    and "evolves sp (sp(k \<mapsto> ms'))"
    and "\<And>r. x = Inr r \<Longrightarrow> host_bytes r = {}
      \<or> (\<exists>h. reservation_allocator ms' = Host_adaptor h \<and> fits h r)"
proof -
  have sinv: "spaces_inv owned sp bs ls" using inv by (simp add: tables_inv_def)
  have "?inv \<and> evolves sp (sp(k \<mapsto> ms')) \<and> (\<forall>r. x = Inr r \<longrightarrow> host_bytes r = {}
      \<or> (\<exists>h. reservation_allocator ms' = Host_adaptor h \<and> fits h r))"
  proof (cases "is_host (reservation_allocator ms)")
    case True
    then obtain h where Host_adaptor: "reservation_allocator ms = Host_adaptor h"
      by (cases "reservation_allocator ms") auto
    let ?rest = "live_blocks (in_space k bs ls)"
    have pool: "host_bounds h" "blocks_inv (owned k) h ?rest"
      using sinv k Host_adaptor by (auto simp: spaces_inv_def)
    have up: "fresh_upstream (env k) (owned k)" using apart by (simp add: upstreams_apart_def)
    from ty Host_adaptor have "ty \<noteq> ''gpu_table_representation''" by auto
    from conversion_on_host [OF up pool(2) Host_adaptor this reg run] obtain h' where
      h': "ms' = put_adaptor (Host_adaptor h') ms" "same_config h h'"
        "blocks_inv (owned k) h' (live_blocks (allocations_of x) @ ?rest)" "\<forall>r. x = Inr r \<longrightarrow> fits h r"
      by (auto simp: pool_extended_def)
    have "mset (live_blocks (allocations_of x) @ ?rest)
        = mset (live_blocks (in_space k bs (ls(k := allocations_of x @ ls k))))"
      by (simp add: in_space_def live_blocks_def)
    note blocks_inv_perm [OF this h'(3)]
    then have ?inv
      using h' pool(1) by (intro spaces_inv_update [OF sinv k])
        (auto simp: in_space_def host_bounds_def same_config_def)
    moreover have "evolves sp (sp(k \<mapsto> ms'))"
      using h'(1,2) Host_adaptor by (intro evolves_update [of sp k ms, OF k]) simp
    ultimately show ?thesis using h' fits_config by auto
  next
    case dv: False
    note to = conversion_on_device [OF dev dv reg run]
    then have none: "reservation_allocator ms' \<noteq> Host_adaptor h" for h by (cases "reservation_allocator ms'") auto
    have ?inv using to none by (intro spaces_inv_update [OF sinv k]) (auto simp: in_space_def)
    moreover have "host_bytes r = {}" if "x = Inr r" for r
      using to that by (auto simp: allocations_of_def rep_allocations_def host_bytes_def split: table_data.splits)
    moreover have "evolves sp (sp(k \<mapsto> ms'))"
      by (rule evolves_update [of sp k ms, OF k]) (use dv in auto)
    ultimately show ?thesis by blast
  qed
  then show ?inv "evolves sp (sp(k \<mapsto> ms'))" "\<And>r. x = Inr r \<Longrightarrow> host_bytes r = {}
      \<or> (\<exists>h. reservation_allocator ms' = Host_adaptor h \<and> fits h r)" by blast+
qed

lemma converted_tables:
  assumes law: "cudf_law c" and apart: "upstreams_apart env owned" and dev: "device_law c"
    and inv: "tables_inv c owned (sp, bs, ls, mem)" and k: "sp k = Some ms"
    and p: "p \<in> set bs" "batch_data (fst p) = Some d"
    and ty: "ty = ''gpu_table_representation'' \<longrightarrow> \<not> is_host (reservation_allocator ms)"
    and reg: "register_builtin_converters c (env k) asserts [] = (Inr (), reg)"
    and run: "registry_convert ty reg d ms mem = (x, ms', mem')"
  shows "tables_inv c owned (sp(k \<mapsto> ms'), bs, ls(k := allocations_of x @ ls k), mem')"
    and "x = Inr r \<Longrightarrow> batch_data b' = Some r \<Longrightarrow>
      rep_memory_space r = k \<and> keeps_table c (sp(k \<mapsto> ms')) mem' (b', snd p)"
proof -
  note spaces = converted_spaces [OF apart dev inv k ty reg run]
  have sinv: "spaces_inv owned sp bs ls" and all: "\<And>p. p \<in> set bs \<Longrightarrow> keeps_table c sp mem p"
    using inv by (simp_all add: tables_inv_def)
  have rep: "represents c mem d (snd p)" using all [OF p(1)] p(2) by (auto simp: keeps_table_def)
  note ready = space_ready [OF apart sinv k]
  note clear = table_clear [OF apart inv p k]
  have same: "mem' q = mem q" if p2: "p2 \<in> set bs" "batch_data (fst p2) = Some d2" "q \<in> host_bytes d2" for p2 d2 q
  proof (cases x)
    case (Inl e)
    from failed_conversion_keeps_memory [OF law ready rep clear reg run [unfolded Inl]] show ?thesis by simp
  next
    case (Inr r)
    note w = conversion_written [OF law ready rep clear reg run [unfolded Inr]]
    have "represents c mem d2 (snd p2)" using all [OF p2(1)] p2(2) by (auto simp: keeps_table_def)
    from written_keeps(2) [OF w table_clear [OF apart inv p2(1,2) k] this p2(3)] show ?thesis .
  qed
  have "keeps_table c (sp(k \<mapsto> ms')) mem' p2" if "p2 \<in> set bs" for p2
    by (rule keeps_table_frame [OF all [OF that] spaces(2) same [OF that]])
  with spaces(1) show "tables_inv c owned (sp(k \<mapsto> ms'), bs, ls(k := allocations_of x @ ls k), mem')"
    by (simp add: tables_inv_def)
  assume x: "x = Inr r" and b': "batch_data b' = Some r"
  have "represents c mem' r (snd p)"
    using conversion_written [OF law ready rep clear reg run [unfolded x]] by (simp add: written_def)
  moreover have "rep_memory_space r = k"
    using converted_type [OF reg run [unfolded x]] sinv k by (simp add: spaces_inv_def)
  ultimately show "rep_memory_space r = k \<and> keeps_table c (sp(k \<mapsto> ms')) mem' (b', snd p)"
    using spaces(3) [OF x] b' by (auto simp: keeps_table_def)
qed

text \<open>\<open>convert_to\<close> is refused, or throws, or changes the data.\<close>

lemma batch_convert_cases:
  assumes "batch_data b = Some d" and "batch_convert_to ty reg b src ms mem = (x, b', src', ms', mem')"
  obtains (refused) e where "x = Inl e" "b' = b" "src' = src" "ms' = ms" "mem' = mem"
    | (threw) e where "registry_convert ty reg d ms mem = (Inl e, ms', mem')" "x = Inl e" "b' = b" "src' = src"
    | (converted) r where "registry_convert ty reg d ms mem = (Inr r, ms', mem')" "x = Inr ()"
        "b' = b\<lparr>batch_data := Some r\<rparr>" "src' = drop_representation d src"
proof -
  obtain y ms1 mem1 where r: "registry_convert ty reg d ms mem = (y, ms1, mem1)" by (rule prod_cases3)
  show thesis
  proof (cases "processing_count b = 0")
    case False
    with assms refused show thesis by (auto simp: batch_convert_to_def convert_to_def Let_def)
  next
    case True
    with assms r threw converted show thesis
      by (cases y) (auto simp: batch_convert_to_def convert_to_def Let_def)
  qed
qed

section \<open>Every step\<close>

lemma call_leaves_data: "leaves_data m \<Longrightarrow> batch_data (batch_after m b) = batch_data b"
  by (cases m)
     (auto simp: batch_ops try_to_create_task_def try_to_cancel_task_def try_to_lock_for_processing_def
       try_to_lock_for_in_transit_def try_to_release_in_transit_def decrement_processing_count_def
       set_state_change_cv_def Let_def split: option.splits if_splits)

lemma new_gpu_data:
  assumes "sp k = Some ms" and "batch_data b = Some (gpu_data_of k t)"
  shows "keeps_table c sp mem (b, t)"
  using assms by (simp add: keeps_table_def gpu_data_of_def represents_def host_bytes_def)

lemma gpu_data_held [simp]: "rep_allocations (gpu_data_of k t) = []" "rep_memory_space (gpu_data_of k t) = k"
  by (simp_all add: gpu_data_of_def rep_allocations_def)

lemma converted_between:
  assumes law: "cudf_law c" and apart: "upstreams_apart env owned" and dev: "device_law c"
    and inv: "tables_inv c owned (sp, xs @ (b, t) # ys, ls, mem)"
    and reg: "register_builtin_converters c (env k) asserts [] = (Inr (), reg)"
    and d: "batch_data b = Some d" and k: "sp k = Some ms"
    and ty: "ty = ''gpu_table_representation'' \<longrightarrow> \<not> is_host (reservation_allocator ms)"
    and run: "registry_convert ty reg d ms mem = (Inr r, ms', mem')"
    and l: "(sp(k \<mapsto> ms')) (rep_memory_space d) = Some src"
  shows "tables_inv c owned (sp(k \<mapsto> ms', rep_memory_space d \<mapsto> drop_representation d src),
      xs @ (b\<lparr>batch_data := Some r\<rparr>, t) # ys, ls, mem')"
proof -
  have p: "(b, t) \<in> set (xs @ (b, t) # ys)" "batch_data (fst (b, t)) = Some d" using d by simp_all
  note new = converted_tables [OF law apart dev inv k p ty reg run]
  have data: "batch_data (b\<lparr>batch_data := Some r\<rparr>) = Some r" by simp
  note table = new(2) [OF refl data, simplified]
  from new(1) have "tables_inv c owned (sp(k \<mapsto> ms'), xs @ (b, t) # ys, ls(k := rep_allocations r @ ls k), mem')"
    by (simp add: allocations_of_def)
  from data_dropped [OF data_swapped [OF this d data conjunct1 [OF table] conjunct2 [OF table]] l]
  show ?thesis .
qed

lemma threw_between:
  assumes law: "cudf_law c" and apart: "upstreams_apart env owned" and dev: "device_law c"
    and inv: "tables_inv c owned (sp, xs @ (b, t) # ys, ls, mem)"
    and reg: "register_builtin_converters c (env k) asserts [] = (Inr (), reg)"
    and d: "batch_data b = Some d" and k: "sp k = Some ms"
    and ty: "ty = ''gpu_table_representation'' \<longrightarrow> \<not> is_host (reservation_allocator ms)"
    and run: "registry_convert ty reg d ms mem = (Inl e, ms', mem')"
  shows "tables_inv c owned (sp(k \<mapsto> ms'), xs @ (b, t) # ys, ls, mem')"
proof -
  have p: "(b, t) \<in> set (xs @ (b, t) # ys)" "batch_data (fst (b, t)) = Some d" using d by simp_all
  from converted_tables(1) [OF law apart dev inv k p ty reg run] show ?thesis
    by (simp add: allocations_of_def)
qed

lemma other_client_inv:
  assumes apart: "upstreams_apart env owned" and inv: "tables_inv c owned (sp, bs, ls, mem)"
    and k: "sp k = Some ms" "reservation_allocator ms = Host_adaptor h"
    and run: "host_step (env k) False (h, ls k) (h', held)"
  shows "tables_inv c owned (sp(k \<mapsto> put_adaptor (Host_adaptor h') ms), bs, ls(k := held), mem)"
proof -
  let ?mine = "concat (map (\<lambda>p. held_by k (fst p)) bs)"
  have sinv: "spaces_inv owned sp bs ls" using inv by (simp add: tables_inv_def)
  then have pool: "host_bounds h" "blocks_inv (owned k) h (live_blocks (in_space k bs ls))"
    using k by (auto simp: spaces_inv_def)
  have up: "fresh_upstream (env k) (owned k)" using apart by (simp add: upstreams_apart_def)
  have m: "mset (live_blocks (in_space k bs l)) = mset (live_blocks (l k) @ live_blocks ?mine)" for l
    by (simp add: in_space_def live_blocks_def)
  from step_blocks_inv [OF run up blocks_inv_perm [OF m pool(2)]]
  have held: "blocks_inv (owned k) h' (live_blocks held @ live_blocks ?mine)" .
  have "blocks_inv (owned k) h' (live_blocks (in_space k bs (ls(k := held))))"
    by (rule blocks_inv_perm [OF _ held]) (simp add: m)
  moreover have cfg: "same_config h h'" by (rule step_same_config [OF run])
  ultimately have "spaces_inv owned (sp(k \<mapsto> put_adaptor (Host_adaptor h') ms)) bs (ls(k := held))"
    using pool(1)
    by (intro spaces_inv_update [OF sinv k(1)]) (auto simp: in_space_def host_bounds_def same_config_def)
  moreover have "evolves sp (sp(k \<mapsto> put_adaptor (Host_adaptor h') ms))"
    using k(2) cfg by (intro evolves_update [of sp k ms, OF k(1)]) simp
  ultimately show ?thesis using inv keeps_table_frame by (fastforce simp: tables_inv_def)
qed

lemma other_write_inv:
  assumes apart: "upstreams_apart env owned" and inv: "tables_inv c owned (sp, bs, ls, mem)"
    and k: "sp k = Some ms" "reservation_allocator ms = Host_adaptor h"
    and run: "\<forall>q. \<not> in_blocks (unat (host_block_size h)) (live_blocks (ls k)) q \<longrightarrow> mem' q = mem q"
  shows "tables_inv c owned (sp, bs, ls, mem')"
proof -
  have sinv: "spaces_inv owned sp bs ls" using inv by (simp add: tables_inv_def)
  have same: "mem' q = mem q" if p: "p \<in> set bs" "batch_data (fst p) = Some d" and q: "q \<in> host_bytes d" for p d q
  proof -
    let ?l = "rep_memory_space d" and ?mine = "\<lambda>l. concat (map (\<lambda>p. held_by l (fst p)) bs)"
    from table_bytes [OF inv p q] obtain msl hl where l: "sp ?l = Some msl"
        "reservation_allocator msl = Host_adaptor hl"
        "in_blocks (unat (host_block_size hl)) (live_blocks (?mine ?l)) q" "unat q \<in> home (owned ?l)" by blast
    have "\<not> in_blocks (unat (host_block_size h)) (live_blocks (ls k)) q"
    proof
      assume w: "in_blocks (unat (host_block_size h)) (live_blocks (ls k)) q"
      then have "in_blocks (unat (host_block_size h)) (live_blocks (in_space k bs ls)) q"
        by (auto simp: in_blocks_def in_space_def live_blocks_def)
      with in_live_home [OF sinv k] have "unat q \<in> home (owned k)" by blast
      from home_apart [OF apart l(4) this] have kl: "?l = k" .
      then have "hl = h" using l(1,2) k by simp
      have "sep (owned k) h ((free_blocks h @ live_blocks (?mine k)) @ live_blocks (ls k))"
        using sinv k by (auto simp: spaces_inv_def blocks_inv_def in_space_def live_blocks_def)
      note away = separate_apart [OF this]
      from l(3) w kl \<open>hl = h\<close> obtain b b' where "b \<in> set (live_blocks (?mine k))" "b' \<in> set (live_blocks (ls k))"
        "unat b \<le> unat q" "unat q < unat b + unat (host_block_size h)"
        "unat b' \<le> unat q" "unat q < unat b' + unat (host_block_size h)" by (auto simp: in_blocks_def)
      with away [of b b'] show False by (simp add: apart_def)
    qed
    with run show ?thesis by blast
  qed
  have "keeps_table c sp mem' p" if p: "p \<in> set bs" for p
  proof (rule keeps_table_frame [OF _ evolves_refl])
    show "keeps_table c sp mem p" using inv p by (simp add: tables_inv_def)
    show "\<And>d q. batch_data (fst p) = Some d \<Longrightarrow> q \<in> host_bytes d \<Longrightarrow> mem' q = mem q"
      by (rule same [OF p])
  qed
  with sinv show ?thesis by (simp add: tables_inv_def)
qed

lemma created_inv:
  assumes inv: "tables_inv c owned (sp, bs, ls, mem)" and k: "sp k = Some ms"
  shows "tables_inv c owned (sp, (new_data_batch i (Some (gpu_data_of k t)), t) # bs, ls, mem)"
proof -
  have "spaces_inv owned sp ((new_data_batch i (Some (gpu_data_of k t)), t) # bs) ls"
    by (rule spaces_inv_mset [of owned sp bs ls])
       (use inv in \<open>auto simp: tables_inv_def in_space_def held_by_def new_data_batch_def\<close>)
  moreover have "keeps_table c sp mem (new_data_batch i (Some (gpu_data_of k t)), t)"
    by (rule new_gpu_data [of sp k ms, OF k]) (simp add: new_data_batch_def)
  ultimately show ?thesis using inv by (simp add: tables_inv_def)
qed

lemma called_inv:
  assumes inv: "tables_inv c owned (sp, xs @ (b, t) # ys, ls, mem)" and m: "leaves_data m"
  shows "tables_inv c owned (sp, xs @ (batch_after m b, t) # ys, ls, mem)"
proof -
  have "spaces_inv owned sp (xs @ (batch_after m b, t) # ys) ls"
    by (rule spaces_inv_mset [of owned sp "xs @ (b, t) # ys" ls])
       (use inv m in \<open>auto simp: tables_inv_def in_space_def held_by_def call_leaves_data\<close>)
  with inv m show ?thesis by (auto simp: tables_inv_def keeps_table_def call_leaves_data)
qed

lemma replaced_inv:
  assumes inv: "tables_inv c owned (sp, xs @ (b, t) # ys, ls, mem)"
    and d: "batch_data b = Some d" and l: "sp (rep_memory_space d) = Some src" and k: "sp k = Some ms"
    and run: "set_data (Some (gpu_data_of k t')) b = (x, b', cv)" and x: "returns x"
  shows "tables_inv c owned
    (sp(rep_memory_space d \<mapsto> drop_representation d src), xs @ (b', t') # ys, ls, mem)"
proof -
  have b': "batch_data b' = Some (gpu_data_of k t')"
    using run x by (auto simp: set_data_def split: if_splits)
  have "tables_inv c owned (sp, xs @ (b, t) # ys, ls(k := rep_allocations (gpu_data_of k t') @ ls k), mem)"
    using inv by simp
  from data_dropped [OF data_swapped [OF this d b' _ new_gpu_data [of sp k ms, OF k b']] l]
  show ?thesis by simp
qed

lemma device_inv:
  assumes inv: "tables_inv c owned (sp, bs, ls, mem)" and k: "sp k = Some ms"
    and dev: "\<not> is_host (reservation_allocator ms)" "\<not> is_host ra"
  shows "tables_inv c owned (sp(k \<mapsto> put_adaptor ra ms), bs, ls, mem)"
proof -
  have sinv: "spaces_inv owned sp bs ls" using inv by (simp add: tables_inv_def)
  have "spaces_inv owned (sp(k \<mapsto> put_adaptor ra ms)) bs ls"
    using dev by (intro spaces_inv_update [OF sinv k]) auto
  moreover have "evolves sp (sp(k \<mapsto> put_adaptor ra ms))"
    by (rule evolves_update [of sp k ms, OF k]) (use dev in auto)
  ultimately show ?thesis using inv keeps_table_frame by (fastforce simp: tables_inv_def)
qed

text \<open>\<open>convert_to\<close> with the target and the space of the old data, which may be one space.\<close>

lemma converted_inv:
  assumes law: "cudf_law c" and dev: "device_law c" and apart: "upstreams_apart env owned"
    and inv: "tables_inv c owned (sp, xs @ (b, t) # ys, ls, mem)"
    and reg: "register_builtin_converters c (env k) asserts [] = (Inr (), reg)"
    and d: "batch_data b = Some d" and k: "sp k = Some ms"
    and ty: "ty = ''gpu_table_representation'' \<longrightarrow> \<not> is_host (reservation_allocator ms)"
    and run: "batch_convert_to ty reg b src0 ms mem = (x, b', src', ms', mem')"
    and l: "(sp(k \<mapsto> ms')) (rep_memory_space d) = Some src"
  shows "tables_inv c owned
    (if returns x then sp(k \<mapsto> ms', rep_memory_space d \<mapsto> drop_representation d src) else sp(k \<mapsto> ms'),
     xs @ (b', t) # ys, ls, mem')"
  using d run
proof (cases rule: batch_convert_cases)
  case refused
  have "sp(k \<mapsto> ms) = sp" using k by (simp add: fun_upd_idem)
  with inv refused show ?thesis by simp
next
  case (threw e)
  with threw_between [OF law apart dev inv reg d k ty threw(1)] show ?thesis by simp
next
  case (converted r)
  from converted_between [OF law apart dev inv reg d k ty converted(1) l] converted show ?thesis by simp
qed

lemma table_step_inv:
  assumes law: "cudf_law c" and dev: "device_law c" and apart: "upstreams_apart env owned"
    and run: "table_step c env asserts s s'" and inv: "tables_inv c owned s"
  shows "tables_inv c owned s'"
  using run inv
proof (induction rule: table_step.induct)
  case (create sp k ms bs ls mem i t)
  from created_inv [OF create(2,1)] show ?case .
next
  case (call m sp xs b t ys ls mem)
  from called_inv [OF call(2,1)] show ?case .
next
  case (convert k reg b d sp src ms ty mem x b' src' ms' mem' xs t ys ls)
  let ?l = "rep_memory_space d"
  have src: "(sp(k \<mapsto> ms')) ?l = Some src" and same: "sp(?l \<mapsto> src) = sp"
    using convert(3,4) by (simp_all add: fun_upd_idem)
  have "src' = (if returns x then drop_representation d src else src)"
    by (rule batch_convert_cases [OF convert(2,7)]) simp_all
  with converted_inv [OF law dev apart convert(8,1,2,5,6,7) src] convert(3) same show ?case
    by (cases "returns x") (simp_all add: fun_upd_twist)
next
  case (convert_within k reg b d sp ms ty src mem x b' src' ms' mem' xs t ys ls)
  have src: "(sp(k \<mapsto> ms')) (rep_memory_space d) = Some ms'" using convert_within(3) by simp
  from converted_inv [OF law dev apart convert_within(7,1,2,4,5,6) src] convert_within(3) show ?case
    by (cases "returns x") simp_all
next
  case (replace b d sp src k ms t' x b' cv xs t ys ls mem)
  show ?case
  proof (cases "returns x")
    case True
    with replaced_inv [OF replace(5,1,2,3,4)] show ?thesis by simp
  next
    case False
    with replace(4) have "b' = b" by (auto simp: set_data_def split: if_splits)
    with replace(5) False show ?thesis by simp
  qed
next
  case (destroy b d sp src xs t ys ls mem)
  from data_dropped [OF batch_removed [OF destroy(3,1)] destroy(2)] show ?case .
next
  case (other_client sp k ms h ls h' held bs mem)
  from other_client_inv [OF apart other_client(4,1,2,3)] show ?case .
next
  case (other_write sp k ms h ls mem' mem bs)
  from other_write_inv [OF apart other_write(4,1,2,3)] show ?case .
next
  case (device sp k ms ra bs ls mem)
  from device_inv [OF device(4,1,2,3)] show ?case .
qed

text \<open>
  Property C5. No table is ever lost. In every run over any number of memory spaces, in which batches
  are created, locked, released, converted to any type in any space, given new data and destroyed in
  any order, while other clients allocate, free and reserve host memory and write to what they hold,
  every batch has data in a space of the system and that data stands for the table the batch was
  created with or last given: in host memory its bytes, spread over its blocks, are the packed table.
  That holds also after conversions that were refused or threw half-way, for lack of capacity, of
  upstream memory, or in the device's allocator.
\<close>

theorem batches_keep_tables:
  assumes "cudf_law c" and "device_law c" and "upstreams_apart env owned"
    and "\<And>k ms. sp0 k = Some ms \<Longrightarrow> ms_id ms = k \<and> pool_ready (env k) (owned k) [] ms"
    and "(table_step c env asserts)\<^sup>*\<^sup>* (sp0, [], \<lambda>_. [], mem0) (sp, bs, ls, mem)"
    and "(b, t) \<in> set bs"
  shows "\<exists>d ms. batch_data b = Some d \<and> sp (rep_memory_space d) = Some ms \<and> represents c mem d t"
proof -
  have start: "tables_inv c owned (sp0, [], \<lambda>_. [], mem0)"
    using assms(4) by (auto simp: tables_inv_def spaces_inv_def in_space_def live_blocks_def pool_ready_def)
  from assms(5) have "tables_inv c owned (sp, bs, ls, mem)"
    by (induction rule: rtranclp_induct) (rule start, rule table_step_inv [OF assms(1-3)])
  with assms(6) show ?thesis by (fastforce simp: tables_inv_def keeps_table_def)
qed

section \<open>Two hosts and a GPU\<close>

definition far_rmm :: "nat rmm" where
  "far_rmm =
     bump_rmm\<lparr>up_allocate :=
       (\<lambda>n u. if u + unat n \<le> 2 ^ 62 then (Some (2 ^ 62 + of_nat u), u + unat n) else (None, u))\<rparr>"

definition no_rmm :: "nat rmm" where
  "no_rmm = bump_rmm\<lparr>up_allocate := (\<lambda>n u. (None, u))\<rparr>"

definition upstream_of :: "memory_space_id \<Rightarrow> nat rmm" where
  "upstream_of k =
     (if k = memory_space_id HOST 0 then bump_rmm
      else if k = memory_space_id HOST 1 then far_rmm else no_rmm)"

definition regions_of :: "memory_space_id \<Rightarrow> nat \<Rightarrow> (nat \<times> nat) set" where
  "regions_of k u =
     (if k = memory_space_id HOST 0 then capped u
      else if k = memory_space_id HOST 1 then {(q, m). 2 ^ 62 \<le> q \<and> q + m \<le> 2 ^ 62 + u \<and> q + m \<le> 2 ^ 63}
      else {})"

definition gpu_space :: "(nat, nat) memory_space" where
  "gpu_space =
     \<lparr>ms_id = memory_space_id GPU 0, ms_capacity = 4096, ms_memory_limit = 4096,
      start_downgrading_memory_threshold = 4096, stop_downgrading_memory_threshold = 2048,
      ms_channel = new_channel,
      reservation_allocator = Gpu_adaptor (new_device_adaptor (memory_space_id GPU 0) 0 4096 4096 None None PER_STREAM),
      has_stream_pool = True\<rparr>"

definition far_space :: "(nat, nat) memory_space" where
  "far_space =
     host_space\<lparr>ms_id := memory_space_id HOST 1,
       reservation_allocator := Host_adaptor (small_host\<lparr>host_space_id := memory_space_id HOST 1\<rparr>)\<rparr>"

definition two_hosts :: "(nat, nat) spaces" where
  "two_hosts =
     [memory_space_id GPU 0 \<mapsto> gpu_space, memory_space_id HOST 0 \<mapsto> host_space,
      memory_space_id HOST 1 \<mapsto> far_space]"

lemma far_fresh: "fresh_upstream far_rmm (regions_of (memory_space_id HOST 1))"
proof -
  have small: "unat (2 ^ 62 + of_nat u :: u64) = 2 ^ 62 + u" if "u \<le> 2 ^ 62" for u
  proof -
    have "unat (of_nat u :: u64) = u" using that by (simp add: unat_of_nat)
    then show ?thesis using that by (simp add: unat_word_ariths)
  qed
  show ?thesis
    by (auto simp: fresh_upstream_def far_rmm_def regions_of_def small [simplified] split: if_splits)
qed

lemma two_hosts_apart: "upstreams_apart upstream_of regions_of"
proof -
  have "align_law far_rmm" "align_law no_rmm"
    using bump_align by (simp_all add: align_law_def far_rmm_def no_rmm_def)
  then have "align_law (upstream_of k)" for k using bump_align by (simp add: upstream_of_def)
  moreover have "fresh_upstream (upstream_of k) (regions_of k)" for k
  proof -
    have "fresh_upstream no_rmm (regions_of k)" by (auto simp: fresh_upstream_def no_rmm_def)
    moreover have "regions_of (memory_space_id HOST 0) = capped" by (rule ext) (simp add: regions_of_def)
    then have "fresh_upstream bump_rmm (regions_of (memory_space_id HOST 0))"
      using host_space_ready by (simp add: pool_ready_def)
    ultimately show ?thesis using far_fresh by (simp add: upstream_of_def)
  qed
  moreover have "home (regions_of k) \<subseteq> {..<2 ^ 64}" for k
    by (auto simp: home_def regions_of_def capped_def split: if_splits)
  moreover have "home (regions_of k) \<inter> home (regions_of l) = {}" if "k \<noteq> l" for k l
    using that by (auto simp: home_def regions_of_def capped_def split: if_splits)
  ultimately show ?thesis by (simp add: upstreams_apart_def)
qed

lemma two_hosts_ready:
  assumes "two_hosts k = Some ms"
  shows "ms_id ms = k \<and> pool_ready (upstream_of k) (regions_of k) [] ms"
proof -
  have "blocks_inv (regions_of l) h [] \<and> host_bounds h"
    if "h = small_host \<or> h = small_host\<lparr>host_space_id := memory_space_id HOST 1\<rparr>" for l h
    using that small_host_new
    by (auto simp: blocks_inv_def sane_pool_def separate_def small_defs new_state_def host_bounds_def)
  with assms two_hosts_apart show ?thesis
    by (auto simp: two_hosts_def gpu_space_def host_space_def far_space_def pool_ready_def upstreams_apart_def
        split: if_splits)
qed

theorem batches_keep_tables_witness:
  "\<exists>sp b mem d. (table_step byte_tables upstream_of False)\<^sup>*\<^sup>*
       (two_hosts, [], \<lambda>_. [], \<lambda>_. 0) (sp, [(b, 7)], \<lambda>_. [], mem)
     \<and> batch_data b = Some d \<and> typeid (payload d) = ''host_table_representation''
     \<and> represents byte_tables mem d 7"
proof -
  let ?s = "two_hosts" and ?b = "new_data_batch 3 (Some sevens)"
  obtain reg where reg: "register_builtin_converters byte_tables bump_rmm False [] = (Inr (), reg)"
    using builtin_registered by blast
  obtain r ms' mem' where r: "registry_convert ''host_table_representation'' reg sevens host_space (\<lambda>_. 0)
      = (Inr r, ms', mem')"
    using sevens_converted [OF reg] by blast
  have s: "sevens = gpu_data_of (memory_space_id GPU 0) 7" by (simp add: sevens_def gpu_data_of_def)
  have gpu: "?s (memory_space_id GPU 0) = Some gpu_space" and host: "?s (memory_space_id HOST 0) = Some host_space"
    by (simp_all add: two_hosts_def)
  have first: "table_step byte_tables upstream_of False (?s, [], \<lambda>_. [], \<lambda>_. 0) (?s, [(?b, 7)], \<lambda>_. [], \<lambda>_. 0)"
    unfolding s by (rule table_step.create [where sp = two_hosts and k = "memory_space_id GPU 0", OF gpu])
  let ?b' = "?b\<lparr>batch_data := Some r\<rparr>"
  have run: "batch_convert_to ''host_table_representation'' reg ?b gpu_space host_space (\<lambda>_. 0)
      = (Inr (), ?b', gpu_space, ms', mem')"
    using r by (simp add: batch_convert_to_def new_data_batch_def convert_to_def Let_def drop_representation_def
        sevens_def)
  let ?s' = "?s(memory_space_id GPU 0 \<mapsto> gpu_space, memory_space_id HOST 0 \<mapsto> ms')"
  have "table_step byte_tables upstream_of False (?s, [] @ (?b, 7) # [], \<lambda>_. [], \<lambda>_. 0)
      (?s(rep_memory_space sevens \<mapsto> gpu_space, memory_space_id HOST 0 \<mapsto> ms'), [] @ (?b', 7) # [], \<lambda>_. [], mem')"
    by (rule table_step.convert [where sp = two_hosts and k = "memory_space_id HOST 0" and ms = host_space,
          OF _ _ _ _ _ _ run])
       (use reg gpu host in \<open>simp_all add: upstream_of_def new_data_batch_def sevens_def\<close>)
  then have "table_step byte_tables upstream_of False (?s, [(?b, 7)], \<lambda>_. [], \<lambda>_. 0) (?s', [(?b', 7)], \<lambda>_. [], mem')"
    by (simp add: sevens_def)
  with first have steps: "(table_step byte_tables upstream_of False)\<^sup>*\<^sup>*
      (?s, [], \<lambda>_. [], \<lambda>_. 0) (?s', [(?b', 7)], \<lambda>_. [], mem')" by simp
  have dev: "device_law byte_tables" by (simp add: device_law_def byte_tables_def)
  have "(?b', 7) \<in> set [(?b', 7)]" by simp
  from batches_keep_tables [OF byte_tables_law dev two_hosts_apart two_hosts_ready steps this]
  have "represents byte_tables mem' r 7" by simp
  moreover have "typeid (payload r) = ''host_table_representation''"
    using converted_type [OF reg r] by simp
  ultimately show ?thesis using steps by (intro exI [of _ ?s'] exI [of _ ?b'] exI [of _ mem'] exI [of _ r]) simp
qed

end
