(* ===== verification/Stream_Pool.thy ===== *)
theory Stream_Pool
  imports Prelude "HOL-Library.Multiset"
begin

text \<open>
  \<open>exclusive_stream_pool\<close> and \<open>borrowed_stream\<close> (\<open>include/memory/stream_pool.hpp\<close>,
  \<open>src/memory/stream_pool.cpp\<close>).

  A CUDA stream object is the number of its handle, or \<open>None\<close> once it has been moved from. Creating
  a stream is a call of the runtime and a parameter: \<open>spawn\<close> returns the new handle and the runtime's
  next state. Every method of the pool runs under its mutex and is one step; \<open>None\<close> as the result of
  \<open>acquire_stream\<close> is a caller that sleeps on the condition variable.
\<close>

section \<open>The pool and what it lends\<close>

type_synonym stream = "nat option"

record borrowed_stream =
  bs_stream :: stream
  bs_release_fn :: bool

record exclusive_stream_pool =
  pool_device_id :: i32
  pool_flags :: nat
  pool_streams :: "stream list"

datatype stream_acquire_policy = GROW | BLOCK

fun spawn_streams :: "('c \<Rightarrow> nat \<times> 'c) \<Rightarrow> nat \<Rightarrow> 'c \<Rightarrow> stream list \<times> 'c" where
  "spawn_streams spawn 0 c = ([], c)"
| "spawn_streams spawn (Suc n) c =
     (case spawn c of (s, c1) \<Rightarrow>
        case spawn_streams spawn n c1 of (ss, c2) \<Rightarrow> (Some s # ss, c2))"

definition new_stream_pool ::
  "('c \<Rightarrow> nat \<times> 'c) \<Rightarrow> i32 \<Rightarrow> u64 \<Rightarrow> nat \<Rightarrow> 'c \<Rightarrow> exclusive_stream_pool outcome \<times> 'c" where
  "new_stream_pool spawn dev pool_size flags c =
     (if pool_size = 0 then (Inl (logic_error ''Stream pool size must be greater than zero''), c)
      else (case spawn_streams spawn (unat pool_size) c of
              (ss, c') \<Rightarrow>
                (Inr \<lparr>pool_device_id = dev, pool_flags = flags, pool_streams = ss\<rparr>, c')))"

definition pool_acquire_stream ::
  "('c \<Rightarrow> nat \<times> 'c) \<Rightarrow> stream_acquire_policy \<Rightarrow> exclusive_stream_pool \<Rightarrow> 'c \<Rightarrow>
   (borrowed_stream \<times> exclusive_stream_pool \<times> 'c) option"
where
  "pool_acquire_stream spawn policy p c =
     (if pool_streams p = []
      then (case policy of
              GROW \<Rightarrow> (case spawn c of
                         (s, c') \<Rightarrow> Some (\<lparr>bs_stream = Some s, bs_release_fn = True\<rparr>, p, c'))
            | BLOCK \<Rightarrow> None)
      else Some (\<lparr>bs_stream = last (pool_streams p), bs_release_fn = True\<rparr>,
                 p\<lparr>pool_streams := butlast (pool_streams p)\<rparr>, c))"

definition stream_pool_size :: "exclusive_stream_pool \<Rightarrow> nat" where
  "stream_pool_size p = length (pool_streams p)"

definition release_stream :: "stream \<Rightarrow> exclusive_stream_pool \<Rightarrow> exclusive_stream_pool" where
  "release_stream s p = p\<lparr>pool_streams := pool_streams p @ [s]\<rparr>"

text \<open>\<open>reset\<close> hands the stream back once; the stream object is moved from.\<close>

definition borrowed_reset ::
  "borrowed_stream \<Rightarrow> exclusive_stream_pool \<Rightarrow> borrowed_stream \<times> exclusive_stream_pool" where
  "borrowed_reset b p =
     (if bs_release_fn b
      then (\<lparr>bs_stream = None, bs_release_fn = False\<rparr>, release_stream (bs_stream b) p)
      else (b, p))"

definition borrowed_move_construct :: "borrowed_stream \<Rightarrow> borrowed_stream \<times> borrowed_stream" where
  "borrowed_move_construct other =
     (\<lparr>bs_stream = bs_stream other, bs_release_fn = bs_release_fn other\<rparr>,
      \<lparr>bs_stream = None, bs_release_fn = False\<rparr>)"

definition borrowed_move_assign ::
  "borrowed_stream \<Rightarrow> borrowed_stream \<Rightarrow> exclusive_stream_pool \<Rightarrow>
   borrowed_stream \<times> borrowed_stream \<times> exclusive_stream_pool"
where
  "borrowed_move_assign this other p =
     (case borrowed_reset this p of
        (_, p') \<Rightarrow>
          (\<lparr>bs_stream = bs_stream other, bs_release_fn = bs_release_fn other\<rparr>,
           \<lparr>bs_stream = None, bs_release_fn = False\<rparr>, p'))"

text \<open>The destructor is the default one: the stream is destroyed with the object.\<close>

definition borrowed_destroy :: "borrowed_stream \<Rightarrow> exclusive_stream_pool \<Rightarrow> exclusive_stream_pool" where
  "borrowed_destroy b p = p"

section \<open>All uses of a pool\<close>

text \<open>
  A pool, the borrowed streams that clients hold, and the runtime. A client acquires, resets, moves
  one of its objects into another, or lets one go out of scope.
\<close>

inductive stream_step ::
  "('c \<Rightarrow> nat \<times> 'c) \<Rightarrow> exclusive_stream_pool \<times> borrowed_stream list \<times> 'c \<Rightarrow>
   exclusive_stream_pool \<times> borrowed_stream list \<times> 'c \<Rightarrow> bool"
  for spawn
where
  acquire: "pool_acquire_stream spawn policy p c = Some (b, p', c') \<Longrightarrow>
    stream_step spawn (p, bs, c) (p', b # bs, c')"
| reset: "i < length bs \<Longrightarrow> borrowed_reset (bs ! i) p = (b, p') \<Longrightarrow>
    stream_step spawn (p, bs, c) (p', bs[i := b], c)"
| move: "i < length bs \<Longrightarrow> j < length bs \<Longrightarrow> i \<noteq> j \<Longrightarrow>
    borrowed_move_assign (bs ! i) (bs ! j) p = (b, b', p') \<Longrightarrow>
    stream_step spawn (p, bs, c) (p', bs[i := b, j := b'], c)"
| destroy: "i < length bs \<Longrightarrow>
    stream_step spawn (p, bs, c) (borrowed_destroy (bs ! i) p, take i bs @ drop (Suc i) bs, c)"

text \<open>What is relied on of the runtime: a new handle is not one that was issued before.\<close>

definition fresh_streams :: "('c \<Rightarrow> nat \<times> 'c) \<Rightarrow> ('c \<Rightarrow> nat set) \<Rightarrow> bool" where
  "fresh_streams spawn issued \<longleftrightarrow>
     (\<forall>c s c'. spawn c = (s, c') \<longrightarrow> s \<notin> issued c \<and> insert s (issued c) \<subseteq> issued c')"

section \<open>Exclusive use\<close>

text \<open>The streams an object may use: what it holds and is entitled to hand back.\<close>

definition held :: "borrowed_stream \<Rightarrow> stream multiset" where
  "held b = (if bs_release_fn b then {#bs_stream b#} else {#})"

definition out_streams :: "borrowed_stream list \<Rightarrow> stream multiset" where
  "out_streams bs = sum_list (map held bs)"

definition pool_inv :: "nat set \<Rightarrow> exclusive_stream_pool \<Rightarrow> borrowed_stream list \<Rightarrow> bool" where
  "pool_inv used p bs \<longleftrightarrow>
     (\<forall>s. count (mset (pool_streams p) + out_streams bs) s \<le> 1)
     \<and> set_mset (mset (pool_streams p) + out_streams bs) \<subseteq> Some ` used
     \<and> (\<forall>b \<in> set bs. bs_release_fn b \<or> bs_stream b = None)"

lemma out_update:
  "i < length bs \<Longrightarrow> out_streams (bs[i := b]) + held (bs ! i) = out_streams bs + held b"
  by (induction bs arbitrary: i) (auto simp: out_streams_def nth_Cons split: nat.splits)

lemma out_drop:
  assumes "i < length bs"
  shows "out_streams (take i bs @ drop (Suc i) bs) + held (bs ! i) = out_streams bs"
proof -
  have "out_streams bs = out_streams (take i bs @ bs ! i # drop (Suc i) bs)"
    using id_take_nth_drop [OF assms] by simp
  then show ?thesis by (simp add: out_streams_def ac_simps)
qed

lemma reset_conserves:
  assumes "borrowed_reset b p = (b', p')"
  shows "mset (pool_streams p') + held b' = mset (pool_streams p) + held b"
    and "bs_release_fn b \<or> bs_stream b = None \<Longrightarrow> b' = \<lparr>bs_stream = None, bs_release_fn = False\<rparr>"
  using assms by (auto simp: borrowed_reset_def held_def release_stream_def split: if_splits)

lemma pool_inv_sub:
  assumes "pool_inv used p bs" and "mset (pool_streams p') + out_streams bs' \<subseteq># mset (pool_streams p) + out_streams bs"
    and "\<And>b. b \<in> set bs' \<Longrightarrow> bs_release_fn b \<or> bs_stream b = None" and "used' = used"
  shows "pool_inv used' p' bs'"
  using assms(1,3,4) set_mset_mono [OF assms(2)] mset_subset_eq_count [OF assms(2)]
  unfolding pool_inv_def by (meson dual_order.trans)

lemma pool_inv_spawn:
  assumes "pool_inv used p bs" and "s \<notin> used" and "insert s used \<subseteq> used'"
  shows "pool_inv used' p (\<lparr>bs_stream = Some s, bs_release_fn = True\<rparr> # bs)"
proof -
  let ?T = "mset (pool_streams p) + out_streams bs"
  have new: "count ?T (Some s) = 0"
    using assms(1,2) unfolding pool_inv_def by (metis count_eq_zero_iff image_iff option.inject subsetD)
  have T: "mset (pool_streams p) + out_streams (\<lparr>bs_stream = Some s, bs_release_fn = True\<rparr> # bs)
      = add_mset (Some s) ?T"
    by (simp add: out_streams_def held_def)
  show ?thesis
    unfolding pool_inv_def T
  proof (intro conjI allI)
    fix x show "count (add_mset (Some s) ?T) x \<le> 1"
      using assms(1) new by (cases "x = Some s") (auto simp: pool_inv_def)
  next
    show "set_mset (add_mset (Some s) ?T) \<subseteq> Some ` used'"
      using assms(1,3) unfolding pool_inv_def by auto blast+
  next
    show "\<forall>b \<in> set (\<lparr>bs_stream = Some s, bs_release_fn = True\<rparr> # bs). bs_release_fn b \<or> bs_stream b = None"
      using assms(1) by (auto simp: pool_inv_def)
  qed
qed

lemma acquire_inv:
  assumes fresh: "fresh_streams spawn issued" and inv: "pool_inv (issued c) p bs"
    and a: "pool_acquire_stream spawn policy p c = Some (b, p', c')"
  shows "pool_inv (issued c') p' (b # bs)"
proof (cases "pool_streams p = []")
  case True
  then obtain s where s: "spawn c = (s, c')" "b = \<lparr>bs_stream = Some s, bs_release_fn = True\<rparr>" "p' = p"
    using a by (auto simp: pool_acquire_stream_def split: stream_acquire_policy.splits prod.splits)
  with fresh have "s \<notin> issued c" "insert s (issued c) \<subseteq> issued c'"
    unfolding fresh_streams_def by blast+
  from pool_inv_spawn [OF inv this] s show ?thesis by simp
next
  case False
  then have b: "b = \<lparr>bs_stream = last (pool_streams p), bs_release_fn = True\<rparr>"
      "pool_streams p' = butlast (pool_streams p)" "c' = c"
    using a by (auto simp: pool_acquire_stream_def)
  have "mset (butlast (pool_streams p)) + {#last (pool_streams p)#} = mset (pool_streams p)"
    using False by (metis append_butlast_last_id mset_append mset_single_iff_right)
  then have "mset (pool_streams p') + out_streams (b # bs) = mset (pool_streams p) + out_streams bs"
    using b by (simp add: out_streams_def held_def)
  then have "pool_inv (issued c) p' (b # bs)"
    using inv b(1) by (intro pool_inv_sub [OF inv]) (auto simp: pool_inv_def)
  with b(3) show ?thesis by simp
qed

lemma move_conserves:
  assumes inv: "pool_inv used p bs" and ij: "i < length bs" "j < length bs" "i \<noteq> j"
    and m: "borrowed_move_assign (bs ! i) (bs ! j) p = (b, b', p')"
  shows "mset (pool_streams p') + out_streams (bs[i := b, j := b']) = mset (pool_streams p) + out_streams bs"
    and "b = bs ! j" and "b' = \<lparr>bs_stream = None, bs_release_fn = False\<rparr>"
proof -
  obtain b0 p0 where r: "borrowed_reset (bs ! i) p = (b0, p0)" by fastforce
  with m show b: "b = bs ! j" and b': "b' = \<lparr>bs_stream = None, bs_release_fn = False\<rparr>"
    by (auto simp: borrowed_move_assign_def)
  have p0: "p' = p0" using m r by (auto simp: borrowed_move_assign_def)
  have "b0 = \<lparr>bs_stream = None, bs_release_fn = False\<rparr>"
    using reset_conserves(2) [OF r] inv ij(1) by (simp add: pool_inv_def)
  with reset_conserves(1) [OF r] p0
  have pool: "mset (pool_streams p') = mset (pool_streams p) + held (bs ! i)" by (simp add: held_def)
  have "out_streams (bs[i := b, j := b']) + held (bs ! j) = out_streams (bs[i := b]) + held b'"
    using out_update [of j "bs[i := b]" b'] ij by simp
  then have e1: "out_streams (bs[i := b, j := b']) + held (bs ! j) = out_streams (bs[i := b])"
    using b' by (simp add: held_def)
  have e2: "out_streams (bs[i := b]) + held (bs ! i) = out_streams bs + held (bs ! j)"
    using out_update [OF ij(1), of b] b by simp
  have "(out_streams (bs[i := b, j := b']) + held (bs ! i)) + held (bs ! j)
      = (out_streams (bs[i := b, j := b']) + held (bs ! j)) + held (bs ! i)"
    by (simp only: ac_simps)
  also have "\<dots> = out_streams bs + held (bs ! j)" by (simp only: e1 e2)
  finally have e: "held (bs ! i) + out_streams (bs[i := b, j := b']) = out_streams bs"
    by (simp only: add_right_cancel add.commute [of "held (bs ! i)"])
  show "mset (pool_streams p') + out_streams (bs[i := b, j := b'])
      = mset (pool_streams p) + out_streams bs"
    by (simp only: pool add.assoc e)
qed

lemma step_pool_inv:
  assumes fresh: "fresh_streams spawn issued" and "stream_step spawn (p, bs, c) (p', bs', c')"
    and inv: "pool_inv (issued c) p bs"
  shows "pool_inv (issued c') p' bs'"
  using assms(2)
proof (cases rule: stream_step.cases)
  case (acquire policy b)
  with acquire_inv [OF fresh inv] show ?thesis by blast
next
  case (reset i b)
  have none: "b = \<lparr>bs_stream = None, bs_release_fn = False\<rparr>"
    using reset_conserves(2) [OF reset(4)] inv reset(3) by (simp add: pool_inv_def)
  have "mset (pool_streams p') + out_streams bs' = mset (pool_streams p) + out_streams bs"
  proof -
    have out: "out_streams bs' + held (bs ! i) = out_streams bs"
      using out_update [OF reset(3), of b] none reset(1) by (simp add: held_def)
    have "mset (pool_streams p') = mset (pool_streams p) + held (bs ! i)"
      using reset_conserves(1) [OF reset(4)] none by (simp add: held_def)
    then show ?thesis by (simp only: add.assoc add.commute [of "held (bs ! i)"] out)
  qed
  with inv none reset show ?thesis
    by (intro pool_inv_sub [OF inv]) (auto simp: pool_inv_def dest!: set_update_subset_insert [THEN subsetD])
next
  case (move i j b b')
  note mv = move_conserves [OF inv move(3-6)]
  from mv inv move show ?thesis
    by (intro pool_inv_sub [OF inv])
       (auto simp: pool_inv_def dest!: set_update_subset_insert [THEN subsetD])
next
  case (destroy i)
  have "out_streams bs' \<subseteq># out_streams bs"
    using out_drop [OF destroy(4)] destroy(2) by (metis mset_subset_eq_add_left)
  with inv destroy show ?thesis
    by (intro pool_inv_sub [OF inv])
       (auto simp: pool_inv_def borrowed_destroy_def dest: in_set_takeD in_set_dropD)
qed

lemma spawned_distinct:
  assumes fresh: "fresh_streams spawn issued" and "spawn_streams spawn n c = (ss, c')"
  shows "distinct ss" and "set ss \<subseteq> Some ` (issued c' - issued c)" and "issued c \<subseteq> issued c'"
    and "length ss = n"
proof -
  have "distinct ss \<and> set ss \<subseteq> Some ` (issued c' - issued c) \<and> issued c \<subseteq> issued c' \<and> length ss = n"
    using assms(2)
  proof (induction n arbitrary: c ss)
    case (Suc n)
    obtain s c1 where s: "spawn c = (s, c1)" by fastforce
    obtain rest where r: "spawn_streams spawn n c1 = (rest, c')" "ss = Some s # rest"
      using Suc.prems s by (auto split: prod.splits)
    from fresh s have f: "s \<notin> issued c" "insert s (issued c) \<subseteq> issued c1"
      unfolding fresh_streams_def by blast+
    note ih = Suc.IH [OF r(1)]
    then have "set rest \<subseteq> Some ` (issued c' - issued c)" using f(2) by blast
    with ih f r(2) show ?case by auto
  qed simp
  then show "distinct ss" "set ss \<subseteq> Some ` (issued c' - issued c)" "issued c \<subseteq> issued c'" "length ss = n"
    by auto
qed

lemma distinct_of_count: "(\<And>x. count (mset xs) x \<le> 1) \<Longrightarrow> distinct xs"
proof (induction xs)
  case (Cons y xs)
  have c: "count (mset xs) y = 0" using Cons.prems [of y] by (simp del: count_mset_0_iff count_eq_zero_iff)
  then have "y \<notin> set xs" by (simp add: count_eq_zero_iff)
  moreover have "count (mset xs) x \<le> 1" for x
  proof (cases "x = y")
    case True
    show ?thesis unfolding True c by simp
  qed (use Cons.prems [of x] in simp)
  ultimately show ?case using Cons.IH by simp
qed simp

lemma new_pool_inv:
  assumes fresh: "fresh_streams spawn issued" and "new_stream_pool spawn dev n flags c = (Inr p, c')"
  shows "pool_inv (issued c') p []"
proof -
  obtain ss where ss: "spawn_streams spawn (unat n) c = (ss, c')" "pool_streams p = ss"
    using assms(2) by (auto simp: new_stream_pool_def split: if_splits prod.splits)
  note d = spawned_distinct [OF fresh ss(1)]
  show ?thesis
    using d ss(2) by (auto simp: pool_inv_def out_streams_def distinct_count_atmost_1)
qed


section \<open>Dropped streams\<close>

text \<open>A client that acquires a stream and lets it go out of scope, \<open>k\<close> times.\<close>

fun use_and_drop ::
  "('c \<Rightarrow> nat \<times> 'c) \<Rightarrow> nat \<Rightarrow> exclusive_stream_pool \<Rightarrow> 'c \<Rightarrow> exclusive_stream_pool option"
where
  "use_and_drop spawn 0 p c = Some p"
| "use_and_drop spawn (Suc k) p c =
     (case pool_acquire_stream spawn BLOCK p c of
        None \<Rightarrow> None
      | Some (b, p', c') \<Rightarrow> use_and_drop spawn k (borrowed_destroy b p') c')"

text \<open>
  Property C39. A borrowed stream that goes out of scope is lost to the pool: its destructor does not
  hand the stream back. A client that uses one stream at a time and never calls \<open>reset\<close> empties a
  pool of \<open>n\<close> streams in \<open>n\<close> rounds, and the next caller sleeps for ever.
\<close>

theorem dropped_streams_drain_pool:
  assumes "new_stream_pool spawn dev n flags c0 = (Inr p, c)"
  shows "\<exists>p'. use_and_drop spawn (unat n) p c = Some p' \<and> stream_pool_size p' = 0
    \<and> use_and_drop spawn (Suc (unat n)) p c = None"
proof -
  have len: "length (fst (spawn_streams spawn k c)) = k" for k c
    by (induction k arbitrary: c) (simp_all add: split_beta)
  have size_n: "length (pool_streams p) = unat n"
    using assms len [of "unat n" c0] by (auto simp: new_stream_pool_def split: if_splits prod.splits)
  have drain: "\<exists>p'. use_and_drop spawn k q c = Some p' \<and> pool_streams p' = []
      \<and> use_and_drop spawn (Suc k) q c = None" if "length (pool_streams q) = k" for k q
    using that
  proof (induction k arbitrary: q)
    case 0
    then show ?case by (simp add: pool_acquire_stream_def)
  next
    case (Suc k)
    then have ne: "pool_streams q \<noteq> []" by auto
    then have "pool_acquire_stream spawn BLOCK q c = Some (\<lparr>bs_stream = last (pool_streams q),
        bs_release_fn = True\<rparr>, q\<lparr>pool_streams := butlast (pool_streams q)\<rparr>, c)"
      by (simp add: pool_acquire_stream_def)
    with Suc.IH [of "q\<lparr>pool_streams := butlast (pool_streams q)\<rparr>"] Suc.prems ne show ?case
      by (simp add: borrowed_destroy_def)
  qed
  from drain [OF size_n] show ?thesis by (auto simp: stream_pool_size_def)
qed

section \<open>A concrete pool\<close>

definition count_up :: "nat \<Rightarrow> nat \<times> nat" where
  "count_up c = (c, Suc c)"

lemma count_up_fresh: "fresh_streams count_up (\<lambda>c. {..<c})"
  by (auto simp: fresh_streams_def count_up_def)

definition pair_pool :: exclusive_stream_pool where
  "pair_pool = \<lparr>pool_device_id = 0, pool_flags = 0, pool_streams = [Some 0, Some 1]\<rparr>"

lemma pair_pool_new: "new_stream_pool count_up 0 2 0 0 = (Inr pair_pool, 2)"
proof -
  have "spawn_streams count_up 2 0 = ([Some 0, Some 1], 2)"
    by (simp add: numeral_2_eq_2 count_up_def)
  then show ?thesis by (simp add: new_stream_pool_def pair_pool_def)
qed


theorem dropped_streams_drain_pool_witness:
  "\<exists>p'. use_and_drop count_up (unat (2 :: u64)) pair_pool 2 = Some p' \<and> stream_pool_size p' = 0
     \<and> use_and_drop count_up (Suc (unat (2 :: u64))) pair_pool 2 = None"
  by (rule dropped_streams_drain_pool [OF pair_pool_new])

end
