(* ===== verification/Allocators.thy ===== *)
theory Allocators
  imports Memory_Common
begin

text \<open>
  The upstream allocators: pinned host memory of a NUMA node
  (\<open>numa_region_pinned_host_allocator\<close>), the null resource of the disk tier
  (\<open>null_device_memory_resource.hpp\<close>) and the default factories (\<open>common.cpp\<close>).

  CUDA and libnuma are the parameter \<open>os\<close> over a state of an unspecified type. A call of
  \<open>RMM_CUDA_TRY_ALLOC\<close> throws \<open>rmm::out_of_memory\<close> for the memory error of CUDA and \<open>rmm::bad_alloc\<close> for
  any other; \<open>RMM_ASSERT_CUDA_SUCCESS\<close> makes the call and, where assertions are checked, asserts that
  it succeeded. A pointer is an address, \<open>None\<close> the null pointer.
\<close>

section \<open>Pinned host memory\<close>

datatype cudaError = cudaSuccess | cudaErrorMemoryAllocation | cudaErrorOther

record 'o host_os =
  cudaHostAlloc :: "u64 \<Rightarrow> 'o \<Rightarrow> cudaError \<times> u64 \<times> 'o"
  cudaHostRegister :: "u64 \<Rightarrow> u64 \<Rightarrow> 'o \<Rightarrow> cudaError \<times> 'o"
  cudaFreeHost :: "u64 \<Rightarrow> 'o \<Rightarrow> cudaError \<times> 'o"
  cudaHostUnregister :: "u64 \<Rightarrow> 'o \<Rightarrow> cudaError \<times> 'o"
  numa_alloc_onnode :: "u64 \<Rightarrow> i32 \<Rightarrow> 'o \<Rightarrow> u64 option \<times> 'o"
  numa_free :: "u64 \<Rightarrow> u64 \<Rightarrow> 'o \<Rightarrow> 'o"

record numa_region_pinned_host_memory_resource =
  pinned_numa_node :: i32

fun cuda_try_alloc :: "cudaError \<Rightarrow> 'a \<Rightarrow> 'a outcome" where
  "cuda_try_alloc cudaSuccess x = Inr x"
| "cuda_try_alloc cudaErrorMemoryAllocation x = Inl (out_of_memory ''cudaErrorMemoryAllocation'')"
| "cuda_try_alloc cudaErrorOther x = Inl (bad_alloc ''CUDA error'')"

definition pinned_do_allocate ::
  "'o host_os \<Rightarrow> numa_region_pinned_host_memory_resource \<Rightarrow> u64 \<Rightarrow> 'o \<Rightarrow> u64 option outcome \<times> 'o" where
  "pinned_do_allocate os mr bytes s =
     (if bytes = 0 then (Inr None, s)
      else if pinned_numa_node mr = - 1
      then (case cudaHostAlloc os bytes s of (e, ptr, s') \<Rightarrow> (cuda_try_alloc e (Some ptr), s'))
      else (case numa_alloc_onnode os bytes (pinned_numa_node mr) s of
              (None, s') \<Rightarrow> (Inl (bad_alloc ''strerror(errno)''), s')
            | (Some ptr, s') \<Rightarrow>
                (case cudaHostRegister os ptr bytes s' of (e, s'') \<Rightarrow> (cuda_try_alloc e (Some ptr), s''))))"

definition pinned_do_deallocate ::
  "'o host_os \<Rightarrow> bool \<Rightarrow> numa_region_pinned_host_memory_resource \<Rightarrow> u64 \<Rightarrow> u64 \<Rightarrow> 'o \<Rightarrow> unit outcome \<times> 'o" where
  "pinned_do_deallocate os asserts mr ptr bytes s =
     (if pinned_numa_node mr = - 1
      then (case cudaFreeHost os ptr s of
              (e, s') \<Rightarrow> (if asserts \<and> e \<noteq> cudaSuccess then Inl assertion_failure else Inr (), s'))
      else (case cudaHostUnregister os ptr s of
              (e, s') \<Rightarrow> if asserts \<and> e \<noteq> cudaSuccess then (Inl assertion_failure, s')
                         else (Inr (), numa_free os ptr bytes s')))"

text \<open>Objects are compared by their addresses; a resource of another dynamic type is \<open>None\<close>.\<close>

definition pinned_do_is_equal ::
  "nat \<times> numa_region_pinned_host_memory_resource \<Rightarrow> (nat \<times> numa_region_pinned_host_memory_resource) option \<Rightarrow> bool"
where
  "pinned_do_is_equal self other =
     (case other of
        None \<Rightarrow> False
      | Some mr_ptr \<Rightarrow> fst mr_ptr = fst self \<and> pinned_numa_node (snd mr_ptr) = pinned_numa_node (snd self))"

section \<open>The null resource and the default factories\<close>

definition null_do_allocate :: "u64 \<Rightarrow> u64 option" where
  "null_do_allocate bytes = None"

definition null_do_deallocate :: "u64 option \<Rightarrow> u64 \<Rightarrow> unit" where
  "null_do_deallocate p bytes = ()"

definition null_do_is_equal :: "nat \<Rightarrow> nat \<Rightarrow> bool" where
  "null_do_is_equal self other = (self = other)"

datatype device_memory_resource =
    cuda_async_memory_resource i32 u64
  | pinned_host_resource numa_region_pinned_host_memory_resource
  | null_device_memory_resource

definition make_default_gpu_memory_resource :: "i32 \<Rightarrow> u64 \<Rightarrow> device_memory_resource" where
  "make_default_gpu_memory_resource dev capacity = cuda_async_memory_resource dev capacity"

definition make_default_host_memory_resource :: "i32 \<Rightarrow> u64 \<Rightarrow> device_memory_resource" where
  "make_default_host_memory_resource numa_node_id capacity =
     pinned_host_resource \<lparr>pinned_numa_node = numa_node_id\<rparr>"

fun make_default_allocator_for_tier :: "Tier \<Rightarrow> i32 \<Rightarrow> u64 \<Rightarrow> device_memory_resource" where
  "make_default_allocator_for_tier GPU = make_default_gpu_memory_resource"
| "make_default_allocator_for_tier HOST = make_default_host_memory_resource"
| "make_default_allocator_for_tier _ = (\<lambda>_ _. null_device_memory_resource)"

section \<open>What allocation does to the memory of the process\<close>

text \<open>
  \<open>live s\<close> maps the address of each block that the process holds from CUDA or libnuma to its size, and
  \<open>reg s\<close> are the addresses it has registered with CUDA. The law is what their documentation says: a
  successful allocation gives a new block, registering succeeds for an address that is not
  registered and unregistering takes it back, freeing gives the block back, and a call that fails
  changes nothing.
\<close>

definition host_os_law :: "'o host_os \<Rightarrow> ('o \<Rightarrow> u64 \<rightharpoonup> u64) \<Rightarrow> ('o \<Rightarrow> u64 set) \<Rightarrow> bool" where
  "host_os_law os live reg \<longleftrightarrow>
     (\<forall>n s e p s'. cudaHostAlloc os n s = (e, p, s') \<longrightarrow> reg s' = reg s \<and>
        (if e = cudaSuccess then live s p = None \<and> live s' = (live s)(p \<mapsto> n) else live s' = live s))
     \<and> (\<forall>n node s q s'. numa_alloc_onnode os n node s = (q, s') \<longrightarrow> reg s' = reg s \<and>
          (case q of None \<Rightarrow> live s' = live s | Some p \<Rightarrow> live s p = None \<and> live s' = (live s)(p \<mapsto> n)))
     \<and> (\<forall>p n s e s'. cudaHostRegister os p n s = (e, s') \<longrightarrow> live s' = live s \<and>
          (if e = cudaSuccess then p \<notin> reg s \<and> reg s' = insert p (reg s) else reg s' = reg s))
     \<and> (\<forall>p s e s'. cudaHostUnregister os p s = (e, s') \<longrightarrow> live s' = live s \<and>
          reg s' = (if e = cudaSuccess then reg s - {p} else reg s))
     \<and> (\<forall>p s e s'. cudaFreeHost os p s = (e, s') \<longrightarrow> reg s' = reg s \<and>
          live s' = (if e = cudaSuccess then (live s)(p := None) else live s))
     \<and> (\<forall>p n s. live (numa_free os p n s) = (live s)(p := None) \<and> reg (numa_free os p n s) = reg s)"

lemma host_os_lawD:
  assumes "host_os_law os live reg"
  shows "cudaHostAlloc os n s = (e, p, s') \<Longrightarrow> reg s' = reg s \<and>
      (if e = cudaSuccess then live s p = None \<and> live s' = (live s)(p \<mapsto> n) else live s' = live s)"
    and "numa_alloc_onnode os n node s = (None, s') \<Longrightarrow> live s' = live s \<and> reg s' = reg s"
    and "numa_alloc_onnode os n node s = (Some p, s') \<Longrightarrow>
      live s p = None \<and> live s' = (live s)(p \<mapsto> n) \<and> reg s' = reg s"
    and "cudaHostRegister os p n s = (e, s') \<Longrightarrow> live s' = live s \<and>
      (if e = cudaSuccess then p \<notin> reg s \<and> reg s' = insert p (reg s) else reg s' = reg s)"
    and "cudaHostUnregister os p s = (e, s') \<Longrightarrow>
      live s' = live s \<and> reg s' = (if e = cudaSuccess then reg s - {p} else reg s)"
    and "cudaFreeHost os p s = (e, s') \<Longrightarrow>
      reg s' = reg s \<and> live s' = (if e = cudaSuccess then (live s)(p := None) else live s)"
    and "live (numa_free os p n s) = (live s)(p := None) \<and> reg (numa_free os p n s) = reg s"
proof -
  note law = assms [unfolded host_os_law_def]
  note law2 = law [THEN conjunct2] note law3 = law2 [THEN conjunct2] note law4 = law3 [THEN conjunct2]
  note numa = law2 [THEN conjunct1, rule_format]
  show "cudaHostAlloc os n s = (e, p, s') \<Longrightarrow> reg s' = reg s \<and>
      (if e = cudaSuccess then live s p = None \<and> live s' = (live s)(p \<mapsto> n) else live s' = live s)"
    using law [THEN conjunct1] by blast
  show "numa_alloc_onnode os n node s = (None, s') \<Longrightarrow> live s' = live s \<and> reg s' = reg s"
    and "numa_alloc_onnode os n node s = (Some p, s') \<Longrightarrow>
      live s p = None \<and> live s' = (live s)(p \<mapsto> n) \<and> reg s' = reg s"
    using numa [of n node s] by auto
  show "cudaHostRegister os p n s = (e, s') \<Longrightarrow> live s' = live s \<and>
      (if e = cudaSuccess then p \<notin> reg s \<and> reg s' = insert p (reg s) else reg s' = reg s)"
    using law3 [THEN conjunct1] by blast
  show "cudaHostUnregister os p s = (e, s') \<Longrightarrow>
      live s' = live s \<and> reg s' = (if e = cudaSuccess then reg s - {p} else reg s)"
    using law4 [THEN conjunct1] by blast
  show "cudaFreeHost os p s = (e, s') \<Longrightarrow>
      reg s' = reg s \<and> live s' = (if e = cudaSuccess then (live s)(p := None) else live s)"
    using law4 [THEN conjunct2, THEN conjunct1] by blast
  show "live (numa_free os p n s) = (live s)(p := None) \<and> reg (numa_free os p n s) = reg s"
    using law4 [THEN conjunct2, THEN conjunct2] by blast
qed

lemma cuda_try_alloc_simps:
  "cuda_try_alloc e x = Inr y \<longleftrightarrow> e = cudaSuccess \<and> y = x"
  "(\<exists>ex. cuda_try_alloc e x = Inl ex) \<longleftrightarrow> e \<noteq> cudaSuccess"
  by (cases e; auto)+

lemma put_and_taken: "live s p = None \<Longrightarrow> ((live s)(p \<mapsto> n))(p := None) = live s"
  by (auto simp: fun_eq_iff)

text \<open>
  The call of CUDA that a deallocation makes succeeds; and what an allocation adds to the process:
  the block, which on a NUMA node is also registered.
\<close>

definition cuda_frees :: "'o host_os \<Rightarrow> numa_region_pinned_host_memory_resource \<Rightarrow> u64 \<Rightarrow> 'o \<Rightarrow> bool" where
  "cuda_frees os mr p s \<longleftrightarrow>
     (if pinned_numa_node mr = - 1 then fst (cudaFreeHost os p s) else fst (cudaHostUnregister os p s)) = cudaSuccess"

definition registered_by :: "numa_region_pinned_host_memory_resource \<Rightarrow> u64 \<Rightarrow> u64 set" where
  "registered_by mr p = (if pinned_numa_node mr = - 1 then {} else {p})"

lemma pinned_freed:
  assumes law: "host_os_law os live reg"
    and new: "live s p = None" "live s' = (live s)(p \<mapsto> bytes)"
    and reg: "registered_by mr p \<inter> reg s = {}" "reg s' = registered_by mr p \<union> reg s"
  shows "if cuda_frees os mr p s'
    then \<exists>t. pinned_do_deallocate os asserts mr p bytes s' = (Inr (), t) \<and> live t = live s \<and> reg t = reg s
    else \<exists>t. pinned_do_deallocate os asserts mr p bytes s' = (if asserts then Inl assertion_failure else Inr (), t)
      \<and> \<not> (live t = live s \<and> reg t = reg s)"
proof (cases "pinned_numa_node mr = - 1")
  case True
  obtain e t where f: "cudaFreeHost os p s' = (e, t)" by fastforce
  note host_os_lawD(6) [OF law f]
  moreover have "(live s)(p \<mapsto> bytes) \<noteq> live s" using new(1) by (metis fun_upd_same option.distinct(1))
  ultimately show ?thesis
    using True f new put_and_taken [of live s p] reg(2)
    by (auto simp: cuda_frees_def pinned_do_deallocate_def registered_by_def)
next
  case False
  obtain e t where f: "cudaHostUnregister os p s' = (e, t)" by fastforce
  note host_os_lawD(5) [OF law f] host_os_lawD(7) [OF law, of p bytes t]
  moreover have "p \<notin> reg s" "reg s' = insert p (reg s)" using False reg by (simp_all add: registered_by_def)
  ultimately show ?thesis
    using False f new put_and_taken [of live s p]
    by (auto simp: cuda_frees_def pinned_do_deallocate_def)
qed

text \<open>The block was obtained from libnuma and could not be registered with CUDA.\<close>

definition registering_failed ::
  "'o host_os \<Rightarrow> numa_region_pinned_host_memory_resource \<Rightarrow> u64 \<Rightarrow> 'o \<Rightarrow> u64 \<Rightarrow> bool" where
  "registering_failed os mr bytes s p \<longleftrightarrow>
     bytes \<noteq> 0 \<and> pinned_numa_node mr \<noteq> - 1 \<and>
     (case numa_alloc_onnode os bytes (pinned_numa_node mr) s of
        (None, _) \<Rightarrow> False
      | (Some q, t) \<Rightarrow> p = q \<and> fst (cudaHostRegister os q bytes t) \<noteq> cudaSuccess)"

lemma pinned_allocated:
  assumes law: "host_os_law os live reg" and "bytes \<noteq> 0" and "pinned_do_allocate os mr bytes s = (r, s')"
  shows "case r of
      Inr None \<Rightarrow> False
    | Inr (Some p) \<Rightarrow> live s p = None \<and> live s' = (live s)(p \<mapsto> bytes)
        \<and> registered_by mr p \<inter> reg s = {} \<and> reg s' = registered_by mr p \<union> reg s
    | Inl _ \<Rightarrow> reg s' = reg s \<and>
        (if \<exists>p. registering_failed os mr bytes s p
         then \<exists>p. registering_failed os mr bytes s p \<and> live s p = None \<and> live s' = (live s)(p \<mapsto> bytes)
         else live s' = live s)"
proof (cases "pinned_numa_node mr = - 1")
  case True
  obtain e p t where a: "cudaHostAlloc os bytes s = (e, p, t)" by (metis prod_cases3)
  with host_os_lawD(1) [OF law a] assms(2,3) True show ?thesis
    by (cases e) (auto simp: pinned_do_allocate_def registered_by_def registering_failed_def)
next
  case False
  obtain q t where q: "numa_alloc_onnode os bytes (pinned_numa_node mr) s = (q, t)" by fastforce
  show ?thesis
  proof (cases q)
    case None
    with host_os_lawD(2) [OF law] q assms(2,3) False show ?thesis
      by (auto simp: pinned_do_allocate_def registering_failed_def)
  next
    case (Some p)
    obtain e u where reg: "cudaHostRegister os p bytes t = (e, u)" by fastforce
    note host_os_lawD(3) [OF law q [unfolded Some]] host_os_lawD(4) [OF law reg]
    with q Some reg assms(2,3) False show ?thesis
      by (cases e) (auto simp: pinned_do_allocate_def registered_by_def registering_failed_def)
  qed
qed

text \<open>
  Property C36. Balance of pinned memory. An allocation that returns gives the process one new block
  of the requested size, registered with CUDA on a NUMA node, and nothing for zero bytes. Freeing
  that block, with assertions checked or not, leaves the blocks and the registrations of the process
  as they were before the allocation, provided the call of CUDA that the deallocation makes
  succeeds; when it fails something stays behind, which checked assertions report. An allocation
  that throws leaves the blocks and registrations as they were, except when libnuma gave a block and
  registering it failed: that block stays allocated and its address is lost.
\<close>

theorem pinned_memory_balance:
  assumes "host_os_law os live reg" and "pinned_do_allocate os mr bytes s = (r, s')"
  shows "case r of
      Inr None \<Rightarrow> bytes = 0 \<and> s' = s
    | Inr (Some p) \<Rightarrow> live s p = None \<and> live s' = (live s)(p \<mapsto> bytes) \<and> reg s' = registered_by mr p \<union> reg s
        \<and> (if cuda_frees os mr p s'
           then \<exists>t. pinned_do_deallocate os asserts mr p bytes s' = (Inr (), t) \<and> live t = live s \<and> reg t = reg s
           else \<exists>t. pinned_do_deallocate os asserts mr p bytes s' = (if asserts then Inl assertion_failure else Inr (), t)
             \<and> \<not> (live t = live s \<and> reg t = reg s))
    | Inl _ \<Rightarrow> reg s' = reg s \<and>
        (if \<exists>p. registering_failed os mr bytes s p
         then \<exists>p. registering_failed os mr bytes s p \<and> live s p = None \<and> live s' = (live s)(p \<mapsto> bytes)
         else live s' = live s)"
proof (cases "bytes = 0")
  case True
  with assms(2) show ?thesis by (auto simp: pinned_do_allocate_def)
next
  case False
  note got = pinned_allocated [OF assms(1) False assms(2)]
  show ?thesis
  proof (cases r)
    case (Inl e)
    with got show ?thesis by simp
  next
    case (Inr q)
    with got obtain p where q: "q = Some p" by (cases q) auto
    with got Inr have "live s p = None" "live s' = (live s)(p \<mapsto> bytes)"
      "registered_by mr p \<inter> reg s = {}" "reg s' = registered_by mr p \<union> reg s" by simp_all
    from pinned_freed [OF assms(1) this, of asserts] this q Inr show ?thesis by simp
  qed
qed

text \<open>An operating system with one block, which can be registered unless it has 99 bytes.\<close>

definition one_block :: "((u64 \<rightharpoonup> u64) \<times> u64 set) host_os" where
  "one_block =
     \<lparr>cudaHostAlloc = (\<lambda>n s. if fst s 4096 = None then (cudaSuccess, 4096, ((fst s)(4096 \<mapsto> n), snd s))
                              else (cudaErrorMemoryAllocation, 0, s)),
      cudaHostRegister = (\<lambda>p n s. if n = 99 \<or> p \<in> snd s then (cudaErrorOther, s)
                                  else (cudaSuccess, (fst s, insert p (snd s)))),
      cudaFreeHost = (\<lambda>p s. (cudaSuccess, ((fst s)(p := None), snd s))),
      cudaHostUnregister = (\<lambda>p s. if p \<in> snd s then (cudaSuccess, (fst s, snd s - {p})) else (cudaErrorOther, s)),
      numa_alloc_onnode = (\<lambda>n node s. if fst s 4096 = None then (Some 4096, ((fst s)(4096 \<mapsto> n), snd s))
                                      else (None, s)),
      numa_free = (\<lambda>p n s. ((fst s)(p := None), snd s))\<rparr>"

lemma one_block_law: "host_os_law one_block fst snd"
  by (auto simp: host_os_law_def one_block_def)

theorem pinned_memory_balance_witness:
  "pinned_do_allocate one_block \<lparr>pinned_numa_node = 0\<rparr> 64 (Map.empty, {}) = (Inr (Some 4096), ([4096 \<mapsto> 64], {4096}))
   \<and> (\<exists>t. pinned_do_deallocate one_block False \<lparr>pinned_numa_node = 0\<rparr> 4096 64 ([4096 \<mapsto> 64], {4096}) = (Inr (), t)
          \<and> fst t = Map.empty \<and> snd t = {})
   \<and> registering_failed one_block \<lparr>pinned_numa_node = 0\<rparr> 99 (Map.empty, {}) 4096"
proof -
  have a: "pinned_do_allocate one_block \<lparr>pinned_numa_node = 0\<rparr> 64 (Map.empty, {})
      = (Inr (Some 4096), ([4096 \<mapsto> 64], {4096}))"
    by (simp add: pinned_do_allocate_def one_block_def)
  have "cuda_frees one_block \<lparr>pinned_numa_node = 0\<rparr> 4096 ([4096 \<mapsto> 64], {4096})"
    by (simp add: cuda_frees_def one_block_def)
  moreover have "registering_failed one_block \<lparr>pinned_numa_node = 0\<rparr> 99 (Map.empty, {}) 4096"
    by (simp add: registering_failed_def one_block_def)
  ultimately show ?thesis using pinned_memory_balance [OF one_block_law a, of False] a by auto
qed

end
