(* ===== verification/Spec2Isabelle.thy ===== *)
theory Spec2Isabelle
  imports Prelude Atomics Memory_Common Data_Batch Batch_Lifecycle Data_Repository Repository_Pop
    Repository_Exchange Repository_Wakeups Pop_Waiting Repository_Manager Host_Resource Host_Accounting
    Host_Guarantees Host_Blocks Notification Reserving Disk_Limiter Double Double_Error Memory_Config
    Reservation Device_Adaptor Device_Guarantees Device_Accounting Device_Threads
    Device_Interleaving Device_Races Memory_Space Space_Reservations
    Reservation_Manager Manager_Requests Manager_System Block_Copy Converter Conversion
    Batch_Conversion Table_System Stream_Pool Cxx_Strings Topology Topology_Facts Configurator Configuration
    Allocators
begin

text \<open>
  A verification of cuCascade, a C++ library that keeps the data of a query engine in tiers of
  memory: device memory of GPUs, pinned host memory of NUMA nodes, and disks.

  \<^bold>\<open>The program and its model.\<close> Data lives in \<^emph>\<open>batches\<close>, each with one representation in one memory
  space; tasks lock batches, repositories queue them between operators, and converters move their
  data between tiers. Memory is handed out against \<^emph>\<open>reservations\<close>: a memory space owns one resource
  per tier that keeps the books, and the reservation manager picks a space for a request. A
  configurator turns settings and the discovered topology of the machine into the spaces.

  \<^item> \<open>Prelude\<close>: machine integers, exceptions, association lists. \<open>Double\<close>: the \<open>double\<close> arithmetic on
    byte counts with its rounding, \<open>Double_Error\<close>: how far it is from the exact product and quotient.
    \<open>Cxx_Strings\<close>: the string functions of the standard library.
  \<^item> \<open>Atomics\<close> (\<open>include/utils/atomics.hpp\<close>): bounded counters as atomic steps, and their
    compare-and-swap loops over a list of observed values.
  \<^item> \<open>Data_Batch\<close>, \<open>Batch_Lifecycle\<close> (\<open>data/data_batch\<close>, \<open>data/common.hpp\<close>): the record of a batch, one
    definition per method, processing handles; reachable states as an inductive relation, the
    transition table, and the abstract machine of counters that the batch implements.
  \<^item> \<open>Data_Repository\<close>, \<open>Repository_Pop\<close>, \<open>Repository_Manager\<close> (\<open>data/data_repository\<close>,
    \<open>data/data_repository_manager\<close>): queues of batches by partition over a heap of batches, the pops
    proved once in the locale \<open>pop_transition\<close> for every transition that a pop may ask for.
    \<open>Repository_Exchange\<close> and \<open>Repository_Wakeups\<close> run any number of repositories and of threads that add,
    pop, lock and release over one heap of batches, in every order, with the notifications each step sends.
    There a search of a partition is one step; \<open>Pop_Waiting\<close> splits \<open>pop_data_batch\<close> into one test of a
    candidate at a time and the wait, next to threads that act in between, for the claims on waking.
  \<^item> \<open>Block_Copy\<close>, \<open>Converter\<close>, \<open>Conversion\<close> (\<open>data/representation_converter\<close>, \<open>memory/host_table.hpp\<close>, the
    table representations): a byte memory, the block copy loops, the registry and the built-in
    converters; that a conversion keeps the table and disturbs no other is proved over the locale
    \<open>block_layout\<close>, whose instance is the layout of the allocations of the host resource.
    \<open>Batch_Conversion\<close> puts the registry under \<open>data_batch::convert_to\<close>. \<open>Table_System\<close> runs batches over
    any number of spaces, next to other clients of the host resources, and shows that each keeps its
    table; who owns which block of which space is its invariant.
  \<^item> \<open>Host_Resource\<close>, \<open>Host_Accounting\<close>, \<open>Host_Guarantees\<close>, \<open>Host_Blocks\<close>
    (\<open>memory/fixed_size_host_memory_resource\<close>): pools of blocks, reservations and the counter of bytes;
    the counter covers what is in use and keeps within the capacity, and is exact unless an expansion
    of the pool fails or an exceeded reservation is grown; reservations are honoured, blocks never
    overlap, and what is freed is never used again.
  \<^item> \<open>Reserving\<close>: the contract of a resource that reserves bytes below a limit, as a locale with
    interpretations on the disk limiter, the device adaptor, the host resource and the memory space;
    \<open>releasing\<close> extends it by the release and by ledgers of what clients hold, for the same four.
  \<^item> \<open>Disk_Limiter\<close> (\<open>memory/disk_access_limiter\<close>), \<open>Notification\<close> (\<open>memory/notification_channel\<close>),
    \<open>Reservation\<close> (\<open>memory/memory_reservation\<close>, \<open>memory/oom_handling_policy\<close>).
  \<^item> \<open>Device_Adaptor\<close>, \<open>Device_Guarantees\<close>, \<open>Device_Accounting\<close>
    (\<open>memory/reservation_aware_resource_adaptor\<close>): trackers, reservations and allocations on a device;
    what each call does to the books, and that they are exact in every run that stays clear of the
    four cases in which the code miscounts, which the steps name.
    \<open>Device_Threads\<close> models \<open>do_allocate\<close> and \<open>do_deallocate\<close> once more, one access to shared state at a
    time, and shows that an undisturbed call is the section of \<open>Device_Adaptor\<close>; \<open>Device_Interleaving\<close> runs
    any number of such calls next to reservations that come and go, and \<open>Device_Races\<close> has an interleaving
    that ruins the counter.
  \<^item> \<open>Memory_Common\<close>, \<open>Memory_Config\<close>, \<open>Memory_Space\<close>, \<open>Space_Reservations\<close> (\<open>memory/common\<close>, \<open>memory/error\<close>,
    \<open>memory/config.hpp\<close>, \<open>memory/memory_space\<close>): identifiers, limits and thresholds, the space and the
    three ways of making a reservation.
  \<^item> \<open>Reservation_Manager\<close>, \<open>Manager_Requests\<close> (\<open>memory/memory_reservation_manager\<close>): lookup tables,
    request strategies and the answer to a request. \<open>Manager_System\<close> runs clients that request and
    destroy reservations on a manager built from configurations.
  \<^item> \<open>Allocators\<close> (\<open>memory/numa_region_pinned_host_allocator\<close>, \<open>memory/null_device_memory_resource.hpp\<close>,
    \<open>memory/common.cpp\<close>): the upstream allocators and the balance of pinned memory.
  \<^item> \<open>Stream_Pool\<close> (\<open>memory/stream_pool\<close>): the pool of CUDA streams and what it lends, as a step relation.
  \<^item> \<open>Topology\<close>, \<open>Topology_Facts\<close> (\<open>memory/topology_discovery\<close>): the loader of NVML, the parsing of sysfs,
    the choice of network devices, discovery.
  \<^item> \<open>Configurator\<close>, \<open>Configuration\<close> (\<open>memory/reservation_manager_configurator\<close>): the setters and the
    building of configurations, and what a manager built from them finds.

  \<^bold>\<open>How state and failure are written.\<close> An object is a record; a method takes it and returns it with the
  result. A method that may throw returns \<open>exn + 'a\<close>, where \<open>exn\<close> also has the ways in which an execution
  goes wrong without an exception: a failing assertion (a flag says whether they are checked), the
  use of a null pointer, signed overflow. A section under a mutex is one step; allocations and
  frees on a device hold no mutex and are also split into their single accesses. Concurrency is the
  interleaving of such steps: reachable states are closed under every order of calls, and a wait on
  a condition variable is a caller that has no result until another step changes the state.

  \<^bold>\<open>What is shown.\<close> Safety of handles and data of a batch in all reachable states;
  refinement of the abstract counters; delivery of every batch exactly once, one mover for a batch in
  transit; that a pop which sleeps is woken when one of its batches becomes ready; the byte accounting
  of the host resource, the device adaptor and the disk limiter, exact under the conditions each
  theorem names, for the device under the fail policy in every interleaving of the accesses of its
  calls; no overcommitted space under any requests to the manager;
  disjointness of host blocks; that reservations are made when they fit and what is returned when they
  do not; that no batch ever loses its table, that it is converted wholly or not at all, and the round
  trip between the tiers; exclusiveness of lent streams; the order of thresholds under floating-point
  rounding; that built configurations keep within the devices and are found by the manager; round
  trips of the parsers; and which inputs make discovery and configuration fail. Where the code does
  not do what it means to, the behaviour is proved as it is: tasks stranded by a release, blocks that
  are never reused, requests that are never answered or never go past the first candidate, a wake-up that is lost
  between the search of a pop and its wait, streams
  lost by their destructor, a failing allocation that lets a free on its stream corrupt the counter, a
  limit in bytes that is rescaled, a block that shifts the counter when it is freed on another kind of
  stream, memory lost when registering it fails.

  \<^bold>\<open>Bounds and fuel.\<close> Sizes are 64-bit words and wrap as in C++; theorems state the bounds under which
  the word arithmetic is exact (counters below \<open>2 ^ 63\<close>), and byte counts below \<open>2 ^ 53\<close> where they pass
  through a \<open>double\<close> and the theorem bounds its rounding. The copy loops and the parsers are total functions with a termination proof.
  Loops that retry take the list of what they observe in each round, and loops that wait take the
  list of what others do in the meantime, so that no fuel bounds them: an exhausted list is a caller
  that still waits.

  \<^bold>\<open>Parameters.\<close> RMM's upstream resources, CUDA and libnuma, cuDF's pack and unpack, NVML, the file
  system, the dynamic linker and the memory of a device are arguments of the definitions, with the
  documented behaviour that a theorem needs as a named hypothesis and an instance that satisfies it
  (for the pinned allocator this includes which blocks are registered with CUDA).

  \<^bold>\<open>Not modelled.\<close> \<open>utils/overloaded.hpp\<close> is a visitor template and is a case distinction here. Plain
  getters that return a field are the field. Log output on standard error is left out. Failing CUDA
  calls inside converters throw before a representation exists and are not distinguished. The
  relaxed orders of atomics, spurious wake-ups and the timing of streams are below the level of this
  model. Tests, benchmarks and build files define no behaviour of the library.
\<close>

end
